(* ===== verification/Prelude.thy ===== *)
theory Prelude
  imports Complex_Main
    "HOL-Library.Multiset"
    "HOL-Library.Char_ord"
    "HOL-Library.List_Lexorder"
    "HOL-Library.Product_Lexorder"
    "HOL-Library.Sublist"
begin

text \<open>
  Shared ground of the development: errors as values and the loops that stop at the
  first one, Python's dictionaries and counters, the decimal digits of an integer, the
  separator-joined strings the program hashes, and the generic facts on sorted lists
  that make results independent of input order.

  Strings are lists of bytes (the UTF-8 encoding of the Python string): the
  lexicographic order on bytes is the order of the code points, so comparing and
  sorting strings here is what Python's comparison does.  A Python \<open>date\<close> is its
  ordinal day number, an \<open>int\<close>, and a \<open>timedelta\<close> of whole days is an \<open>int\<close> too.
\<close>

named_theorems errs \<open>equations of the loops that stop at the first error\<close>
named_theorems dicts \<open>lookups after updates of dictionaries and counters\<close>

section \<open>Errors\<close>

text \<open>
  What the modelled code can raise.  A \<open>ValueError\<close> carries the fixed words of its
  message; a \<open>KeyError\<close> is a missing dictionary key; \<open>InvalidOperation\<close> and
  \<open>DivisionByZero\<close> are the traps of the decimal context; a \<open>TypeError\<close> is a list or a table used
  where a hashable value is needed; an \<open>AttributeError\<close> is a field read of \<open>None\<close>; an \<open>OverflowError\<close> is a number beyond the floats;
  \<open>AssertionError\<close> and \<open>InfiniteStep\<close> are where the Hungarian algorithm would fail to converge.  \<open>RecursionError\<close> and \<open>OutOfFuel\<close> are
  what a recursion and a \<open>while\<close> loop give when they do not end within the bound the model
  puts on them; the theorems show that they are never reached.
\<close>

datatype py_error =
    ValueError string
  | KeyError
  | IndexError
  | InvalidOperation
  | DivisionByZero
  | TypeError
  | AttributeError
  | OverflowError
  | AssertionError
  | InfiniteStep
  | RecursionError
  | OutOfFuel

type_synonym 'a result = "py_error + 'a"
type_synonym date = int

definition bindE :: "'e + 'a \<Rightarrow> ('a \<Rightarrow> 'e + 'b) \<Rightarrow> 'e + 'b" where
  "bindE m f = (case m of Inl e \<Rightarrow> Inl e | Inr x \<Rightarrow> f x)"

text \<open>\<open>for x in xs: state = f(state, x)\<close>, where the body may raise.\<close>

fun foldE :: "('s \<Rightarrow> 'a \<Rightarrow> 'e + 's) \<Rightarrow> 's \<Rightarrow> 'a list \<Rightarrow> 'e + 's" where
  "foldE f s [] = Inr s"
| "foldE f s (x # xs) = bindE (f s x) (\<lambda>s'. foldE f s' xs)"

text \<open>\<open>for x in xs: out += f(x)\<close>, where the body may raise.\<close>

fun collectE :: "('a \<Rightarrow> 'e + 'b list) \<Rightarrow> 'a list \<Rightarrow> 'e + 'b list" where
  "collectE f [] = Inr []"
| "collectE f (x # xs) = bindE (f x) (\<lambda>ys. bindE (collectE f xs) (\<lambda>zs. Inr (ys @ zs)))"

text \<open>\<open>[f(x) for x in xs]\<close>, where the body may raise.\<close>

fun mapE :: "('a \<Rightarrow> 'e + 'b) \<Rightarrow> 'a list \<Rightarrow> 'e + 'b list" where
  "mapE f [] = Inr []"
| "mapE f (x # xs) = bindE (f x) (\<lambda>y. bindE (mapE f xs) (\<lambda>ys. Inr (y # ys)))"

text \<open>\<open>if not cond: raise err\<close>\<close>

definition checkE :: "bool \<Rightarrow> 'e \<Rightarrow> 'e + unit" where
  "checkE b e = (if b then Inr () else Inl e)"

lemma bindE_simps [simp]:
  "bindE (Inl e) f = Inl e"
  "bindE (Inr x) f = f x"
  by (simp_all add: bindE_def)

lemma bindE_eq_Inr [simp]: "bindE m f = Inr y \<longleftrightarrow> (\<exists>x. m = Inr x \<and> f x = Inr y)"
  by (cases m) auto

lemma bindE_eq_Inl: "bindE m f = Inl e \<longleftrightarrow> m = Inl e \<or> (\<exists>x. m = Inr x \<and> f x = Inl e)"
  by (cases m) auto

lemma checkE_eq_Inr [simp]: "checkE b e = Inr u \<longleftrightarrow> b"
  by (cases u) (simp add: checkE_def)

lemma checkE_eq_Inl [simp]: "checkE b e = Inl e' \<longleftrightarrow> \<not> b \<and> e' = e"
  by (auto simp: checkE_def)

lemma foldE_append: "foldE f s (xs @ ys) = bindE (foldE f s xs) (\<lambda>s'. foldE f s' ys)"
proof (induction xs arbitrary: s)
  case (Cons x xs)
  then show ?case by (cases "f s x") simp_all
qed simp

lemma foldE_invariant:
  assumes "foldE f s xs = Inr s'" and "I s"
    and "\<And>s x s'. x \<in> set xs \<Longrightarrow> I s \<Longrightarrow> f s x = Inr s' \<Longrightarrow> I s'"
  shows "I s'"
  using assms by (induction xs arbitrary: s) auto

lemma foldE_Inl: "foldE f s xs = Inl e \<Longrightarrow> \<exists>s x. x \<in> set xs \<and> f s x = Inl e"
proof (induction xs arbitrary: s)
  case (Cons x xs)
  then consider "f s x = Inl e" | s' where "foldE f s' xs = Inl e" by (auto simp: bindE_eq_Inl)
  then show ?case by cases (use Cons.IH in \<open>fastforce+\<close>)
qed simp

lemma collectE_Inr_set:
  assumes "collectE f xs = Inr ys"
  shows "set ys = {y. \<exists>x \<in> set xs. \<exists>zs. f x = Inr zs \<and> y \<in> set zs}"
  using assms by (induction xs arbitrary: ys) fastforce+

lemma collectE_mem:
  "collectE f xs = Inr ys \<Longrightarrow> y \<in> set ys \<longleftrightarrow> (\<exists>x \<in> set xs. \<exists>zs. f x = Inr zs \<and> y \<in> set zs)"
  by (simp add: collectE_Inr_set)

lemma collectE_each: "collectE f xs = Inr ys \<Longrightarrow> x \<in> set xs \<Longrightarrow> \<exists>zs. f x = Inr zs"
  by (induction xs arbitrary: ys) auto

lemma collectE_total: "(\<And>x. x \<in> set xs \<Longrightarrow> \<exists>zs. f x = Inr zs) \<Longrightarrow> \<exists>ys. collectE f xs = Inr ys"
  by (induction xs) force+

lemma collectE_cong [fundef_cong]:
  "xs = ys \<Longrightarrow> (\<And>x. x \<in> set ys \<Longrightarrow> f x = g x) \<Longrightarrow> collectE f xs = collectE g ys"
  by (induction ys arbitrary: xs) auto

lemma collectE_pure: "collectE (\<lambda>x. Inr (f x)) xs = Inr (concat (map f xs))"
  by (induction xs) simp_all

lemma mapE_eq_Inr: "mapE f xs = Inr ys \<longleftrightarrow> list_all2 (\<lambda>x y. f x = Inr y) xs ys"
proof (induction xs arbitrary: ys)
  case (Cons x xs)
  then show ?case by (cases ys) auto
qed auto

lemma mapE_total: "(\<And>x. x \<in> set xs \<Longrightarrow> f x = Inr (g x)) \<Longrightarrow> mapE f xs = Inr (map g xs)"
  by (induction xs) auto

lemma mapE_cong [fundef_cong]:
  "xs = ys \<Longrightarrow> (\<And>x. x \<in> set ys \<Longrightarrow> f x = g x) \<Longrightarrow> mapE f xs = mapE g ys"
  by (induction ys arbitrary: xs) auto

lemma foldE_cong [fundef_cong]:
  "s = t \<Longrightarrow> xs = ys \<Longrightarrow> (\<And>s x. x \<in> set ys \<Longrightarrow> f s x = g s x) \<Longrightarrow> foldE f s xs = foldE g t ys"
  by (induction ys arbitrary: xs s t) (auto intro!: arg_cong2 [where f = bindE])

lemmas [errs] = bindE_simps bindE_eq_Inr checkE_eq_Inr collectE_pure

section \<open>Dictionaries kept in insertion order\<close>

text \<open>
  A Python \<open>dict\<close> that is iterated over is an association list with distinct keys, in
  insertion order: \<open>d.get\<close> is \<open>map_of\<close>, \<open>d[k] = v\<close> replaces in place or appends.
\<close>

fun dict_put :: "'k \<Rightarrow> 'v \<Rightarrow> ('k \<times> 'v) list \<Rightarrow> ('k \<times> 'v) list" where
  "dict_put k v [] = [(k, v)]"
| "dict_put k v ((k', v') # d) = (if k = k' then (k, v) # d else (k', v') # dict_put k v d)"

definition dict_del :: "'k \<Rightarrow> ('k \<times> 'v) list \<Rightarrow> ('k \<times> 'v) list" where
  "dict_del k d = filter (\<lambda>kv. fst kv \<noteq> k) d"

text \<open>\<open>d[k]\<close>\<close>

definition dict_getE :: "('k \<times> 'v) list \<Rightarrow> 'k \<Rightarrow> 'v result" where
  "dict_getE d k = (case map_of d k of None \<Rightarrow> Inl KeyError | Some v \<Rightarrow> Inr v)"

lemma dict_getE_eq_Inr [dicts, simp]: "dict_getE d k = Inr v \<longleftrightarrow> map_of d k = Some v"
  by (simp add: dict_getE_def split: option.splits)

lemma map_of_dict_put [dicts, simp]: "map_of (dict_put k v d) = (map_of d)(k \<mapsto> v)"
  by (induction d) (auto simp: fun_eq_iff)

lemma map_of_dict_del [dicts, simp]: "map_of (dict_del k d) = (map_of d)(k := None)"
  by (induction d) (auto simp: dict_del_def fun_eq_iff)

lemma set_keys_dict_put [dicts, simp]: "fst ` set (dict_put k v d) = insert k (fst ` set d)"
proof (induction d)
  case (Cons kv d)
  then show ?case by (cases kv) (auto simp: insert_commute split: if_splits)
qed simp

lemma set_keys_dict_del [dicts, simp]: "fst ` set (dict_del k d) = fst ` set d - {k}"
  by (auto simp: dict_del_def)

lemma distinct_dict_put [simp]: "distinct (map fst d) \<Longrightarrow> distinct (map fst (dict_put k v d))"
proof (induction d)
  case (Cons kv d)
  then show ?case
    using set_keys_dict_put [of k v d] by (cases kv) (auto simp flip: set_map)
qed simp

lemma distinct_dict_del [simp]: "distinct (map fst d) \<Longrightarrow> distinct (map fst (dict_del k d))"
  unfolding dict_del_def by (rule distinct_map_filter)

lemma length_dict_del: "length (dict_del k d) \<le> length d"
  by (simp add: dict_del_def)

lemma length_dict_del_less: "k \<in> fst ` set d \<Longrightarrow> length (dict_del k d) < length d"
  unfolding dict_del_def by (auto intro: length_filter_less)

section \<open>Counters\<close>

text \<open>
  \<open>collections.Counter\<close>: a missing key reads as 0, and \<open>c[k] += n\<close> stores the key
  even when \<open>n\<close> is 0.  As a value (\<open>dict(counters)\<close>) it is a partial function.
\<close>

type_synonym counter = "string \<rightharpoonup> int"

definition count_get :: "counter \<Rightarrow> string \<Rightarrow> int" where
  "count_get c k = (case c k of None \<Rightarrow> 0 | Some n \<Rightarrow> n)"

definition count_add :: "string \<Rightarrow> int \<Rightarrow> counter \<Rightarrow> counter" where
  "count_add k n c = c(k \<mapsto> count_get c k + n)"

lemma count_get_add [dicts, simp]:
  "count_get (count_add k n c) k' = (if k' = k then count_get c k + n else count_get c k')"
  by (simp add: count_get_def count_add_def)

lemma count_get_upd [dicts, simp]:
  "count_get (c(k \<mapsto> n)) k' = (if k' = k then n else count_get c k')"
  by (simp add: count_get_def)

lemma count_get_empty [dicts, simp]: "count_get Map.empty k = 0"
  by (simp add: count_get_def)

section \<open>Python's \<open>max\<close> and \<open>min\<close> of a non-empty sequence\<close>

fun max_of :: "'a::linorder list \<Rightarrow> 'a" where
  "max_of [x] = x"
| "max_of (x # y # ys) = max x (max_of (y # ys))"

fun min_of :: "'a::linorder list \<Rightarrow> 'a" where
  "min_of [x] = x"
| "min_of (x # y # ys) = min x (min_of (y # ys))"

lemma max_of_Max: "xs \<noteq> [] \<Longrightarrow> max_of xs = Max (set xs)"
  by (induction xs rule: max_of.induct) auto

lemma min_of_Min: "xs \<noteq> [] \<Longrightarrow> min_of xs = Min (set xs)"
  by (induction xs rule: min_of.induct) auto

lemma max_of_less_iff: "xs \<noteq> [] \<Longrightarrow> max_of xs < (b::'a::linorder) \<longleftrightarrow> (\<forall>x \<in> set xs. x < b)"
  by (simp add: max_of_Max)

lemma max_of_le_iff: "xs \<noteq> [] \<Longrightarrow> max_of xs \<le> (b::'a::linorder) \<longleftrightarrow> (\<forall>x \<in> set xs. x \<le> b)"
  by (simp add: max_of_Max)

lemma max_of_ge: "x \<in> set xs \<Longrightarrow> x \<le> max_of (xs::'a::linorder list)"
  using max_of_Max [of xs] by (cases xs) auto

lemma max_of_in: "xs \<noteq> [] \<Longrightarrow> max_of (xs::'a::linorder list) \<in> set xs"
  by (simp add: max_of_Max)

lemma min_of_le: "x \<in> set xs \<Longrightarrow> min_of (xs::'a::linorder list) \<le> x"
  using min_of_Min [of xs] by (cases xs) auto

lemma min_of_in: "xs \<noteq> [] \<Longrightarrow> min_of (xs::'a::linorder list) \<in> set xs"
  by (simp add: min_of_Min)

section \<open>Sorting\<close>

text \<open>
  Python's \<open>sorted(xs, key=f)\<close> is stable, as \<open>sort_key\<close> is.  Where the key tells the
  elements of the list apart, the result depends on the multiset of the elements only:
  this is what makes the engine independent of the order of its inputs.
\<close>

lemma sort_key_mset_eq:
  assumes "mset xs = mset ys" and "inj_on f (set xs)"
  shows "sort_key f xs = sort_key f ys"
proof (rule properties_for_sort_key)
  show "mset (sort_key f ys) = mset xs"
    using assms(1) by simp
next
  fix k
  assume "k \<in> set (sort_key f ys)"
  then have k: "k \<in> set xs" using assms(1) by (metis mset_eq_setD set_sort)
  have one: "filter (\<lambda>x. f k = f x) zs = replicate (count (mset zs) k) k"
    if "set zs = set xs" for zs
  proof -
    have "filter (\<lambda>x. f k = f x) zs = filter (\<lambda>x. k = x) zs"
      using assms(2) k that by (intro filter_cong) (auto simp: inj_on_def)
    also have "\<dots> = replicate (count (mset zs) k) k"
      by (induction zs) auto
    finally show ?thesis .
  qed
  have "set (sort_key f ys) = set xs"
    using assms(1) by (metis mset_eq_setD set_sort)
  then show "filter (\<lambda>x. f k = f x) (sort_key f ys) = filter (\<lambda>x. f k = f x) xs"
    using one [of "sort_key f ys"] one [of xs] assms(1) by simp
next
  show "sorted (map f (sort_key f ys))" by simp
qed

lemma sort_mset_eq: "mset xs = mset ys \<Longrightarrow> sort xs = sort ys"
  by (rule sort_key_mset_eq) auto

lemma filter_mset_eq_list: "mset xs = mset ys \<Longrightarrow> mset (filter P xs) = mset (filter P ys)"
  by simp

section \<open>Subsequences\<close>

lemma subseq_set: "subseq xs ys \<Longrightarrow> set xs \<subseteq> set ys"
  by (auto simp: subseq_conv_nths dest: in_set_nthsD)

lemma subseq_distinct: "subseq xs ys \<Longrightarrow> distinct ys \<Longrightarrow> distinct xs"
  by (auto simp: subseq_conv_nths)

lemma subseq_filter_iff: "subseq xs (filter P ys) \<longleftrightarrow> subseq xs ys \<and> (\<forall>x \<in> set xs. P x)"
proof
  assume a: "subseq xs (filter P ys)"
  then have "subseq xs ys" by (rule subseq_order.order_trans [OF _ subseq_filter_left])
  moreover have "set xs \<subseteq> set (filter P ys)" using a by (rule subseq_set)
  ultimately show "subseq xs ys \<and> (\<forall>x \<in> set xs. P x)" by auto
next
  assume a: "subseq xs ys \<and> (\<forall>x \<in> set xs. P x)"
  then have "filter P xs = xs" by (simp add: filter_id_conv)
  with a subseq_filter [of xs ys P] show "subseq xs (filter P ys)" by simp
qed

end
