(* ===== verification/Decimal.thy ===== *)
theory Decimal
  imports Prelude
begin

text \<open>
  Python's \<open>decimal.Decimal\<close> under the library's own context
  (\<open>numeric.ENGINE_CONTEXT\<close>: 28 significant digits, half to even): a finite number is a
  sign, a coefficient and an exponent, and every arithmetic operation computes the exact
  result and then rounds its coefficient to 28 digits.  The operations follow the
  General Decimal Arithmetic algorithms of the standard library (alignment to the smaller
  exponent, the sticky digit of a division, the ideal exponent of an exact quotient).
  Comparisons are exact: they do not round.

  Not modelled: NaN and the infinities (the program's inputs are finite amounts) and the
  exponent limits of the context (plus or minus 999999).
\<close>

section \<open>Numbers\<close>

datatype decimal = Dec (neg: bool) (coeff: nat) (expo: int)

definition dec_val :: "decimal \<Rightarrow> rat" where
  "dec_val d = (if neg d then -1 else 1) * of_nat (coeff d) * 10 powi expo d"

text \<open>The number of digits of a coefficient: \<open>len(self._int)\<close>, 1 for zero.\<close>

fun ndigits :: "nat \<Rightarrow> nat" where
  "ndigits n = (if n < 10 then 1 else Suc (ndigits (n div 10)))"

declare ndigits.simps [simp del]

text \<open>A coefficient with its lowest \<open>k\<close> digits dropped, half to even.\<close>

definition round_half_even :: "nat \<Rightarrow> nat \<Rightarrow> nat" where
  "round_half_even n k =
     (let q = n div 10 ^ k; r = n mod 10 ^ k in
      if 2 * r > 10 ^ k \<or> (2 * r = 10 ^ k \<and> odd q) then Suc q else q)"

text \<open>\<open>_fix\<close>: to the precision of the context; a carry into a 29th digit is shifted out.\<close>

definition prec :: nat where
  "prec = 28"

definition dec_fix :: "decimal \<Rightarrow> decimal" where
  "dec_fix d =
     (let n = ndigits (coeff d) in
      if n \<le> prec then d
      else let k = n - prec; c = round_half_even (coeff d) k in
        if ndigits c > prec then Dec (neg d) (c div 10) (expo d + int k + 1)
        else Dec (neg d) c (expo d + int k))"

section \<open>Arithmetic\<close>

text \<open>A signed coefficient at a smaller exponent, and back.\<close>

definition signed_at :: "decimal \<Rightarrow> int \<Rightarrow> int" where
  "signed_at d e = (if neg d then - int (coeff d) else int (coeff d)) * 10 ^ nat (expo d - e)"

definition dec_add :: "decimal \<Rightarrow> decimal \<Rightarrow> decimal" where
  "dec_add a b =
     (let e = min (expo a) (expo b); s = signed_at a e + signed_at b e in
      if coeff a = 0 \<and> coeff b = 0 then Dec (neg a \<and> neg b) 0 e
      else dec_fix (Dec (s < 0) (nat \<bar>s\<bar>) e))"

definition dec_copy_negate :: "decimal \<Rightarrow> decimal" where
  "dec_copy_negate a = Dec (\<not> neg a) (coeff a) (expo a)"

definition dec_sub :: "decimal \<Rightarrow> decimal \<Rightarrow> decimal" where
  "dec_sub a b = dec_add a (dec_copy_negate b)"

definition dec_abs :: "decimal \<Rightarrow> decimal" where
  "dec_abs a = dec_fix (Dec False (coeff a) (expo a))"

definition dec_mul :: "decimal \<Rightarrow> decimal \<Rightarrow> decimal" where
  "dec_mul a b = dec_fix (Dec (neg a \<noteq> neg b) (coeff a * coeff b) (expo a + expo b))"

text \<open>Trailing zeros of an exact quotient are removed up to the ideal exponent.\<close>

function strip_to :: "int \<Rightarrow> nat \<Rightarrow> int \<Rightarrow> nat \<times> int" where
  "strip_to ideal c e =
     (if e < ideal \<and> c mod 10 = 0 then strip_to ideal (c div 10) (e + 1) else (c, e))"
  by pat_completeness auto
termination
  by (relation "measure (\<lambda>(ideal, c, e). nat (ideal - e))") auto

declare strip_to.simps [simp del]

definition dec_div :: "decimal \<Rightarrow> decimal \<Rightarrow> decimal result" where
  "dec_div a b =
     (let sgn = (neg a \<noteq> neg b); ideal = expo a - expo b in
      if coeff b = 0 then Inl (if coeff a = 0 then InvalidOperation else DivisionByZero)
      else if coeff a = 0 then Inr (Dec sgn 0 ideal)
      else
        (let shift = int (ndigits (coeff b)) - int (ndigits (coeff a)) + int prec + 1;
             e = ideal - shift;
             n = coeff a * 10 ^ nat shift; m = coeff b * 10 ^ nat (- shift);
             c = n div m in
         if n mod m \<noteq> 0
         then Inr (dec_fix (Dec sgn (if c mod 5 = 0 then Suc c else c) e))
         else (let (c', e') = strip_to ideal c e in Inr (dec_fix (Dec sgn c' e')))))"

text \<open>\<open>quantize\<close> with half-even rounding; it raises when the result needs more digits than
  the context has.\<close>

definition dec_rescale :: "decimal \<Rightarrow> int \<Rightarrow> decimal" where
  "dec_rescale d e =
     (if coeff d = 0 then Dec (neg d) 0 e
      else if e \<le> expo d then Dec (neg d) (coeff d * 10 ^ nat (expo d - e)) e
      else Dec (neg d) (round_half_even (coeff d) (nat (e - expo d))) e)"

definition dec_quantize :: "decimal \<Rightarrow> int \<Rightarrow> decimal result" where
  "dec_quantize d e =
     (let q = dec_rescale d e in
      if ndigits (coeff q) > prec then Inl InvalidOperation else Inr q)"

definition dec_of_int :: "int \<Rightarrow> decimal" where
  "dec_of_int i = Dec (i < 0) (nat \<bar>i\<bar>) 0"

section \<open>Comparison\<close>

text \<open>\<open>a < b\<close>, \<open>a == b\<close> on the values, without rounding.\<close>

definition dec_less :: "decimal \<Rightarrow> decimal \<Rightarrow> bool" where
  "dec_less a b = (let e = min (expo a) (expo b) in signed_at a e < signed_at b e)"

definition dec_eq :: "decimal \<Rightarrow> decimal \<Rightarrow> bool" where
  "dec_eq a b = (let e = min (expo a) (expo b) in signed_at a e = signed_at b e)"

definition dec_le :: "decimal \<Rightarrow> decimal \<Rightarrow> bool" where
  "dec_le a b = (let e = min (expo a) (expo b) in signed_at a e \<le> signed_at b e)"

section \<open>Printing\<close>

fun digit_chars :: "nat \<Rightarrow> string" where
  "digit_chars n =
     (if n < 10 then [char_of (48 + n)] else digit_chars (n div 10) @ [char_of (48 + n mod 10)])"

declare digit_chars.simps [simp del]

definition str_int :: "int \<Rightarrow> string" where
  "str_int i = (if i < 0 then ''-'' @ digit_chars (nat (- i)) else digit_chars (nat i))"

text \<open>\<open>str(d)\<close>: plain notation down to six leading zeros, scientific otherwise.\<close>

definition str_dec :: "decimal \<Rightarrow> string" where
  "str_dec d =
     (let ds = digit_chars (coeff d); len = int (length ds);
          left = expo d + len;
          dot = (if expo d \<le> 0 \<and> left > -6 then left else 1);
          body = (if dot \<le> 0 then ''0.'' @ replicate (nat (- dot)) CHR ''0'' @ ds
                  else if dot \<ge> len then ds @ replicate (nat (dot - len)) CHR ''0''
                  else take (nat dot) ds @ ''.'' @ drop (nat dot) ds);
          e = left - dot;
          tail = (if e = 0 then '''' else ''E'' @ (if e < 0 then '''' else ''+'') @ str_int e) in
      (if neg d then ''-'' else '''') @ body @ tail)"

section \<open>Values\<close>

lemma powi10_pos [simp]: "(0::rat) < 10 powi e"
  by simp

lemma powi10_split: "e \<le> f \<Longrightarrow> (10::rat) powi f = 10 ^ nat (f - e) * 10 powi e"
  by (simp add: power_int_add [symmetric] flip: power_int_of_nat)

lemma signed_at_val:
  assumes "e \<le> expo d"
  shows "of_int (signed_at d e) * 10 powi e = dec_val d"
  using assms by (simp add: signed_at_def dec_val_def powi10_split [of e "expo d"])

lemma dec_less_val: "dec_less a b \<longleftrightarrow> dec_val a < dec_val b"
proof -
  let ?e = "min (expo a) (expo b)"
  have "dec_val a < dec_val b \<longleftrightarrow>
      (of_int (signed_at a ?e) :: rat) * 10 powi ?e < of_int (signed_at b ?e) * 10 powi ?e"
    by (simp add: signed_at_val)
  also have "\<dots> \<longleftrightarrow> signed_at a ?e < signed_at b ?e"
    by (subst mult_less_cancel_right_pos) simp_all
  finally show ?thesis by (simp add: dec_less_def Let_def)
qed

lemma dec_le_val: "dec_le a b \<longleftrightarrow> dec_val a \<le> dec_val b"
proof -
  have "dec_le a b \<longleftrightarrow> \<not> dec_less b a"
    by (auto simp: dec_le_def dec_less_def Let_def min.commute)
  then show ?thesis by (auto simp: dec_less_val)
qed

lemma dec_eq_val: "dec_eq a b \<longleftrightarrow> dec_val a = dec_val b"
proof -
  have "dec_eq a b \<longleftrightarrow> dec_le a b \<and> dec_le b a"
    by (auto simp: dec_le_def dec_eq_def Let_def min.commute)
  then show ?thesis by (auto simp: dec_le_val)
qed

lemmas dec_cmp = dec_less_val dec_le_val dec_eq_val

lemma dec_val_nonneg [simp]: "\<not> neg d \<Longrightarrow> 0 \<le> dec_val d"
  by (simp add: dec_val_def)

lemma dec_val_zero [simp]: "coeff d = 0 \<Longrightarrow> dec_val d = 0"
  by (simp add: dec_val_def)

lemma dec_val_Dec: "dec_val (Dec s c e) = (if s then -1 else 1) * of_nat c * 10 powi e"
  by (simp add: dec_val_def)

section \<open>Digits\<close>

lemma ndigits_pos [simp]: "0 < ndigits n"
  by (subst ndigits.simps) simp

lemma ndigits_upper: "n < 10 ^ ndigits n"
proof (induction n rule: ndigits.induct)
  case (1 n)
  show ?case
  proof (cases "n < 10")
    case False
    then have "n div 10 < 10 ^ ndigits (n div 10)" using 1 by simp
    then have "n < 10 * 10 ^ ndigits (n div 10)" by linarith
    with False show ?thesis by (subst ndigits.simps) simp
  qed (subst ndigits.simps, simp)
qed

lemma ndigits_lower: "n \<noteq> 0 \<Longrightarrow> 10 ^ (ndigits n - 1) \<le> n"
proof (induction n rule: ndigits.induct)
  case (1 n)
  show ?case
  proof (cases "n < 10")
    case True
    with 1 show ?thesis by (subst ndigits.simps) simp
  next
    case False
    then have "10 ^ (ndigits (n div 10) - 1) \<le> n div 10" using 1 by simp
    then have "10 * 10 ^ (ndigits (n div 10) - 1) \<le> n" by linarith
    with False show ?thesis
      by (subst ndigits.simps) (simp flip: power_Suc)
  qed
qed

lemma ndigits_le_iff: "0 < k \<Longrightarrow> ndigits n \<le> k \<longleftrightarrow> n < 10 ^ k"
proof
  assume "ndigits n \<le> k"
  then have "(10::nat) ^ ndigits n \<le> 10 ^ k" by (rule power_increasing) simp
  with ndigits_upper [of n] show "n < 10 ^ k" by linarith
next
  assume k: "0 < k" and n: "n < 10 ^ k"
  show "ndigits n \<le> k"
  proof (cases "n = 0")
    case True
    with k show ?thesis by (subst ndigits.simps) simp
  next
    case False
    then have "(10::nat) ^ (ndigits n - 1) < 10 ^ k"
      using ndigits_lower n by (meson le_less_trans)
    then have "ndigits n - 1 < k" by (simp add: power_strict_increasing_iff)
    with k show ?thesis by linarith
  qed
qed

section \<open>Rounding\<close>

lemma round_half_even_upper:
  assumes "n \<le> m * 10 ^ k" shows "round_half_even n k \<le> m"
proof -
  have q: "n div 10 ^ k \<le> m"
    using assms by (metis div_le_mono div_mult_self_is_m zero_less_numeral zero_less_power)
  moreover have "n mod 10 ^ k = 0" if "n div 10 ^ k = m"
    using assms that by (metis add_le_same_cancel1 div_mult_mod_eq le_zero_eq)
  ultimately show ?thesis
    by (cases "n div 10 ^ k = m") (auto simp: round_half_even_def Let_def)
qed

lemma round_half_even_lower:
  assumes "m * 10 ^ k \<le> n" shows "m \<le> round_half_even n k"
proof -
  have "m \<le> n div 10 ^ k"
    using assms by (metis div_le_mono div_mult_self_is_m zero_less_numeral zero_less_power)
  then show ?thesis by (auto simp: round_half_even_def Let_def)
qed

lemma round_half_even_mono: "n \<le> m \<Longrightarrow> round_half_even n k \<le> round_half_even m k"
proof (cases "n div 10 ^ k = m div 10 ^ k")
  case True
  assume "n \<le> m"
  with True have "n mod 10 ^ k \<le> m mod 10 ^ k"
    by (metis div_mult_mod_eq nat_add_left_cancel_le)
  with True show ?thesis by (auto simp: round_half_even_def Let_def)
next
  case False
  assume "n \<le> m"
  with False have "Suc (n div 10 ^ k) \<le> m div 10 ^ k"
    by (simp add: Suc_leI div_le_mono le_neq_implies_less)
  then show ?thesis by (auto simp: round_half_even_def Let_def)
qed

lemma powi10_shift: "(10::rat) powi (e + int k) = 10 ^ k * 10 powi e"
  by (simp add: power_int_add)

text \<open>The magnitude of a number, and what rounding to the precision does to it.\<close>

definition dec_mag :: "decimal \<Rightarrow> rat" where
  "dec_mag d = of_nat (coeff d) * 10 powi expo d"

definition representable :: "decimal \<Rightarrow> bool" where
  "representable d \<longleftrightarrow> ndigits (coeff d) \<le> prec"

lemma dec_val_mag: "dec_val d = (if neg d then - dec_mag d else dec_mag d)"
  by (simp add: dec_val_def dec_mag_def)

lemma dec_mag_nonneg [simp]: "0 \<le> dec_mag d"
  by (simp add: dec_mag_def)

lemma neg_dec_fix [simp]: "neg (dec_fix d) = neg d"
  by (simp add: dec_fix_def Let_def)

lemma dec_fix_id: "representable d \<Longrightarrow> dec_fix d = d"
  by (simp add: dec_fix_def representable_def)

lemma dec_mag_fix:
  assumes "\<not> representable d"
  shows "dec_mag (dec_fix d) =
    of_nat (round_half_even (coeff d) (ndigits (coeff d) - prec))
      * 10 powi (expo d + int (ndigits (coeff d) - prec))"
proof -
  let ?k = "ndigits (coeff d) - prec"
  let ?c = "round_half_even (coeff d) ?k"
  have n: "ndigits (coeff d) = prec + ?k" using assms by (simp add: representable_def)
  have "coeff d \<le> 10 ^ prec * 10 ^ ?k"
    using ndigits_upper [of "coeff d"] by (subst (asm) n) (simp add: power_add)
  then have c: "?c \<le> 10 ^ prec" by (rule round_half_even_upper)
  show ?thesis
  proof (cases "ndigits ?c > prec")
    case True
    then have "?c = 10 ^ prec" using c ndigits_le_iff [of prec ?c] by (simp add: prec_def)
    then have ten: "of_nat (?c div 10) * 10 = (of_nat ?c :: rat)" by (simp add: prec_def)
    have "dec_mag (dec_fix d) = of_nat (?c div 10) * 10 powi (expo d + int ?k + 1)"
      using assms True by (simp add: dec_fix_def dec_mag_def representable_def Let_def)
    also have "\<dots> = of_nat (?c div 10) * 10 * 10 powi (expo d + int ?k)"
      by (simp add: power_int_add)
    finally show ?thesis by (simp only: ten)
  next
    case False
    with assms show ?thesis by (simp add: dec_fix_def dec_mag_def representable_def Let_def)
  qed
qed

text \<open>
  Rounding is correct at the numbers it can represent: it never crosses one.  Every bound
  on a rounded result follows from these two facts.
\<close>

lemma unrepresentable_coeff:
  assumes "\<not> representable d"
  shows "10 ^ (prec - 1) * 10 ^ (ndigits (coeff d) - prec) \<le> coeff d"
proof -
  have c: "coeff d \<noteq> 0"
  proof
    assume "coeff d = 0"
    then have "ndigits (coeff d) = 1" by (subst ndigits.simps) simp
    with assms show False by (simp add: representable_def prec_def)
  qed
  have "ndigits (coeff d) - 1 = (prec - 1) + (ndigits (coeff d) - prec)"
    using assms by (simp add: representable_def prec_def)
  with ndigits_lower [OF c] show ?thesis by (simp only: power_add)
qed

lemma small_exponent_below:
  assumes "\<not> representable d" "representable y"
    and "expo y < expo d + int (ndigits (coeff d) - prec)"
  shows "dec_mag y < 10 ^ (prec - 1) * 10 powi (expo d + int (ndigits (coeff d) - prec))"
proof -
  let ?f = "expo d + int (ndigits (coeff d) - prec)"
  have "coeff y < 10 ^ prec"
    using assms(2) ndigits_le_iff [of prec "coeff y"] by (simp add: representable_def prec_def)
  then have "(of_nat (coeff y) :: rat) < 10 ^ prec" by (metis of_nat_less_iff of_nat_numeral of_nat_power)
  then have "dec_mag y < 10 ^ prec * 10 powi expo y" by (simp add: dec_mag_def)
  also have "\<dots> = 10 ^ (prec - 1) * 10 powi (expo y + 1)"
    by (simp add: power_int_add prec_def)
  also have "\<dots> \<le> 10 ^ (prec - 1) * 10 powi ?f"
    using assms(3) by (intro mult_left_mono power_int_increasing) simp_all
  finally show ?thesis .
qed

lemma dec_fix_mag_le:
  assumes "dec_mag d \<le> dec_mag y" "representable y"
  shows "dec_mag (dec_fix d) \<le> dec_mag y"
proof (cases "representable d")
  case True
  with assms show ?thesis by (simp add: dec_fix_id)
next
  case False
  let ?k = "ndigits (coeff d) - prec" and ?f = "expo d + int (ndigits (coeff d) - prec)"
  have low: "10 ^ (prec - 1) * 10 powi ?f \<le> dec_mag d"
  proof -
    have "(10 ^ (prec - 1) * 10 ^ ?k :: rat) \<le> of_nat (coeff d)"
      using of_nat_mono [OF unrepresentable_coeff [OF False], where 'a = rat] by simp
    then have "10 ^ (prec - 1) * 10 ^ ?k * 10 powi expo d \<le> dec_mag d"
      unfolding dec_mag_def by (intro mult_right_mono) simp_all
    then show ?thesis by (simp only: powi10_shift mult.assoc [symmetric])
  qed
  have f: "?f \<le> expo y"
  proof (rule ccontr)
    assume "\<not> ?f \<le> expo y"
    then have "dec_mag y < 10 ^ (prec - 1) * 10 powi ?f"
      using small_exponent_below [OF False assms(2)] by simp
    with low assms(1) show False by linarith
  qed
  let ?m = "coeff y * 10 ^ nat (expo y - ?f)"
  have y: "dec_mag y = of_nat ?m * 10 powi ?f"
    using f by (simp add: dec_mag_def powi10_split [of ?f "expo y"])
  have "(of_nat (coeff d) :: rat) * 10 powi expo d \<le> of_nat (?m * 10 ^ ?k) * 10 powi expo d"
    using assms(1) unfolding y by (simp add: dec_mag_def [of d] powi10_shift mult.assoc)
  then have "coeff d \<le> ?m * 10 ^ ?k"
    by (metis mult_le_cancel_right_pos of_nat_le_iff powi10_pos)
  then have "round_half_even (coeff d) ?k \<le> ?m" by (rule round_half_even_upper)
  then show ?thesis
    unfolding dec_mag_fix [OF False] y by (intro mult_right_mono) (simp_all del: of_nat_mult)
qed

lemma dec_fix_mag_ge:
  assumes "dec_mag y \<le> dec_mag d" "representable y"
  shows "dec_mag y \<le> dec_mag (dec_fix d)"
proof (cases "representable d")
  case True
  with assms show ?thesis by (simp add: dec_fix_id)
next
  case False
  let ?k = "ndigits (coeff d) - prec" and ?f = "expo d + int (ndigits (coeff d) - prec)"
  have r: "10 ^ (prec - 1) \<le> round_half_even (coeff d) ?k"
    by (rule round_half_even_lower) (rule unrepresentable_coeff [OF False])
  show ?thesis
  proof (cases "?f \<le> expo y")
    case True
    let ?m = "coeff y * 10 ^ nat (expo y - ?f)"
    have y: "dec_mag y = of_nat ?m * 10 powi ?f"
      using True by (simp add: dec_mag_def powi10_split [of ?f "expo y"])
    have "of_nat (?m * 10 ^ ?k) * 10 powi expo d \<le> (of_nat (coeff d) :: rat) * 10 powi expo d"
      using assms(1) unfolding y by (simp add: dec_mag_def [of d] powi10_shift mult.assoc)
    then have "?m * 10 ^ ?k \<le> coeff d"
      by (metis mult_le_cancel_right_pos of_nat_le_iff powi10_pos)
    then have "?m \<le> round_half_even (coeff d) ?k" by (rule round_half_even_lower)
    then show ?thesis
      unfolding dec_mag_fix [OF False] y by (intro mult_right_mono) (simp_all del: of_nat_mult)
  next
    case below: False
    then have "dec_mag y \<le> 10 ^ (prec - 1) * 10 powi ?f"
      using small_exponent_below [OF False assms(2)] by simp
    also have "\<dots> \<le> of_nat (round_half_even (coeff d) ?k) * 10 powi ?f"
      using r by (intro mult_right_mono) (metis of_nat_le_iff of_nat_numeral of_nat_power, simp)
    finally show ?thesis by (simp add: dec_mag_fix [OF False])
  qed
qed

lemma dec_fix_zero: "dec_mag d = 0 \<Longrightarrow> dec_mag (dec_fix d) = 0"
  using dec_fix_mag_le [of d "Dec False 0 0"] dec_mag_nonneg [of "dec_fix d"]
  by (simp add: representable_def ndigits.simps [of 0] prec_def dec_mag_def [of "Dec False 0 0"])

lemma dec_fix_le:
  assumes "dec_val d \<le> dec_val y" "representable y"
  shows "dec_val (dec_fix d) \<le> dec_val y"
proof -
  note b = dec_mag_nonneg [of d] dec_mag_nonneg [of y] dec_mag_nonneg [of "dec_fix d"]
  consider "neg d" "neg y" | "neg d" "\<not> neg y" | "\<not> neg d" "\<not> neg y"
    | "dec_mag d = 0" "dec_mag y = 0"
    using assms(1) b by (fastforce simp: dec_val_mag split: if_splits)
  then show ?thesis
    by cases (use assms b dec_fix_mag_le [of d y] dec_fix_mag_ge [of y d] dec_fix_zero [of d]
      in \<open>auto simp: dec_val_mag simp del: dec_mag_nonneg\<close>)
qed

lemma dec_fix_ge:
  assumes "dec_val y \<le> dec_val d" "representable y"
  shows "dec_val y \<le> dec_val (dec_fix d)"
proof -
  note b = dec_mag_nonneg [of d] dec_mag_nonneg [of y] dec_mag_nonneg [of "dec_fix d"]
  consider "neg d" "neg y" | "\<not> neg d" "neg y" | "\<not> neg d" "\<not> neg y"
    | "dec_mag d = 0" "dec_mag y = 0"
    using assms(1) b by (fastforce simp: dec_val_mag split: if_splits)
  then show ?thesis
    by cases (use assms b dec_fix_mag_le [of d y] dec_fix_mag_ge [of y d] dec_fix_zero [of d]
      in \<open>auto simp: dec_val_mag simp del: dec_mag_nonneg\<close>)
qed

text \<open>A result lies between two representable numbers when the exact result does.\<close>

definition between :: "decimal \<Rightarrow> rat \<Rightarrow> decimal \<Rightarrow> bool" where
  "between lo v hi \<longleftrightarrow> representable lo \<and> representable hi \<and> dec_val lo \<le> v \<and> v \<le> dec_val hi"

lemma dec_fix_between: "between lo (dec_val d) hi \<Longrightarrow> between lo (dec_val (dec_fix d)) hi"
  by (simp add: between_def dec_fix_le dec_fix_ge)

lemma dec_val_signed: "dec_val (Dec (s < 0) (nat \<bar>s\<bar>) e) = of_int s * 10 powi e"
  by (simp add: dec_val_def)

lemma dec_val_of_int [simp]: "dec_val (dec_of_int i) = of_int i"
  unfolding dec_of_int_def dec_val_signed by simp

lemma dec_add_between:
  assumes "between lo (dec_val a + dec_val b) hi"
  shows "between lo (dec_val (dec_add a b)) hi"
proof (cases "coeff a = 0 \<and> coeff b = 0")
  case True
  with assms show ?thesis by (simp add: dec_add_def Let_def)
next
  case False
  let ?e = "min (expo a) (expo b)" and ?s = "signed_at a (min (expo a) (expo b)) + signed_at b (min (expo a) (expo b))"
  have "dec_val (Dec (?s < 0) (nat \<bar>?s\<bar>) ?e) = dec_val a + dec_val b"
    unfolding dec_val_signed of_int_add distrib_right by (simp add: signed_at_val)
  then have "between lo (dec_val (dec_fix (Dec (?s < 0) (nat \<bar>?s\<bar>) ?e))) hi"
    using assms by (intro dec_fix_between) simp
  moreover have "dec_add a b = dec_fix (Dec (?s < 0) (nat \<bar>?s\<bar>) ?e)"
    unfolding dec_add_def Let_def using False by (rule if_not_P)
  ultimately show ?thesis by simp
qed

lemma dec_val_copy_negate [simp]: "dec_val (dec_copy_negate a) = - dec_val a"
  by (simp add: dec_copy_negate_def dec_val_def)

lemma dec_sub_between:
  "between lo (dec_val a - dec_val b) hi \<Longrightarrow> between lo (dec_val (dec_sub a b)) hi"
  unfolding dec_sub_def by (rule dec_add_between) simp

lemma dec_mul_between:
  assumes "between lo (dec_val a * dec_val b) hi"
  shows "between lo (dec_val (dec_mul a b)) hi"
proof -
  have "dec_val (Dec (neg a \<noteq> neg b) (coeff a * coeff b) (expo a + expo b)) = dec_val a * dec_val b"
    by (simp add: dec_val_def power_int_add)
  with assms show ?thesis unfolding dec_mul_def by (intro dec_fix_between) simp
qed

lemma dec_abs_nonneg [simp]: "0 \<le> dec_val (dec_abs a)"
  by (simp add: dec_abs_def)

text \<open>The quotient of a number by one at least as large lies in the unit interval.\<close>

lemma quotient_digits:
  assumes "a \<noteq> 0" "b \<noteq> 0"
    and "shift = int (ndigits b) - int (ndigits a) + int prec + 1"
  shows "0 < (a * 10 ^ nat shift) div (b * 10 ^ nat (- shift))"
proof -
  have "b * 10 ^ nat (- shift) < 10 ^ ndigits b * 10 ^ nat (- shift)"
    using ndigits_upper [of b] by simp
  also have "\<dots> = 10 ^ (ndigits b + nat (- shift))" by (simp add: power_add)
  also have "\<dots> \<le> 10 ^ (ndigits a - 1 + nat shift)"
    using assms(3) ndigits_pos [of a] by (intro power_increasing) (auto simp: prec_def)
  also have "\<dots> = 10 ^ (ndigits a - 1) * 10 ^ nat shift" by (simp add: power_add)
  also have "\<dots> \<le> a * 10 ^ nat shift"
    using ndigits_lower [OF assms(1)] by simp
  finally show ?thesis using assms(2) by (simp add: div_greater_zero_iff)
qed

lemma strip_to_val: "strip_to i c e = (c', e') \<Longrightarrow> of_nat c' * (10::rat) powi e' = of_nat c * 10 powi e"
proof (induction i c e arbitrary: c' e' rule: strip_to.induct)
  case (1 i c e)
  show ?case
  proof (cases "e < i \<and> c mod 10 = 0")
    case True
    then obtain q where q: "c = q * 10" by (metis dvd_div_mult_self mod_0_imp_dvd)
    have "strip_to i q (e + 1) = (c', e')" using True 1(2) q by (simp add: strip_to.simps [of i "q * 10" e])
    then have "of_nat c' * (10::rat) powi e' = of_nat q * 10 powi (e + 1)" using 1(1) True q by simp
    then show ?thesis by (simp add: q power_int_add)
  next
    case False
    with 1(2) show ?thesis by (simp add: strip_to.simps [of i c e])
  qed
qed

lemma representable_iff: "representable d \<longleftrightarrow> coeff d < 10 ^ 28"
  using ndigits_le_iff [of prec "coeff d"] by (simp add: representable_def prec_def)

lemma floor_quotient_unit:
  assumes "of_nat n * 10 powi e \<le> (of_nat m :: rat)" "0 < m"
  shows "of_nat (n div m) * 10 powi e \<le> (1::rat)"
proof -
  have "of_nat (n div m) * of_nat m \<le> (of_nat n :: rat)"
    by (metis div_times_less_eq_dividend of_nat_le_iff of_nat_mult)
  then have "of_nat (n div m) * of_nat m * 10 powi e \<le> (of_nat n * 10 powi e :: rat)"
    by (rule mult_right_mono) simp
  from order_trans [OF this assms(1)]
  have "of_nat (n div m) * 10 powi e * of_nat m \<le> (1 * of_nat m :: rat)"
    by (simp only: mult.commute mult.left_commute mult_1)
  then show ?thesis using assms(2) by (metis mult_le_cancel_right_pos of_nat_0_less_iff)
qed

lemma sticky_quotient_unit:
  assumes "of_nat n * 10 powi e \<le> (of_nat m :: rat)" "0 < n div m" "n mod m \<noteq> 0"
  shows "of_nat (Suc (n div m)) * 10 powi e \<le> (1::rat)"
proof -
  have m: "0 < m" using assms(2) by (cases m) auto
  have lt: "of_nat (n div m) * of_nat m < (of_nat n :: rat)"
    using assms(3)
    by (metis div_mult_mod_eq less_add_same_cancel1 of_nat_less_iff of_nat_mult neq0_conv)
  have "of_nat (n div m) * of_nat m * 10 powi e < (of_nat m :: rat)"
    by (rule less_le_trans [OF mult_strict_right_mono [OF lt] assms(1)]) simp
  then have below: "of_nat (n div m) * 10 powi e < (1::rat)"
    using m by (simp add: mult.commute mult.left_commute)
  have "e \<le> 0"
  proof (rule ccontr)
    assume "\<not> e \<le> 0"
    then have "(1::rat) < 10 powi e" by (simp add: one_less_power_int)
    moreover have "(1::rat) \<le> of_nat (n div m)" using assms(2) by (simp add: Suc_leI)
    ultimately have "(1::rat) * 1 < of_nat (n div m) * 10 powi e"
      by (intro mult_le_less_imp_less) simp_all
    with below show False by simp
  qed
  then obtain k where k: "e = - int k" by (metis nonpos_int_cases)
  have "of_nat (n div m) < (10 ^ k :: rat)"
    using below by (simp add: k power_int_minus field_simps)
  then have "n div m < 10 ^ k" by (metis of_nat_less_iff of_nat_numeral of_nat_power)
  then have "of_nat (Suc (n div m)) \<le> (10 ^ k :: rat)"
    by (metis Suc_leI of_nat_le_iff of_nat_numeral of_nat_power)
  then show ?thesis by (simp add: k power_int_minus field_simps del: of_nat_Suc)
qed

lemma aligned_quotient:
  assumes "\<not> neg a" "\<not> neg b" "dec_val a \<le> dec_val b"
  shows "of_nat (coeff a * 10 ^ nat s) * 10 powi (expo a - expo b - s)
    \<le> (of_nat (coeff b * 10 ^ nat (- s)) :: rat)"
proof -
  have sh: "(10::rat) ^ nat s = 10 powi s * 10 ^ nat (- s)"
    by (cases "0 \<le> s") (simp_all add: power_int_def field_simps)
  have "of_nat (coeff a * 10 ^ nat s) * 10 powi (expo a - expo b - s) * 10 powi expo b
      = dec_val a * 10 ^ nat (- s) * (10 powi s * 10 powi (- s))"
    using assms(1) by (simp add: sh dec_val_def power_int_diff power_int_minus power_int_add field_simps)
  also have "\<dots> = dec_val a * 10 ^ nat (- s)" by (simp add: power_int_minus)
  also have "\<dots> \<le> dec_val b * 10 ^ nat (- s)" using assms(3) by simp
  also have "\<dots> = of_nat (coeff b * 10 ^ nat (- s)) * 10 powi expo b"
    using assms(2) by (simp add: dec_val_def)
  finally show ?thesis by (metis mult_le_cancel_right_pos powi10_pos)
qed

lemma dec_fix_unit:
  "of_nat c * 10 powi e \<le> (1::rat) \<Longrightarrow>
    between (Dec False 0 0) (dec_val (dec_fix (Dec False c e))) (Dec False 1 0)"
  by (intro dec_fix_between)
    (simp add: between_def representable_iff dec_val_def)

lemma dec_mag_pos_iff [simp]: "0 < dec_mag d \<longleftrightarrow> coeff d \<noteq> 0"
  by (simp add: dec_mag_def zero_less_mult_iff)

lemma dec_val_pos_iff: "0 < dec_val b \<longleftrightarrow> \<not> neg b \<and> coeff b \<noteq> 0"
  by (auto simp: dec_val_mag not_less)

lemma dec_div_unit:
  assumes "0 \<le> dec_val a" "dec_val a \<le> dec_val b" "0 < dec_val b"
  shows "\<exists>q. dec_div a b = Inr q \<and> between (Dec False 0 0) (dec_val q) (Dec False 1 0)"
proof (cases "coeff a = 0")
  case True
  with assms(3) show ?thesis
    by (simp add: dec_div_def between_def representable_iff dec_val_Dec dec_val_pos_iff)
next
  case False
  have b: "\<not> neg b" "coeff b \<noteq> 0" using assms(3) by (simp_all add: dec_val_pos_iff)
  from False assms(1) have a: "\<not> neg a" by (auto simp: dec_val_mag dest: leD)
  define shift where "shift = int (ndigits (coeff b)) - int (ndigits (coeff a)) + int prec + 1"
  define e where "e = expo a - expo b - shift"
  define n where "n = coeff a * 10 ^ nat shift"
  define m where "m = coeff b * 10 ^ nat (- shift)"
  have pos: "0 < n div m"
    unfolding n_def m_def by (rule quotient_digits [OF False b(2) shift_def])
  have m: "0 < m" using b by (simp add: m_def)
  have scaled: "of_nat n * 10 powi e \<le> (of_nat m :: rat)"
    unfolding n_def m_def e_def by (rule aligned_quotient [OF a b(1) assms(2)])
  obtain c' e' where s: "strip_to (expo a - expo b) (n div m) e = (c', e')" by fastforce
  let ?c = "if (n div m) mod 5 = 0 then Suc (n div m) else n div m"
  have div: "dec_div a b =
      Inr (if n mod m = 0 then dec_fix (Dec False c' e') else dec_fix (Dec False ?c e))"
    using False a b s by (simp add: dec_div_def Let_def n_def m_def e_def shift_def)
  have exact: "of_nat c' * 10 powi e' \<le> (1::rat)"
    using strip_to_val [OF s] floor_quotient_unit [OF scaled m] by simp
  have rounded: "of_nat ?c * 10 powi e \<le> (1::rat)" if "n mod m \<noteq> 0"
    using floor_quotient_unit [OF scaled m] sticky_quotient_unit [OF scaled pos that] by simp
  show ?thesis
  proof (cases "n mod m = 0")
    case True
    with div have "dec_div a b = Inr (dec_fix (Dec False c' e'))" by simp
    with dec_fix_unit [OF exact] show ?thesis by blast
  next
    case False
    with div have "dec_div a b = Inr (dec_fix (Dec False ?c e))" by (simp only: if_False)
    with dec_fix_unit [OF rounded [OF False]] show ?thesis by blast
  qed
qed

section \<open>Quantising\<close>

lemma rescale_mag_le:
  assumes "dec_mag d \<le> of_nat m * 10 powi e"
  shows "dec_mag (dec_rescale d e) \<le> of_nat m * 10 powi e"
proof (cases "coeff d = 0 \<or> e \<le> expo d")
  case True
  with assms show ?thesis by (auto simp: dec_rescale_def dec_mag_def powi10_split [of e "expo d"])
next
  case False
  let ?k = "nat (e - expo d)"
  have "of_nat (coeff d) * 10 powi expo d \<le> of_nat (m * 10 ^ ?k) * (10 powi expo d :: rat)"
    using assms False by (simp add: dec_mag_def powi10_split [of "expo d" e] mult.assoc)
  then have "coeff d \<le> m * 10 ^ ?k" by (metis mult_le_cancel_right_pos of_nat_le_iff powi10_pos)
  then have "round_half_even (coeff d) ?k \<le> m" by (rule round_half_even_upper)
  with False show ?thesis by (simp add: dec_rescale_def dec_mag_def)
qed

lemma rescale_mag_ge:
  assumes "of_nat m * 10 powi e \<le> dec_mag d"
  shows "of_nat m * 10 powi e \<le> dec_mag (dec_rescale d e)"
proof (cases "coeff d = 0 \<or> e \<le> expo d")
  case True
  with assms show ?thesis by (auto simp: dec_rescale_def dec_mag_def powi10_split [of e "expo d"])
next
  case False
  let ?k = "nat (e - expo d)"
  have "of_nat (m * 10 ^ ?k) * (10 powi expo d :: rat) \<le> of_nat (coeff d) * 10 powi expo d"
    using assms False by (simp add: dec_mag_def powi10_split [of "expo d" e] mult.assoc)
  then have "m * 10 ^ ?k \<le> coeff d" by (metis mult_le_cancel_right_pos of_nat_le_iff powi10_pos)
  then have "m \<le> round_half_even (coeff d) ?k" by (rule round_half_even_lower)
  with False show ?thesis by (simp add: dec_rescale_def dec_mag_def)
qed

lemma neg_rescale [simp]: "neg (dec_rescale d e) = neg d"
  and expo_rescale [simp]: "expo (dec_rescale d e) = e"
  by (simp_all add: dec_rescale_def)

lemma dec_quantize_total:
  assumes "\<bar>dec_val d\<bar> \<le> of_nat m * 10 powi e" "m < 10 ^ prec"
  shows "dec_quantize d e = Inr (dec_rescale d e)"
proof -
  have "\<bar>dec_val d\<bar> = dec_mag d" by (simp add: dec_val_mag)
  with assms(1) have "dec_mag (dec_rescale d e) \<le> of_nat m * 10 powi e"
    by (intro rescale_mag_le) simp
  then have "(of_nat (coeff (dec_rescale d e)) :: rat) \<le> of_nat m"
    unfolding dec_mag_def expo_rescale by (metis mult_le_cancel_right_pos powi10_pos)
  with assms(2) have "coeff (dec_rescale d e) < 10 ^ prec" by simp
  then have "ndigits (coeff (dec_rescale d e)) \<le> prec"
    using ndigits_le_iff [of prec] by (simp add: prec_def)
  then show ?thesis by (simp add: dec_quantize_def)
qed

section \<open>Evaluation\<close>

text \<open>The equations that compute on concrete numbers.\<close>

lemma ndigits_eval:
  "ndigits 0 = 1" "ndigits 1 = 1" "ndigits (Suc 0) = 1"
  "ndigits (numeral k) = (if numeral k < (10::nat) then 1 else Suc (ndigits (numeral k div 10)))"
  by (simp_all add: ndigits.simps [of 0] ndigits.simps [of 1] ndigits.simps [of "Suc 0"]
      ndigits.simps [of "numeral k"])

text \<open>Faster: comparisons with the powers of ten, and stripping eight zeros at a time.\<close>

lemma ndigits_eqI:
  assumes "10 ^ j \<le> n" "n < 10 ^ Suc j"
  shows "ndigits n = Suc j"
proof -
  have "ndigits n \<le> Suc j" using assms(2) ndigits_le_iff [of "Suc j" n] by simp
  moreover have "j < ndigits n"
  proof (cases "j = 0")
    case False
    then show ?thesis using assms(1) ndigits_le_iff [of j n] by (metis leD neq0_conv not_le)
  qed simp
  ultimately show ?thesis by simp
qed

lemma ndigits_small: "n < 10 \<Longrightarrow> ndigits n = 1"
  by (simp add: ndigits.simps)

lemmas ndigits_fast = ndigits_eval(1-3) ndigits_small
  ndigits_eqI [of 1 n for n, simplified] ndigits_eqI [of 2 n for n, simplified] ndigits_eqI [of 3 n for n, simplified]
  ndigits_eqI [of 4 n for n, simplified] ndigits_eqI [of 5 n for n, simplified] ndigits_eqI [of 6 n for n, simplified]
  ndigits_eqI [of 7 n for n, simplified] ndigits_eqI [of 8 n for n, simplified] ndigits_eqI [of 9 n for n, simplified]
  ndigits_eqI [of 10 n for n, simplified] ndigits_eqI [of 11 n for n, simplified] ndigits_eqI [of 12 n for n, simplified]
  ndigits_eqI [of 13 n for n, simplified] ndigits_eqI [of 14 n for n, simplified] ndigits_eqI [of 15 n for n, simplified]
  ndigits_eqI [of 16 n for n, simplified] ndigits_eqI [of 17 n for n, simplified] ndigits_eqI [of 18 n for n, simplified]
  ndigits_eqI [of 19 n for n, simplified] ndigits_eqI [of 20 n for n, simplified] ndigits_eqI [of 21 n for n, simplified]
  ndigits_eqI [of 22 n for n, simplified] ndigits_eqI [of 23 n for n, simplified] ndigits_eqI [of 24 n for n, simplified]
  ndigits_eqI [of 25 n for n, simplified] ndigits_eqI [of 26 n for n, simplified] ndigits_eqI [of 27 n for n, simplified]
  ndigits_eqI [of 28 n for n, simplified] ndigits_eqI [of 29 n for n, simplified] ndigits_eqI [of 30 n for n, simplified]
  ndigits_eqI [of 31 n for n, simplified] ndigits_eqI [of 32 n for n, simplified] ndigits_eqI [of 33 n for n, simplified]
  ndigits_eqI [of 34 n for n, simplified] ndigits_eqI [of 35 n for n, simplified]

lemma strip_to_jump: "e + int j \<le> ideal \<Longrightarrow> c mod 10 ^ j = 0 \<Longrightarrow> strip_to ideal c e = strip_to ideal (c div 10 ^ j) (e + int j)"
proof (induction j arbitrary: c e)
  case (Suc j)
  then have "c mod 10 = 0" "c div 10 mod 10 ^ j = 0" by (auto simp: mod_mult2_eq)
  then have "strip_to ideal c e = strip_to ideal (c div 10) (e + 1)" using Suc.prems by (subst strip_to.simps) simp
  then show ?case using Suc.IH [of "e + 1" "c div 10"] Suc.prems \<open>c div 10 mod 10 ^ j = 0\<close> by (simp add: div_mult2_eq add.assoc)
qed simp

lemma strip_eval:
  "strip_to i c e = (if e + 8 \<le> i \<and> c mod 100000000 = 0 then strip_to i (c div 100000000) (e + 8)
     else if e < i \<and> c mod 10 = 0 then strip_to i (c div 10) (e + 1) else (c, e))"
  using strip_to_jump [of e 8 i c] strip_to.simps [of i c e] by simp
lemmas dec_eval = dec_sub_def dec_add_def dec_mul_def dec_abs_def dec_fix_def signed_at_def
  dec_copy_negate_def dec_less_def dec_eq_def dec_le_def ndigits_eval prec_def dec_of_int_def
  dec_quantize_def dec_rescale_def round_half_even_def Let_def

lemmas dec_fast_eval = dec_sub_def dec_add_def dec_mul_def dec_abs_def dec_fix_def signed_at_def
  dec_copy_negate_def dec_less_def dec_eq_def dec_le_def ndigits_fast prec_def dec_of_int_def
  dec_quantize_def dec_rescale_def round_half_even_def dec_div_def strip_eval Let_def

end
