(* ===== verification/Models.thy ===== *)
theory Models
  imports Decimal
begin

text \<open>
  The core types of \<open>models.py\<close>: the enumerated rules and reject reasons, records,
  tolerances, matches, rejects and the engine's result, with their fingerprints.

  Every fingerprint is \<open>sha256(...).hexdigest()[:16]\<close>.  The hash is a parameter \<open>H\<close>, a
  function from the hashed bytes to the hexadecimal digest: nothing below depends on
  which function it is, and the facts that need distinct inputs to have distinct
  digests state it as a hypothesis.
\<close>

section \<open>Hashed strings\<close>

text \<open>\<open>sep.join(parts)\<close>\<close>

fun join :: "string \<Rightarrow> string list \<Rightarrow> string" where
  "join sep [] = ''''"
| "join sep [x] = x"
| "join sep (x # y # ys) = x @ sep @ join sep (y # ys)"

text \<open>\<open>_SEP\<close>, U+001F.\<close>

definition SEP :: string where
  "SEP = [CHR 0x1F]"

definition digest :: "(string \<Rightarrow> string) \<Rightarrow> string list \<Rightarrow> string" where
  "digest H parts = take 16 (H (join SEP parts))"

section \<open>Rules and reject reasons\<close>

datatype RuleId = M0_REFERENCE | M1_EXACT | M2_TOLERANT | M3_AGGREGATE

text \<open>\<open>for rule in RuleId\<close>: the enum order is the application order.\<close>

definition rule_ids :: "RuleId list" where
  "rule_ids = [M0_REFERENCE, M1_EXACT, M2_TOLERANT, M3_AGGREGATE]"

fun rule_value :: "RuleId \<Rightarrow> int" where
  "rule_value M0_REFERENCE = 0"
| "rule_value M1_EXACT = 1"
| "rule_value M2_TOLERANT = 2"
| "rule_value M3_AGGREGATE = 3"

fun rule_name :: "RuleId \<Rightarrow> string" where
  "rule_name M0_REFERENCE = ''M0_REFERENCE''"
| "rule_name M1_EXACT = ''M1_EXACT''"
| "rule_name M2_TOLERANT = ''M2_TOLERANT''"
| "rule_name M3_AGGREGATE = ''M3_AGGREGATE''"

datatype RejectReason =
    NO_CANDIDATE
  | DATE_OUT_OF_WINDOW
  | AMOUNT_OUT_OF_TOLERANCE
  | LOST_TO_BETTER_CANDIDATE
  | AGGREGATE_NOT_FOUND
  | BLOCK_TOO_LARGE

fun reason_value :: "RejectReason \<Rightarrow> int" where
  "reason_value NO_CANDIDATE = 1"
| "reason_value DATE_OUT_OF_WINDOW = 2"
| "reason_value AMOUNT_OUT_OF_TOLERANCE = 3"
| "reason_value LOST_TO_BETTER_CANDIDATE = 4"
| "reason_value AGGREGATE_NOT_FOUND = 5"
| "reason_value BLOCK_TOO_LARGE = 6"

fun reason_name :: "RejectReason \<Rightarrow> string" where
  "reason_name NO_CANDIDATE = ''NO_CANDIDATE''"
| "reason_name DATE_OUT_OF_WINDOW = ''DATE_OUT_OF_WINDOW''"
| "reason_name AMOUNT_OUT_OF_TOLERANCE = ''AMOUNT_OUT_OF_TOLERANCE''"
| "reason_name LOST_TO_BETTER_CANDIDATE = ''LOST_TO_BETTER_CANDIDATE''"
| "reason_name AGGREGATE_NOT_FOUND = ''AGGREGATE_NOT_FOUND''"
| "reason_name BLOCK_TOO_LARGE = ''BLOCK_TOO_LARGE''"

text \<open>Both are \<open>IntEnum\<close>s: members compare by value, and sorting them sorts by value.\<close>

instantiation RuleId :: linorder
begin

definition less_eq_RuleId :: "RuleId \<Rightarrow> RuleId \<Rightarrow> bool" where
  "less_eq_RuleId a b \<longleftrightarrow> rule_value a \<le> rule_value b"

definition less_RuleId :: "RuleId \<Rightarrow> RuleId \<Rightarrow> bool" where
  "less_RuleId a b \<longleftrightarrow> rule_value a < rule_value b"

instance
proof
  fix x y :: RuleId
  show "x \<le> y \<Longrightarrow> y \<le> x \<Longrightarrow> x = y"
    by (cases x; cases y) (simp_all add: less_eq_RuleId_def)
qed (auto simp: less_eq_RuleId_def less_RuleId_def)

end

instantiation RejectReason :: linorder
begin

definition less_eq_RejectReason :: "RejectReason \<Rightarrow> RejectReason \<Rightarrow> bool" where
  "less_eq_RejectReason a b \<longleftrightarrow> reason_value a \<le> reason_value b"

definition less_RejectReason :: "RejectReason \<Rightarrow> RejectReason \<Rightarrow> bool" where
  "less_RejectReason a b \<longleftrightarrow> reason_value a < reason_value b"

instance
proof
  fix x y :: RejectReason
  show "x \<le> y \<Longrightarrow> y \<le> x \<Longrightarrow> x = y"
    by (cases x; cases y) (simp_all add: less_eq_RejectReason_def)
qed (auto simp: less_eq_RejectReason_def less_RejectReason_def)

end

section \<open>Records and tolerances\<close>

record Record =
  rec_id :: string
  account :: string
  amount :: decimal
  value_date :: date
  reference :: "string option"
  currency :: "string option"

text \<open>\<open>if record.reference\<close>: neither \<open>None\<close> nor the empty string.\<close>

definition truthy :: "string option \<Rightarrow> bool" where
  "truthy s \<longleftrightarrow> s \<noteq> None \<and> s \<noteq> Some ''''"

record Tolerance =
  amount_abs :: decimal
  amount_rel :: decimal
  date_days :: int
  max_aggregate_size :: int
  max_block_candidates :: int

text \<open>\<open>Tolerance()\<close>, the defaults.\<close>

definition default_tolerance :: Tolerance where
  "default_tolerance =
     \<lparr>amount_abs = Dec False 0 (-2), amount_rel = Dec False 0 0, date_days = 0,
      max_aggregate_size = 3, max_block_candidates = 32\<rparr>"

definition tolerance_ruleset_id :: "(string \<Rightarrow> string) \<Rightarrow> Tolerance \<Rightarrow> string" where
  "tolerance_ruleset_id H tol =
     take 16 (H (join ''|''
       (map rule_name rule_ids @
        [str_dec (amount_abs tol), str_dec (amount_rel tol), str_int (date_days tol),
         str_int (max_aggregate_size tol), str_int (max_block_candidates tol)])))"

section \<open>Decisions\<close>

record Match =
  left_id :: string
  right_ids :: "string list"
  rule :: RuleId
  score :: decimal
  amount_residual :: decimal
  date_gap_days :: int

definition match_business_key :: "Match \<Rightarrow> string" where
  "match_business_key m = left_id m"

definition match_fingerprint :: "(string \<Rightarrow> string) \<Rightarrow> Match \<Rightarrow> string" where
  "match_fingerprint H m =
     digest H [''MATCH'', left_id m, join '','' (right_ids m), rule_name (rule m),
               str_dec (amount_residual m)]"

record Reject =
  rej_left_id :: string
  rej_right_id :: "string option"
  reason :: RejectReason

definition reject_business_key :: "Reject \<Rightarrow> string" where
  "reject_business_key r = rej_left_id r"

definition reject_fingerprint :: "(string \<Rightarrow> string) \<Rightarrow> Reject \<Rightarrow> string" where
  "reject_fingerprint H r =
     digest H [''BREAK'', rej_left_id r,
               (case rej_right_id r of None \<Rightarrow> '''' | Some x \<Rightarrow> x), reason_name (reason r)]"

record MatchResult =
  matches :: "Match list"
  rejects :: "Reject list"
  counters :: counter
  ruleset_id :: string

definition result_hash :: "(string \<Rightarrow> string) \<Rightarrow> MatchResult \<Rightarrow> string" where
  "result_hash H res =
     digest H (ruleset_id res #
       sort (map (match_fingerprint H) (matches res) @ map (reject_fingerprint H) (rejects res)))"

section \<open>Framing\<close>

text \<open>
  Joining with a separator that occurs in no part loses nothing: the parts can be read
  back.  This is what the separator of \<open>_digest\<close> is for.
\<close>

lemma append_sep_inject:
  assumes "x @ s # xs = y @ s # ys" "s \<notin> set x" "s \<notin> set y"
  shows "x = y \<and> xs = ys"
  using assms
proof (induction x arbitrary: y)
  case Nil
  then show ?case by (cases y) auto
next
  case (Cons a x)
  then show ?case by (cases y) auto
qed

lemma join_sep_mem: "s \<in> set (join [s] (x # y # ys))"
  by simp

lemma join_singleton_sep:
  assumes "join [s] [x] = join [s] (y # ys)" "s \<notin> set x"
  shows "ys = [] \<and> x = y"
proof (cases ys)
  case (Cons z zs)
  then have "s \<in> set (join [s] (y # ys))" by (simp add: join_sep_mem)
  with assms show ?thesis by (metis join.simps(2))
qed (use assms in simp)

lemma join_inject:
  assumes "join [s] (x # xs) = join [s] (y # ys)"
    and "\<forall>z \<in> set (x # xs). s \<notin> set z" "\<forall>z \<in> set (y # ys). s \<notin> set z"
  shows "x # xs = y # ys"
  using assms
proof (induction xs arbitrary: x y ys)
  case Nil
  then show ?case using join_singleton_sep [of s x y ys] by simp
next
  case (Cons x' xs)
  show ?case
  proof (cases ys)
    case Nil
    with Cons.prems show ?thesis using join_singleton_sep [of s y x "x' # xs"] by simp
  next
    case (Cons y' ys')
    with Cons.prems have "x @ s # join [s] (x' # xs) = y @ s # join [s] (y' # ys')" by simp
    then have "x = y \<and> join [s] (x' # xs) = join [s] (y' # ys')"
      using Cons.prems(2,3) by (intro append_sep_inject) auto
    moreover from this have "x' # xs = y' # ys'"
      using Cons.prems(2,3) Cons by (intro Cons.IH) auto
    ultimately show ?thesis using Cons by simp
  qed
qed

end
