(* ===== verification/Rules.thy ===== *)
theory Rules
  imports Models
begin

text \<open>
  Candidate generation, rule by rule (\<open>rules.py\<close>).  A generator takes the available
  records of the two sides and proposes matches; it consumes nothing.  A decimal trap
  (\<open>quantize\<close> on a score of more than 28 digits) is an error value.

  The locale \<open>rule_generator\<close> is the contract the engine relies on: a generator proposes
  exactly the combinations its criterion accepts, tagged with its rule.  The four
  generators of the code, and the table that holds them, interpret it.
\<close>

section \<open>Scores\<close>

definition DEC_ZERO :: decimal where
  "DEC_ZERO = Dec False 0 0"

definition QUANTUM_EXP :: int where
  "QUANTUM_EXP = -6"

fun BASE_SCORE :: "RuleId \<Rightarrow> decimal" where
  "BASE_SCORE M0_REFERENCE = Dec False 10 (-1)"
| "BASE_SCORE M1_EXACT = Dec False 9 (-1)"
| "BASE_SCORE M2_TOLERANT = Dec False 8 (-1)"
| "BASE_SCORE M3_AGGREGATE = Dec False 6 (-1)"

definition AMOUNT_PENALTY :: decimal where
  "AMOUNT_PENALTY = Dec False 5 (-2)"

definition DATE_PENALTY :: decimal where
  "DATE_PENALTY = Dec False 5 (-2)"

definition SIZE_PENALTY :: decimal where
  "SIZE_PENALTY = Dec False 1 (-2)"

definition amount_tolerance :: "decimal \<Rightarrow> Tolerance \<Rightarrow> decimal" where
  "amount_tolerance a tol = dec_add (amount_abs tol) (dec_mul (dec_abs a) (amount_rel tol))"

definition date_gap :: "date \<Rightarrow> date \<Rightarrow> int" where
  "date_gap a b = \<bar>a - b\<bar>"

definition score_of :: "RuleId \<Rightarrow> decimal \<Rightarrow> decimal \<Rightarrow> int \<Rightarrow> Tolerance \<Rightarrow> int \<Rightarrow> decimal result" where
  "score_of rl residual limit gap tol sz =
     bindE (if dec_less DEC_ZERO limit
            then bindE (dec_div (dec_abs residual) limit)
                   (\<lambda>q. Inr (dec_add DEC_ZERO (dec_mul q AMOUNT_PENALTY)))
            else Inr DEC_ZERO) (\<lambda>p1.
     bindE (if date_days tol > 0
            then bindE (dec_div (dec_of_int gap) (dec_of_int (date_days tol)))
                   (\<lambda>q. Inr (dec_add p1 (dec_mul q DATE_PENALTY)))
            else Inr p1) (\<lambda>p2.
     let p3 = dec_add p2 (dec_mul (dec_of_int (sz - 1)) SIZE_PENALTY) in
     dec_quantize (dec_sub (BASE_SCORE rl) p3) QUANTUM_EXP))"

section \<open>Generators\<close>

type_synonym generator = "Record list \<Rightarrow> Record list \<Rightarrow> Tolerance \<Rightarrow> Match list result"

text \<open>The index of the right side by reference; a key that was never stored reads as \<open>[]\<close>.\<close>

definition by_reference :: "Record list \<Rightarrow> string \<Rightarrow> Record list" where
  "by_reference rights =
     fold (\<lambda>r d. if truthy (reference r)
                 then d(the (reference r) := d (the (reference r)) @ [r]) else d)
       rights (\<lambda>_. [])"

definition m0_reference :: generator where
  "m0_reference lefts rights tol =
     (let idx = by_reference rights in
      Inr (concat (map (\<lambda>l.
        if \<not> truthy (reference l) then []
        else map (\<lambda>r.
               \<lparr>left_id = rec_id l, right_ids = [rec_id r], rule = M0_REFERENCE,
                score = BASE_SCORE M0_REFERENCE,
                amount_residual = dec_sub (amount l) (amount r),
                date_gap_days = date_gap (value_date l) (value_date r)\<rparr>)
             (idx (the (reference l)))) lefts)))"

definition m1_exact :: generator where
  "m1_exact lefts rights tol =
     collectE (\<lambda>l. collectE (\<lambda>r.
       if \<not> dec_eq (amount l) (amount r) then Inr []
       else let gap = date_gap (value_date l) (value_date r) in
         if gap > date_days tol then Inr []
         else bindE (score_of M1_EXACT DEC_ZERO DEC_ZERO gap tol 1) (\<lambda>s.
           Inr [\<lparr>left_id = rec_id l, right_ids = [rec_id r], rule = M1_EXACT, score = s,
                 amount_residual = DEC_ZERO, date_gap_days = gap\<rparr>])) rights) lefts"

definition m2_tolerant :: generator where
  "m2_tolerant lefts rights tol =
     collectE (\<lambda>l. let limit = amount_tolerance (amount l) tol in
       collectE (\<lambda>r. let residual = dec_sub (amount l) (amount r) in
         if dec_less limit (dec_abs residual) then Inr []
         else let gap = date_gap (value_date l) (value_date r) in
           if gap > date_days tol then Inr []
           else bindE (score_of M2_TOLERANT residual limit gap tol 1) (\<lambda>s.
             Inr [\<lparr>left_id = rec_id l, right_ids = [rec_id r], rule = M2_TOLERANT, score = s,
                   amount_residual = residual, date_gap_days = gap\<rparr>])) rights) lefts"

text \<open>\<open>itertools.combinations(xs, k)\<close>, in its order.\<close>

fun combinations :: "nat \<Rightarrow> 'a list \<Rightarrow> 'a list list" where
  "combinations 0 xs = [[]]"
| "combinations (Suc k) [] = []"
| "combinations (Suc k) (x # xs) = map ((#) x) (combinations k xs) @ combinations (Suc k) xs"

text \<open>\<open>sum((r.amount for r in combo), _ZERO)\<close>, from left to right.\<close>

definition amount_sum :: "Record list \<Rightarrow> decimal" where
  "amount_sum rs = foldl (\<lambda>acc r. dec_add acc (amount r)) DEC_ZERO rs"

definition m3_aggregate :: generator where
  "m3_aggregate lefts rights tol =
     (if max_aggregate_size tol < 2 then Inr []
      else collectE (\<lambda>l.
        let in_window = filter (\<lambda>r. date_gap (value_date l) (value_date r) \<le> date_days tol) rights in
        if length in_window < 2 then Inr []
        else let limit = amount_tolerance (amount l) tol in
          collectE (\<lambda>size. collectE (\<lambda>combo.
            let residual = dec_sub (amount l) (amount_sum combo) in
            if dec_less limit (dec_abs residual) then Inr []
            else let gap = max_of (map (\<lambda>r. date_gap (value_date l) (value_date r)) combo) in
              bindE (score_of M3_AGGREGATE residual limit gap tol size) (\<lambda>s.
                Inr [\<lparr>left_id = rec_id l, right_ids = sort (map rec_id combo),
                      rule = M3_AGGREGATE, score = s,
                      amount_residual = residual, date_gap_days = gap\<rparr>]))
            (combinations (nat size) in_window)) [2..max_aggregate_size tol]) lefts)"

fun GENERATORS :: "RuleId \<Rightarrow> generator" where
  "GENERATORS M0_REFERENCE = m0_reference"
| "GENERATORS M1_EXACT = m1_exact"
| "GENERATORS M2_TOLERANT = m2_tolerant"
| "GENERATORS M3_AGGREGATE = m3_aggregate"

section \<open>The criterion of each rule\<close>

text \<open>
  What a rule accepts, stated apart from how its candidates are enumerated: a left record
  and the right records it is matched with, in the order of the right side.
\<close>

definition in_window :: "Tolerance \<Rightarrow> Record \<Rightarrow> Record \<Rightarrow> bool" where
  "in_window tol l r \<longleftrightarrow> \<bar>value_date l - value_date r\<bar> \<le> date_days tol"

definition within_tolerance :: "Tolerance \<Rightarrow> Record \<Rightarrow> decimal \<Rightarrow> bool" where
  "within_tolerance tol l residual \<longleftrightarrow>
     dec_le (dec_abs residual) (amount_tolerance (amount l) tol)"

fun accepts :: "RuleId \<Rightarrow> Tolerance \<Rightarrow> Record \<Rightarrow> Record list \<Rightarrow> bool" where
  "accepts M0_REFERENCE tol l rs \<longleftrightarrow>
     (\<exists>r. rs = [r] \<and> truthy (reference l) \<and> reference r = reference l)"
| "accepts M1_EXACT tol l rs \<longleftrightarrow>
     (\<exists>r. rs = [r] \<and> dec_val (amount l) = dec_val (amount r) \<and> in_window tol l r)"
| "accepts M2_TOLERANT tol l rs \<longleftrightarrow>
     (\<exists>r. rs = [r] \<and> within_tolerance tol l (dec_sub (amount l) (amount r)) \<and> in_window tol l r)"
| "accepts M3_AGGREGATE tol l rs \<longleftrightarrow>
     2 \<le> length rs \<and> int (length rs) \<le> max_aggregate_size tol
     \<and> (\<forall>r \<in> set rs. in_window tol l r)
     \<and> within_tolerance tol l (dec_sub (amount l) (amount_sum rs))"

text \<open>The residual a match of the rule reports.\<close>

fun residual_of :: "RuleId \<Rightarrow> Record \<Rightarrow> Record list \<Rightarrow> decimal" where
  "residual_of M1_EXACT l rs = DEC_ZERO"
| "residual_of M3_AGGREGATE l rs = dec_sub (amount l) (amount_sum rs)"
| "residual_of _ l rs = dec_sub (amount l) (amount (hd rs))"

definition gap_of :: "Record \<Rightarrow> Record list \<Rightarrow> int" where
  "gap_of l rs = max_of (map (\<lambda>r. date_gap (value_date l) (value_date r)) rs)"

text \<open>The score of the pairing under the rule.\<close>

fun score_for :: "RuleId \<Rightarrow> Tolerance \<Rightarrow> Record \<Rightarrow> Record list \<Rightarrow> decimal result" where
  "score_for M0_REFERENCE tol l rs = Inr (BASE_SCORE M0_REFERENCE)"
| "score_for M1_EXACT tol l rs = score_of M1_EXACT DEC_ZERO DEC_ZERO (gap_of l rs) tol 1"
| "score_for rl tol l rs =
     score_of rl (residual_of rl l rs) (amount_tolerance (amount l) tol) (gap_of l rs) tol
       (int (length rs))"

text \<open>The match a rule proposes for a pairing: all its fields are determined.\<close>

definition proposes :: "RuleId \<Rightarrow> Tolerance \<Rightarrow> Record \<Rightarrow> Record list \<Rightarrow> Match \<Rightarrow> bool" where
  "proposes rl tol l rs m \<longleftrightarrow>
     left_id m = rec_id l \<and> right_ids m = sort (map rec_id rs) \<and> rule m = rl
     \<and> score_for rl tol l rs = Inr (score m)
     \<and> amount_residual m = residual_of rl l rs \<and> date_gap_days m = gap_of l rs"

section \<open>The contract of a generator\<close>

locale rule_generator =
  fixes gen :: generator
    and rl :: RuleId
    and crit :: "Tolerance \<Rightarrow> Record \<Rightarrow> Record list \<Rightarrow> bool"
  assumes sound: "gen ls rs tol = Inr cs \<Longrightarrow> c \<in> set cs \<Longrightarrow>
      \<exists>l \<in> set ls. \<exists>combo. subseq combo rs \<and> crit tol l combo \<and> proposes rl tol l combo c"
    and complete: "gen ls rs tol = Inr cs \<Longrightarrow> l \<in> set ls \<Longrightarrow> subseq combo rs \<Longrightarrow>
      crit tol l combo \<Longrightarrow> \<exists>c \<in> set cs. proposes rl tol l combo c"
    and nonempty: "crit tol l combo \<Longrightarrow> combo \<noteq> []"
begin

lemma candidate_left: "gen ls rs tol = Inr cs \<Longrightarrow> c \<in> set cs \<Longrightarrow> left_id c \<in> rec_id ` set ls"
  by (drule (1) sound) (auto simp: proposes_def)

lemma candidate_rights:
  assumes "gen ls rs tol = Inr cs" "c \<in> set cs"
  shows "set (right_ids c) \<subseteq> rec_id ` set rs" "right_ids c \<noteq> []" "rule c = rl"
proof -
  obtain l combo where combo: "subseq combo rs" "crit tol l combo" "proposes rl tol l combo c"
    using sound [OF assms] by blast
  then show "set (right_ids c) \<subseteq> rec_id ` set rs"
    by (auto simp: proposes_def dest!: subseq_set)
  from combo show "rule c = rl" by (simp add: proposes_def)
  have "length (right_ids c) = length combo" using combo by (simp add: proposes_def)
  with nonempty [OF combo(2)] show "right_ids c \<noteq> []" by auto
qed

lemma candidate_rights_distinct:
  assumes "gen ls rs tol = Inr cs" "c \<in> set cs" "distinct (map rec_id rs)"
  shows "distinct (right_ids c)"
proof -
  obtain l combo where "subseq combo rs" "proposes rl tol l combo c"
    using sound [OF assms(1,2)] by blast
  then show ?thesis
    using assms(3) subseq_distinct [OF subseq_map, of combo rs rec_id] by (simp add: proposes_def)
qed

end

section \<open>The generators meet the contract\<close>

lemma by_reference_filter:
  "by_reference rs k = filter (\<lambda>r. reference r = Some k \<and> truthy (reference r)) rs"
proof -
  have "fold (\<lambda>r d. if truthy (reference r)
          then d(the (reference r) := d (the (reference r)) @ [r]) else d) rs d k
      = d k @ filter (\<lambda>r. reference r = Some k \<and> truthy (reference r)) rs" for d
  proof (induction rs arbitrary: d)
    case (Cons r rs)
    then show ?case by (cases "reference r") (auto simp: truthy_def)
  qed simp
  then show ?thesis by (simp add: by_reference_def)
qed

lemma set_combinations: "set (combinations k xs) = {ys. subseq ys xs \<and> length ys = k}"
proof (induction k xs rule: combinations.induct)
  case (3 k x xs)
  show ?case
  proof (intro set_eqI iffI)
    fix ys
    assume "ys \<in> set (combinations (Suc k) (x # xs))"
    with 3 show "ys \<in> {ys. subseq ys (x # xs) \<and> length ys = Suc k}" by auto
  next
    fix ys
    assume "ys \<in> {ys. subseq ys (x # xs) \<and> length ys = Suc k}"
    then obtain y zs where ys: "ys = y # zs" "subseq (y # zs) (x # xs)" "length zs = k"
      by (cases ys) auto
    with 3 show "ys \<in> set (combinations (Suc k) (x # xs))"
      by (cases "y = x") (auto simp: subseq_Cons2_neq)
  qed
qed auto

lemma gap_of_single [simp]: "gap_of l [r] = date_gap (value_date l) (value_date r)"
  by (simp add: gap_of_def)

lemma date_gap_window: "date_gap (value_date l) (value_date r) \<le> date_days tol \<longleftrightarrow> in_window tol l r"
  by (simp add: date_gap_def in_window_def)

lemma within_tolerance_iff:
  "within_tolerance tol l d \<longleftrightarrow> \<not> dec_less (amount_tolerance (amount l) tol) (dec_abs d)"
  by (auto simp: within_tolerance_def dec_cmp)

lemma guarded_concat_mem:
  "c \<in> set (concat (map (\<lambda>l. if \<not> P l then [] else map (f l) (g l)) ls)) \<longleftrightarrow>
    (\<exists>l \<in> set ls. P l \<and> (\<exists>r \<in> set (g l). c = f l r))"
  by auto

lemma m0_candidates:
  assumes "m0_reference ls rs tol = Inr cs"
  shows "c \<in> set cs \<longleftrightarrow>
    (\<exists>l \<in> set ls. \<exists>r \<in> set rs. truthy (reference l) \<and> reference r = reference l
       \<and> c = \<lparr>left_id = rec_id l, right_ids = [rec_id r], rule = M0_REFERENCE,
              score = BASE_SCORE M0_REFERENCE, amount_residual = dec_sub (amount l) (amount r),
              date_gap_days = date_gap (value_date l) (value_date r)\<rparr>)"
proof -
  have cs: "cs = concat (map (\<lambda>l. if \<not> truthy (reference l) then []
        else map (\<lambda>r. \<lparr>left_id = rec_id l, right_ids = [rec_id r], rule = M0_REFERENCE,
              score = BASE_SCORE M0_REFERENCE, amount_residual = dec_sub (amount l) (amount r),
              date_gap_days = date_gap (value_date l) (value_date r)\<rparr>)
            (by_reference rs (the (reference l)))) ls)"
    using assms unfolding m0_reference_def Let_def by (simp only: sum.inject)
  show ?thesis
    unfolding cs guarded_concat_mem
    by (intro bex_cong refl) (auto simp: by_reference_filter truthy_def)
qed

lemma collectE2_mem:
  assumes "collectE (\<lambda>l. collectE (f l) (g l)) ls = Inr cs"
  shows "c \<in> set cs \<longleftrightarrow> (\<exists>l \<in> set ls. \<exists>r \<in> set (g l). \<exists>zs. f l r = Inr zs \<and> c \<in> set zs)"
  unfolding collectE_mem [OF assms]
proof (rule bex_cong [OF refl])
  fix l
  assume "l \<in> set ls"
  then obtain zs where zs: "collectE (f l) (g l) = Inr zs" using collectE_each [OF assms] by blast
  then show "(\<exists>zs. collectE (f l) (g l) = Inr zs \<and> c \<in> set zs) \<longleftrightarrow>
      (\<exists>r \<in> set (g l). \<exists>zs. f l r = Inr zs \<and> c \<in> set zs)"
    using collectE_mem [OF zs] by simp
qed

lemma collectE2_each:
  assumes "collectE (\<lambda>l. collectE (f l) (g l)) ls = Inr cs" "l \<in> set ls" "r \<in> set (g l)"
  shows "\<exists>zs. f l r = Inr zs"
proof -
  obtain zs where "collectE (f l) (g l) = Inr zs" using collectE_each [OF assms(1,2)] by blast
  from collectE_each [OF this assms(3)] show ?thesis .
qed

lemma m1_candidates:
  assumes "m1_exact ls rs tol = Inr cs"
  shows "c \<in> set cs \<longleftrightarrow>
    (\<exists>l \<in> set ls. \<exists>r \<in> set rs. dec_eq (amount l) (amount r) \<and> in_window tol l r
       \<and> (\<exists>s. score_of M1_EXACT DEC_ZERO DEC_ZERO (date_gap (value_date l) (value_date r)) tol 1 = Inr s
          \<and> c = \<lparr>left_id = rec_id l, right_ids = [rec_id r], rule = M1_EXACT, score = s,
                 amount_residual = DEC_ZERO,
                 date_gap_days = date_gap (value_date l) (value_date r)\<rparr>))"
  unfolding collectE2_mem [OF assms [unfolded m1_exact_def]]
  by (intro bex_cong refl) (auto simp: Let_def date_gap_window [symmetric] split: if_splits)

lemma m1_scored:
  assumes "m1_exact ls rs tol = Inr cs" "l \<in> set ls" "r \<in> set rs"
    "dec_eq (amount l) (amount r)" "in_window tol l r"
  shows "\<exists>s. score_of M1_EXACT DEC_ZERO DEC_ZERO (date_gap (value_date l) (value_date r)) tol 1 = Inr s"
  using collectE2_each [OF assms(1) [unfolded m1_exact_def] assms(2,3)] assms(4,5)
  by (auto simp: Let_def date_gap_window [symmetric])

lemma m2_candidates:
  assumes "m2_tolerant ls rs tol = Inr cs"
  shows "c \<in> set cs \<longleftrightarrow>
    (\<exists>l \<in> set ls. \<exists>r \<in> set rs.
       within_tolerance tol l (dec_sub (amount l) (amount r)) \<and> in_window tol l r
       \<and> (\<exists>s. score_of M2_TOLERANT (dec_sub (amount l) (amount r)) (amount_tolerance (amount l) tol)
               (date_gap (value_date l) (value_date r)) tol 1 = Inr s
          \<and> c = \<lparr>left_id = rec_id l, right_ids = [rec_id r], rule = M2_TOLERANT, score = s,
                 amount_residual = dec_sub (amount l) (amount r),
                 date_gap_days = date_gap (value_date l) (value_date r)\<rparr>))"
  unfolding collectE2_mem [OF assms [unfolded m2_tolerant_def Let_def]]
  by (intro bex_cong refl)
    (auto simp: Let_def date_gap_window [symmetric] within_tolerance_iff split: if_splits)

lemma m2_scored:
  assumes "m2_tolerant ls rs tol = Inr cs" "l \<in> set ls" "r \<in> set rs"
    "within_tolerance tol l (dec_sub (amount l) (amount r))" "in_window tol l r"
  shows "\<exists>s. score_of M2_TOLERANT (dec_sub (amount l) (amount r)) (amount_tolerance (amount l) tol)
    (date_gap (value_date l) (value_date r)) tol 1 = Inr s"
  using collectE2_each [OF assms(1) [unfolded m2_tolerant_def Let_def] assms(2,3)] assms(4,5)
  by (auto simp: Let_def date_gap_window [symmetric] within_tolerance_iff)

text \<open>The combinations one left record is tried against.\<close>

definition m3_combos :: "Tolerance \<Rightarrow> Record \<Rightarrow> Record list \<Rightarrow> Record list \<Rightarrow> bool" where
  "m3_combos tol l rs combo \<longleftrightarrow> subseq combo rs \<and> 2 \<le> length combo
     \<and> int (length combo) \<le> max_aggregate_size tol \<and> (\<forall>r \<in> set combo. in_window tol l r)"

definition m3_match :: "Tolerance \<Rightarrow> Record \<Rightarrow> Record list \<Rightarrow> decimal \<Rightarrow> Match" where
  "m3_match tol l combo s =
     \<lparr>left_id = rec_id l, right_ids = sort (map rec_id combo), rule = M3_AGGREGATE, score = s,
      amount_residual = dec_sub (amount l) (amount_sum combo), date_gap_days = gap_of l combo\<rparr>"

abbreviation m3_score :: "Tolerance \<Rightarrow> Record \<Rightarrow> Record list \<Rightarrow> decimal result" where
  "m3_score tol l combo \<equiv>
     score_of M3_AGGREGATE (dec_sub (amount l) (amount_sum combo)) (amount_tolerance (amount l) tol)
       (gap_of l combo) tol (int (length combo))"

definition m3_try :: "Tolerance \<Rightarrow> Record \<Rightarrow> int \<Rightarrow> Record list \<Rightarrow> Match list result" where
  "m3_try tol l sz combo =
     (let residual = dec_sub (amount l) (amount_sum combo); limit = amount_tolerance (amount l) tol in
      if dec_less limit (dec_abs residual) then Inr []
      else let gap = max_of (map (\<lambda>r. date_gap (value_date l) (value_date r)) combo) in
        bindE (score_of M3_AGGREGATE residual limit gap tol sz) (\<lambda>s.
          Inr [\<lparr>left_id = rec_id l, right_ids = sort (map rec_id combo),
                rule = M3_AGGREGATE, score = s, amount_residual = residual, date_gap_days = gap\<rparr>]))"

abbreviation m3_window :: "Tolerance \<Rightarrow> Record \<Rightarrow> Record list \<Rightarrow> Record list" where
  "m3_window tol l rs \<equiv>
     filter (\<lambda>r. date_gap (value_date l) (value_date r) \<le> date_days tol) rs"

lemma m3_enumerates:
  "(\<exists>sz \<in> set [2..max_aggregate_size tol]. combo \<in> set (combinations (nat sz) (m3_window tol l rs))
      \<and> P sz) \<longleftrightarrow> m3_combos tol l rs combo \<and> P (int (length combo))"
  by (auto simp: set_combinations subseq_filter_iff m3_combos_def date_gap_window
      intro!: bexI [of _ "int (length combo)"])

lemma m3_left:
  "(if length (m3_window tol l rs) < 2 then Inr []
    else collectE (\<lambda>sz. collectE (m3_try tol l sz) (combinations (nat sz) (m3_window tol l rs)))
           [2..max_aggregate_size tol])
   = collectE (\<lambda>sz. collectE (m3_try tol l sz) (combinations (nat sz) (m3_window tol l rs)))
           [2..max_aggregate_size tol]"
proof (cases "length (m3_window tol l rs) < 2")
  case True
  have "combinations (nat sz) (m3_window tol l rs) = []" if "sz \<in> set [2..max_aggregate_size tol]" for sz
  proof -
    have "set (combinations (nat sz) (m3_window tol l rs)) = {}"
      unfolding set_combinations using that True by auto
    then show ?thesis by simp
  qed
  then have "collectE (\<lambda>sz. collectE (m3_try tol l sz) (combinations (nat sz) (m3_window tol l rs)))
      [2..max_aggregate_size tol] = collectE (\<lambda>sz. Inr []) [2..max_aggregate_size tol]"
    by (intro collectE_cong) auto
  with True show ?thesis by (simp add: collectE_pure)
qed simp

lemma m3_aggregate_try:
  "m3_aggregate ls rs tol =
     (if max_aggregate_size tol < 2 then Inr []
      else collectE (\<lambda>l. collectE (\<lambda>sz. collectE (m3_try tol l sz)
             (combinations (nat sz) (m3_window tol l rs))) [2..max_aggregate_size tol]) ls)"
proof -
  have "m3_aggregate ls rs tol =
     (if max_aggregate_size tol < 2 then Inr []
      else collectE (\<lambda>l. if length (m3_window tol l rs) < 2 then Inr []
        else collectE (\<lambda>sz. collectE (m3_try tol l sz)
             (combinations (nat sz) (m3_window tol l rs))) [2..max_aggregate_size tol]) ls)"
    unfolding m3_aggregate_def m3_try_def [abs_def] Let_def by (rule refl)
  then show ?thesis by (simp only: m3_left)
qed

lemma m3_try_mem:
  "(\<exists>zs. m3_try tol l (int (length combo)) combo = Inr zs \<and> c \<in> set zs) \<longleftrightarrow>
    within_tolerance tol l (dec_sub (amount l) (amount_sum combo))
    \<and> (\<exists>s. m3_score tol l combo = Inr s \<and> c = m3_match tol l combo s)"
  by (auto simp: m3_try_def m3_match_def within_tolerance_iff gap_of_def Let_def split: if_splits)

lemma m3_candidates:
  assumes "m3_aggregate ls rs tol = Inr cs"
  shows "c \<in> set cs \<longleftrightarrow>
    (\<exists>l \<in> set ls. \<exists>combo. m3_combos tol l rs combo
       \<and> within_tolerance tol l (dec_sub (amount l) (amount_sum combo))
       \<and> (\<exists>s. m3_score tol l combo = Inr s \<and> c = m3_match tol l combo s))"
proof (cases "max_aggregate_size tol < 2")
  case True
  with assms show ?thesis by (auto simp: m3_aggregate_try m3_combos_def)
next
  case False
  let ?sizes = "[2..max_aggregate_size tol]"
  let ?combs = "\<lambda>l sz. combinations (nat sz) (m3_window tol l rs)"
  have cs: "collectE (\<lambda>l. collectE (\<lambda>sz. collectE (m3_try tol l sz) (?combs l sz)) ?sizes) ls = Inr cs"
    using assms False by (simp add: m3_aggregate_try)
  show ?thesis
    unfolding collectE_mem [OF cs]
  proof (rule bex_cong [OF refl])
    fix l
    assume "l \<in> set ls"
    then obtain zs where zs: "collectE (\<lambda>sz. collectE (m3_try tol l sz) (?combs l sz)) ?sizes = Inr zs"
      using collectE_each [OF cs] by blast
    have "c \<in> set zs \<longleftrightarrow> (\<exists>combo. \<exists>sz \<in> set ?sizes. combo \<in> set (?combs l sz)
        \<and> (\<exists>ws. m3_try tol l sz combo = Inr ws \<and> c \<in> set ws))"
      unfolding collectE2_mem [OF zs] by blast
    then show "(\<exists>zs. collectE (\<lambda>sz. collectE (m3_try tol l sz) (?combs l sz)) ?sizes = Inr zs
        \<and> c \<in> set zs) \<longleftrightarrow> (\<exists>combo. m3_combos tol l rs combo
       \<and> within_tolerance tol l (dec_sub (amount l) (amount_sum combo))
       \<and> (\<exists>s. m3_score tol l combo = Inr s \<and> c = m3_match tol l combo s))"
      unfolding m3_enumerates by (simp add: zs m3_try_mem)
  qed
qed

lemma m3_scored:
  assumes "m3_aggregate ls rs tol = Inr cs" "l \<in> set ls" "m3_combos tol l rs combo"
    "within_tolerance tol l (dec_sub (amount l) (amount_sum combo))"
  shows "\<exists>s. m3_score tol l combo = Inr s"
proof -
  have big: "\<not> max_aggregate_size tol < 2" using assms(3) by (auto simp: m3_combos_def)
  let ?sizes = "[2..max_aggregate_size tol]"
  let ?combs = "\<lambda>sz. combinations (nat sz) (m3_window tol l rs)"
  have cs: "collectE (\<lambda>l. collectE (\<lambda>sz. collectE (m3_try tol l sz)
      (combinations (nat sz) (m3_window tol l rs))) ?sizes) ls = Inr cs"
    using assms(1) big by (simp add: m3_aggregate_try)
  obtain zs where zs: "collectE (\<lambda>sz. collectE (m3_try tol l sz) (?combs sz)) ?sizes = Inr zs"
    using collectE_each [OF cs assms(2)] by blast
  have "\<exists>sz \<in> set ?sizes. combo \<in> set (?combs sz) \<and> sz = int (length combo)"
    using assms(3) m3_enumerates [of tol combo l rs "\<lambda>sz. sz = int (length combo)"] by simp
  then obtain ws where "m3_try tol l (int (length combo)) combo = Inr ws"
    using collectE2_each [OF zs] by blast
  then show ?thesis
    using assms(4) by (auto simp: m3_try_def within_tolerance_iff gap_of_def Let_def)
qed

lemma single_sound:
  assumes "l \<in> set ls" "r \<in> set rs" "accepts rl tol l [r]" "proposes rl tol l [r] c"
  shows "\<exists>l \<in> set ls. \<exists>combo. subseq combo rs \<and> accepts rl tol l combo \<and> proposes rl tol l combo c"
  using assms by (intro bexI [of _ l] exI [of _ "[r]"]) (simp_all add: subseq_singleton_left)

interpretation m0: rule_generator m0_reference M0_REFERENCE "accepts M0_REFERENCE"
proof
  fix ls rs tol cs c
  assume a: "m0_reference ls rs tol = Inr cs" "c \<in> set cs"
  from a(2) show "\<exists>l \<in> set ls. \<exists>combo. subseq combo rs \<and> accepts M0_REFERENCE tol l combo
      \<and> proposes M0_REFERENCE tol l combo c"
    unfolding m0_candidates [OF a(1)]
    by (elim bexE conjE exE) (rule single_sound, auto simp: proposes_def dec_cmp)
next
  fix ls rs tol cs l combo
  assume a: "m0_reference ls rs tol = Inr cs" "l \<in> set ls" "subseq combo rs" "accepts M0_REFERENCE tol l combo"
  then obtain r where r: "combo = [r]" "r \<in> set rs" "truthy (reference l)" "reference r = reference l"
    by (auto simp: subseq_singleton_left dec_cmp)
  show "\<exists>c \<in> set cs. proposes M0_REFERENCE tol l combo c"
    unfolding Bex_def m0_candidates [OF a(1)] using a(2) r
    by (fastforce simp: proposes_def)
qed auto

interpretation m1: rule_generator m1_exact M1_EXACT "accepts M1_EXACT"
proof
  fix ls rs tol cs c
  assume a: "m1_exact ls rs tol = Inr cs" "c \<in> set cs"
  from a(2) show "\<exists>l \<in> set ls. \<exists>combo. subseq combo rs \<and> accepts M1_EXACT tol l combo
      \<and> proposes M1_EXACT tol l combo c"
    unfolding m1_candidates [OF a(1)]
    by (elim bexE conjE exE) (rule single_sound, auto simp: proposes_def dec_cmp)
next
  fix ls rs tol cs l combo
  assume a: "m1_exact ls rs tol = Inr cs" "l \<in> set ls" "subseq combo rs" "accepts M1_EXACT tol l combo"
  then obtain r where r: "combo = [r]" "r \<in> set rs" "dec_eq (amount l) (amount r)" "in_window tol l r"
    by (auto simp: subseq_singleton_left dec_cmp)
  show "\<exists>c \<in> set cs. proposes M1_EXACT tol l combo c"
    unfolding Bex_def m1_candidates [OF a(1)] using a(2) r m1_scored [OF a(1,2) r(2-4)]
    by (fastforce simp: proposes_def)
qed auto

interpretation m2: rule_generator m2_tolerant M2_TOLERANT "accepts M2_TOLERANT"
proof
  fix ls rs tol cs c
  assume a: "m2_tolerant ls rs tol = Inr cs" "c \<in> set cs"
  from a(2) show "\<exists>l \<in> set ls. \<exists>combo. subseq combo rs \<and> accepts M2_TOLERANT tol l combo
      \<and> proposes M2_TOLERANT tol l combo c"
    unfolding m2_candidates [OF a(1)]
    by (elim bexE conjE exE) (rule single_sound, auto simp: proposes_def dec_cmp)
next
  fix ls rs tol cs l combo
  assume a: "m2_tolerant ls rs tol = Inr cs" "l \<in> set ls" "subseq combo rs" "accepts M2_TOLERANT tol l combo"
  then obtain r where r: "combo = [r]" "r \<in> set rs" 
      "within_tolerance tol l (dec_sub (amount l) (amount r))" "in_window tol l r"
    by (auto simp: subseq_singleton_left dec_cmp)
  show "\<exists>c \<in> set cs. proposes M2_TOLERANT tol l combo c"
    unfolding Bex_def m2_candidates [OF a(1)] using a(2) r m2_scored [OF a(1,2) r(2-4)]
    by (fastforce simp: proposes_def)
qed auto

interpretation m3: rule_generator m3_aggregate M3_AGGREGATE "accepts M3_AGGREGATE"
proof
  fix ls rs tol cs c
  assume a: "m3_aggregate ls rs tol = Inr cs" "c \<in> set cs"
  then obtain l combo s where "l \<in> set ls" "m3_combos tol l rs combo"
      "within_tolerance tol l (dec_sub (amount l) (amount_sum combo))"
      "m3_score tol l combo = Inr s" "c = m3_match tol l combo s"
    unfolding m3_candidates [OF a(1)] by blast
  then show "\<exists>l \<in> set ls. \<exists>combo. subseq combo rs \<and> accepts M3_AGGREGATE tol l combo
      \<and> proposes M3_AGGREGATE tol l combo c"
    by (intro bexI [of _ l] exI [of _ combo]) (auto simp: proposes_def m3_combos_def m3_match_def)
next
  fix ls rs tol cs l combo
  assume a: "m3_aggregate ls rs tol = Inr cs" "l \<in> set ls" "subseq combo rs"
    "accepts M3_AGGREGATE tol l combo"
  then have c: "m3_combos tol l rs combo"
    "within_tolerance tol l (dec_sub (amount l) (amount_sum combo))"
    by (auto simp: m3_combos_def)
  then obtain s where s: "m3_score tol l combo = Inr s" using m3_scored [OF a(1,2)] by blast
  have "m3_match tol l combo s \<in> set cs"
    unfolding m3_candidates [OF a(1)] using a(2) c s by blast
  then show "\<exists>c \<in> set cs. proposes M3_AGGREGATE tol l combo c"
    by (rule bexI [rotated]) (simp add: proposes_def m3_match_def s)
qed auto

text \<open>The table the engine reads its generators from.\<close>

interpretation gens: rule_generator "GENERATORS r" r "accepts r" for r
  by (cases r) (simp_all add: m0.rule_generator_axioms m1.rule_generator_axioms
      m2.rule_generator_axioms m3.rule_generator_axioms)

end
