(* ===== verification/Scores.thy ===== *)
theory Scores
  imports Rules
begin

text \<open>
  The scores of \<open>rules._score\<close>: they exist (no decimal trap is reached), they are bounded,
  and every candidate of a stricter rule scores above every candidate of a more
  permissive one.
\<close>

section \<open>Scores are bounded\<close>

lemma tenth_powers [simp]:
  "(10::rat) powi (-1) = 1 / 10" "(10::rat) powi (-2) = 1 / 100" "(10::rat) powi (-6) = 1 / 1000000"
  by (simp_all add: power_int_def power_divide)

lemma rescale_val_le:
  assumes "dec_val d \<le> of_int m * 10 powi e"
  shows "dec_val (dec_rescale d e) \<le> of_int m * 10 powi e"
proof (cases "neg d")
  case False
  then have "0 \<le> (of_int m :: rat) * 10 powi e" using assms dec_val_nonneg [OF False] by linarith
  then have m: "0 \<le> m" by (metis mult_less_0_iff not_le of_int_less_0_iff powi10_pos)
  have "dec_mag d \<le> of_nat (nat m) * 10 powi e" using assms False m by (simp add: dec_val_mag)
  from rescale_mag_le [OF this] show ?thesis using False m by (simp add: dec_val_mag)
next
  case True
  show ?thesis
  proof (cases "0 \<le> m")
    case True
    have "dec_val (dec_rescale d e) \<le> 0" using \<open>neg d\<close> by (simp add: dec_val_mag)
    moreover have "0 \<le> (of_int m :: rat) * 10 powi e" using True by simp
    ultimately show ?thesis by linarith
  next
    case neg: False
    have "of_nat (nat (- m)) * 10 powi e \<le> dec_mag d"
      using assms True neg by (simp add: dec_val_mag)
    from rescale_mag_ge [OF this] show ?thesis using True neg by (simp add: dec_val_mag)
  qed
qed

lemma rescale_copy_negate: "dec_rescale (dec_copy_negate d) e = dec_copy_negate (dec_rescale d e)"
  by (simp add: dec_rescale_def dec_copy_negate_def)

lemma rescale_val_ge:
  assumes "of_int m * 10 powi e \<le> dec_val d"
  shows "of_int m * 10 powi e \<le> dec_val (dec_rescale d e)"
  using rescale_val_le [of "dec_copy_negate d" "- m" e] assms by (simp add: rescale_copy_negate)

text \<open>A whole number of hundredths.\<close>

definition cents :: "int \<Rightarrow> decimal" where
  "cents i = Dec (i < 0) (nat \<bar>i\<bar>) (-2)"

lemma cents_val: "dec_val (cents i) = of_int i / 100"
  unfolding cents_def dec_val_signed by simp

lemma between_cents:
  "between (cents a) v (cents b) \<longleftrightarrow>
    \<bar>a\<bar> < 10 ^ 28 \<and> \<bar>b\<bar> < 10 ^ 28 \<and> of_int a / 100 \<le> v \<and> v \<le> of_int b / 100"
  unfolding between_def cents_val representable_iff by (auto simp: cents_def nat_less_iff)

lemma penalty_share:
  assumes "dec_div x y = Inr q" "between (Dec False 0 0) (dec_val q) (Dec False 1 0)"
  shows "between (cents 0) (dec_val (dec_mul q (Dec False 5 (-2)))) (cents 5)"
proof (rule dec_mul_between)
  have five: "dec_val (Dec False 5 (-2)) = 5 / 100"
    by (simp add: dec_val_Dec)
  have "0 \<le> dec_val q" "dec_val q \<le> 1"
    using assms(2) by (simp_all add: between_def dec_val_Dec)
  then show "between (cents 0) (dec_val q * dec_val (Dec False 5 (-2))) (cents 5)"
    unfolding between_cents five by simp
qed

lemma add_between_cents:
  assumes "between (cents a) x (cents b)" "between (cents c) y (cents d)"
    and "dec_val p = x" "dec_val q = y" "\<bar>a + c\<bar> < 10 ^ 28" "\<bar>b + d\<bar> < 10 ^ 28"
  shows "between (cents (a + c)) (dec_val (dec_add p q)) (cents (b + d))"
  using assms by (intro dec_add_between) (auto simp: between_cents add_divide_distrib)

text \<open>
  The amount and date penalties are at most 0.05 each, and an aggregate of \<open>sz\<close> records
  costs 0.01 for each record after the first.  So the score of a candidate within its
  rule's bounds exists, and lies between its base minus 0.10 minus the size penalty, and
  its base minus the size penalty.
\<close>

fun base_cents :: "RuleId \<Rightarrow> int" where
  "base_cents M0_REFERENCE = 100"
| "base_cents M1_EXACT = 90"
| "base_cents M2_TOLERANT = 80"
| "base_cents M3_AGGREGATE = 60"

lemma base_score_cents: "dec_val (BASE_SCORE rl) = of_int (base_cents rl) / 100"
  by (cases rl) (simp_all add: dec_val_Dec)

lemma amount_share:
  assumes "dec_val (dec_abs residual) \<le> dec_val limit \<or> \<not> dec_less DEC_ZERO limit"
  shows "\<exists>p. (if dec_less DEC_ZERO limit
            then bindE (dec_div (dec_abs residual) limit)
                   (\<lambda>q. Inr (dec_add DEC_ZERO (dec_mul q AMOUNT_PENALTY)))
            else Inr DEC_ZERO) = Inr p
          \<and> between (cents 0) (dec_val p) (cents (if dec_less DEC_ZERO limit then 5 else 0))"
proof (cases "dec_less DEC_ZERO limit")
  case True
  then have "0 < dec_val limit" by (simp add: dec_cmp DEC_ZERO_def dec_val_Dec)
  moreover have "dec_val (dec_abs residual) \<le> dec_val limit" using assms True by simp
  ultimately obtain q where q: "dec_div (dec_abs residual) limit = Inr q"
      "between (Dec False 0 0) (dec_val q) (Dec False 1 0)"
    using dec_div_unit [of "dec_abs residual" limit] by auto
  have "between (cents (0 + 0)) (dec_val (dec_add DEC_ZERO (dec_mul q AMOUNT_PENALTY))) (cents (0 + 5))"
    by (rule add_between_cents [OF _ penalty_share [OF q]])
      (simp_all add: between_cents DEC_ZERO_def dec_val_Dec AMOUNT_PENALTY_def)
  then show ?thesis using True q by simp
next
  case False
  then show ?thesis by (simp add: between_cents DEC_ZERO_def dec_val_Dec)
qed

lemma date_share:
  assumes "0 \<le> gap" "gap \<le> days" "between (cents 0) (dec_val p1) (cents pa)" "0 \<le> pa" "pa \<le> 5"
  shows "\<exists>p. (if days > 0
            then bindE (dec_div (dec_of_int gap) (dec_of_int days))
                   (\<lambda>q. Inr (dec_add p1 (dec_mul q DATE_PENALTY)))
            else Inr p1) = Inr p \<and> between (cents 0) (dec_val p) (cents (pa + 5))"
proof (cases "days > 0")
  case True
  obtain q where q: "dec_div (dec_of_int gap) (dec_of_int days) = Inr q"
      "between (Dec False 0 0) (dec_val q) (Dec False 1 0)"
    using dec_div_unit [of "dec_of_int gap" "dec_of_int days"] assms True by auto
  have "between (cents (0 + 0)) (dec_val (dec_add p1 (dec_mul q DATE_PENALTY))) (cents (pa + 5))"
    using assms(4,5)
    by (intro add_between_cents [OF assms(3) penalty_share [OF q]]) (simp_all add: DATE_PENALTY_def)
  then show ?thesis using True q by simp
next
  case False
  then show ?thesis using assms(3-5) by (auto simp: between_cents)
qed

lemma size_share:
  assumes "between (cents 0) (dec_val p2) (cents pb)" "1 \<le> sz" "sz \<le> 10 ^ 23" "0 \<le> pb" "pb \<le> 10"
  shows "between (cents (sz - 1))
    (dec_val (dec_add p2 (dec_mul (dec_of_int (sz - 1)) SIZE_PENALTY))) (cents (sz - 1 + pb))"
proof -
  have one: "dec_val SIZE_PENALTY = 1 / 100"
    by (simp add: SIZE_PENALTY_def dec_val_Dec)
  have "between (cents (sz - 1)) (dec_val (dec_mul (dec_of_int (sz - 1)) SIZE_PENALTY)) (cents (sz - 1))"
    using assms(2,3) by (intro dec_mul_between) (simp add: between_cents one)
  from add_between_cents [OF assms(1) this] show ?thesis
    using assms(2-5) by (simp add: add.commute)
qed

lemma quantize_between_cents:
  assumes "between (cents a) (dec_val d) (cents b)" "\<bar>a\<bar> < 10 ^ 24" "\<bar>b\<bar> < 10 ^ 24"
  shows "\<exists>s. dec_quantize d QUANTUM_EXP = Inr s
    \<and> of_int a / 100 \<le> dec_val s \<and> dec_val s \<le> of_int b / 100"
proof -
  have q: "of_int i / 100 = (of_int (i * 10000) :: rat) * 10 powi QUANTUM_EXP" for i
    by (simp add: QUANTUM_EXP_def)
  have v: "of_int a / 100 \<le> dec_val d" "dec_val d \<le> of_int b / 100"
    using assms(1) by (simp_all add: between_cents)
  define M where "M = nat (max \<bar>a\<bar> \<bar>b\<bar>) * 10000"
  have "\<bar>dec_val d\<bar> \<le> of_int (max \<bar>a\<bar> \<bar>b\<bar>) / 100"
  proof -
    have "of_int b / 100 \<le> (of_int (max \<bar>a\<bar> \<bar>b\<bar>) / 100 :: rat)"
      "- (of_int (max \<bar>a\<bar> \<bar>b\<bar>) / 100 :: rat) \<le> of_int a / 100"
      by (simp_all add: divide_right_mono flip: of_int_minus minus_divide_left)
    with v show ?thesis by linarith
  qed
  also have "\<dots> = of_nat M * 10 powi QUANTUM_EXP"
    unfolding q by (simp add: M_def)
  finally have "\<bar>dec_val d\<bar> \<le> of_nat M * 10 powi QUANTUM_EXP" .
  moreover have "M < 10 ^ prec" using assms(2,3) by (simp add: M_def prec_def)
  ultimately have "dec_quantize d QUANTUM_EXP = Inr (dec_rescale d QUANTUM_EXP)"
    by (rule dec_quantize_total)
  moreover have "of_int a / 100 \<le> dec_val (dec_rescale d QUANTUM_EXP)"
    using v(1) unfolding q by (rule rescale_val_ge)
  moreover have "dec_val (dec_rescale d QUANTUM_EXP) \<le> of_int b / 100"
    using v(2) unfolding q by (rule rescale_val_le)
  ultimately show ?thesis by blast
qed

definition score_floor :: "RuleId \<Rightarrow> decimal \<Rightarrow> int \<Rightarrow> int" where
  "score_floor rl limit sz =
     base_cents rl - (sz - 1) - (if dec_less DEC_ZERO limit then 10 else 5)"

lemma score_of_bounds:
  assumes "dec_val (dec_abs residual) \<le> dec_val limit \<or> \<not> dec_less DEC_ZERO limit"
    and "0 \<le> gap" "gap \<le> date_days tol" "1 \<le> sz" "sz \<le> 10 ^ 23"
  shows "\<exists>s. score_of rl residual limit gap tol sz = Inr s
    \<and> of_int (score_floor rl limit sz) / 100 \<le> dec_val s
    \<and> dec_val s \<le> of_int (base_cents rl - (sz - 1)) / 100"
proof -
  define pa :: int where "pa = (if dec_less DEC_ZERO limit then 5 else 0)"
  have pa: "0 \<le> pa" "pa \<le> 5" by (simp_all add: pa_def)
  obtain p1 where p1: "(if dec_less DEC_ZERO limit
            then bindE (dec_div (dec_abs residual) limit)
                   (\<lambda>q. Inr (dec_add DEC_ZERO (dec_mul q AMOUNT_PENALTY)))
            else Inr DEC_ZERO) = Inr p1" "between (cents 0) (dec_val p1) (cents pa)"
    using amount_share [OF assms(1)] unfolding pa_def by blast
  obtain p2 where p2: "(if date_days tol > 0
            then bindE (dec_div (dec_of_int gap) (dec_of_int (date_days tol)))
                   (\<lambda>q. Inr (dec_add p1 (dec_mul q DATE_PENALTY)))
            else Inr p1) = Inr p2" "between (cents 0) (dec_val p2) (cents (pa + 5))"
    using date_share [OF assms(2,3) p1(2) pa] by blast
  define p3 where "p3 = dec_add p2 (dec_mul (dec_of_int (sz - 1)) SIZE_PENALTY)"
  have p3: "between (cents (sz - 1)) (dec_val p3) (cents (sz - 1 + (pa + 5)))"
    unfolding p3_def using pa by (intro size_share [OF p2(2) assms(4,5)]) simp_all
  have b: "0 \<le> base_cents rl" "base_cents rl \<le> 100" by (cases rl; simp)+
  have f: "score_floor rl limit sz = base_cents rl - (sz - 1 + (pa + 5))"
    by (simp add: score_floor_def pa_def)
  have "between (cents (score_floor rl limit sz)) (dec_val (dec_sub (BASE_SCORE rl) p3))
      (cents (base_cents rl - (sz - 1)))"
    unfolding f using p3 b pa assms(4,5)
    by (intro dec_sub_between)
      (auto simp: between_cents base_score_cents diff_divide_distrib add_divide_distrib)
  then have "\<exists>s. dec_quantize (dec_sub (BASE_SCORE rl) p3) QUANTUM_EXP = Inr s
    \<and> of_int (score_floor rl limit sz) / 100 \<le> dec_val s
    \<and> dec_val s \<le> of_int (base_cents rl - (sz - 1)) / 100"
    by (rule quantize_between_cents) (use b pa f assms(4,5) in auto)
  then show ?thesis
    unfolding score_of_def p1(1) bindE_simps p2(1) Let_def p3_def .
qed

section \<open>No trap, and strictness\<close>

lemma date_gap_nonneg [simp]: "0 \<le> date_gap a b"
  by (simp add: date_gap_def)

lemma not_less_zero_zero [simp]: "\<not> dec_less DEC_ZERO DEC_ZERO"
  by (simp add: dec_cmp)

lemma m1_score:
  assumes "in_window tol l r"
  shows "\<exists>s. score_of M1_EXACT DEC_ZERO DEC_ZERO (date_gap (value_date l) (value_date r)) tol 1 = Inr s
    \<and> 85 / 100 \<le> dec_val s \<and> dec_val s \<le> 90 / 100"
  using score_of_bounds [of DEC_ZERO DEC_ZERO "date_gap (value_date l) (value_date r)" tol 1 M1_EXACT] assms
  by (simp add: date_gap_window score_floor_def)

lemma within_tolerance_val:
  "within_tolerance tol l d \<longleftrightarrow> dec_val (dec_abs d) \<le> dec_val (amount_tolerance (amount l) tol)"
  by (simp add: within_tolerance_def dec_cmp)

lemma m2_score:
  assumes "in_window tol l r" "within_tolerance tol l d"
  shows "\<exists>s. score_of M2_TOLERANT d (amount_tolerance (amount l) tol)
      (date_gap (value_date l) (value_date r)) tol 1 = Inr s
    \<and> 70 / 100 \<le> dec_val s \<and> dec_val s \<le> 80 / 100"
  using score_of_bounds [of d "amount_tolerance (amount l) tol"
      "date_gap (value_date l) (value_date r)" tol 1 M2_TOLERANT] assms
  by (auto simp: date_gap_window score_floor_def within_tolerance_val split: if_splits)

lemma gap_of_window:
  assumes "rs \<noteq> []" "\<forall>r \<in> set rs. in_window tol l r"
  shows "0 \<le> gap_of l rs" "gap_of l rs \<le> date_days tol"
  using assms max_of_in [of "map (\<lambda>r. date_gap (value_date l) (value_date r)) rs"]
  by (auto simp: gap_of_def date_gap_window)

lemma m3_score_exists:
  assumes "m3_combos tol l rs combo" "length rs \<le> 10 ^ 23"
    "within_tolerance tol l (dec_sub (amount l) (amount_sum combo))"
  shows "\<exists>s. m3_score tol l combo = Inr s \<and> dec_val s \<le> 59 / 100"
proof -
  let ?n = "int (length combo)"
  have len: "length combo \<le> length rs"
    using assms(1) by (auto simp: m3_combos_def dest: list_emb_length)
  have combo: "combo \<noteq> []" "\<forall>r \<in> set combo. in_window tol l r" "2 \<le> ?n"
    using assms(1) by (auto simp: m3_combos_def)
  have "1 \<le> ?n" "?n \<le> 10 ^ 23" using combo(3) len assms(2) by auto
  then obtain s where s: "m3_score tol l combo = Inr s"
      "dec_val s \<le> of_int (base_cents M3_AGGREGATE - (?n - 1)) / 100"
    using score_of_bounds [OF _ gap_of_window [OF combo(1,2)], of
        "dec_sub (amount l) (amount_sum combo)" "amount_tolerance (amount l) tol" ?n M3_AGGREGATE]
      assms(3)
    by (auto simp: within_tolerance_val)
  have "(of_int (base_cents M3_AGGREGATE - (?n - 1)) :: rat) \<le> 59"
    using combo(3) by simp
  with s show ?thesis by (auto simp: field_simps)
qed

fun score_low :: "RuleId \<Rightarrow> int" where
  "score_low M0_REFERENCE = 100"
| "score_low M1_EXACT = 85"
| "score_low M2_TOLERANT = 70"
| "score_low M3_AGGREGATE = 0"

fun score_high :: "RuleId \<Rightarrow> int" where
  "score_high M0_REFERENCE = 100"
| "score_high M1_EXACT = 90"
| "score_high M2_TOLERANT = 80"
| "score_high M3_AGGREGATE = 59"

lemma candidate_score_high:
  assumes "GENERATORS r ls rs tol = Inr cs" "c \<in> set cs" "length rs \<le> 10 ^ 23"
  shows "dec_val (score c) \<le> of_int (score_high r) / 100"
proof (cases r)
  case M0_REFERENCE
  with assms show ?thesis by (auto simp: m0_candidates dec_val_Dec)
next
  case M1_EXACT
  with assms m1_score show ?thesis by (fastforce simp: m1_candidates)
next
  case M2_TOLERANT
  with assms m2_score show ?thesis by (fastforce simp: m2_candidates)
next
  case M3_AGGREGATE
  with assms(1,2) obtain l combo s where "m3_combos tol l rs combo"
      "within_tolerance tol l (dec_sub (amount l) (amount_sum combo))"
      "m3_score tol l combo = Inr s" "c = m3_match tol l combo s"
    by (auto simp: m3_candidates)
  with m3_score_exists [OF _ assms(3)] M3_AGGREGATE show ?thesis by (fastforce simp: m3_match_def)
qed

lemma candidate_score_low:
  assumes "GENERATORS r ls rs tol = Inr cs" "c \<in> set cs" "r \<noteq> M3_AGGREGATE"
  shows "of_int (score_low r) / 100 \<le> dec_val (score c)"
proof (cases r)
  case M0_REFERENCE
  with assms show ?thesis by (auto simp: m0_candidates dec_val_Dec)
next
  case M1_EXACT
  with assms m1_score show ?thesis by (fastforce simp: m1_candidates)
next
  case M2_TOLERANT
  with assms m2_score show ?thesis by (fastforce simp: m2_candidates)
qed (use assms(3) in simp)

text \<open>
  C10 A stricter rule always beats a more permissive one, whatever the penalties: with two
  rules \<open>r\<^sub>1\<close> before \<open>r\<^sub>2\<close> in the order of \<open>RuleId\<close>, every candidate of \<open>r\<^sub>1\<close> scores strictly
  above every candidate of \<open>r\<^sub>2\<close>, for any records on either side (at most \<open>10\<^sup>2\<^sup>3\<close> on the
  right).
\<close>

theorem stricter_rule_scores_higher:
  assumes "GENERATORS r1 ls rs tol = Inr cs1" "c1 \<in> set cs1"
    and "GENERATORS r2 ls' rs' tol' = Inr cs2" "c2 \<in> set cs2"
    and "r1 < r2" "length rs' \<le> 10 ^ 23"
  shows "dec_val (score c2) < dec_val (score c1)"
proof -
  have "r1 \<noteq> M3_AGGREGATE" using assms(5) by (cases r2) (auto simp: less_RuleId_def)
  with assms have low: "of_int (score_low r1) / 100 \<le> dec_val (score c1)"
    by (intro candidate_score_low)
  have high: "dec_val (score c2) \<le> of_int (score_high r2) / 100"
    using assms by (intro candidate_score_high)
  have "score_high r2 < score_low r1"
    using assms(5) by (cases r1; cases r2) (simp_all add: less_RuleId_def)
  then have "(of_int (score_high r2) / 100 :: rat) < of_int (score_low r1) / 100" by simp
  with low high show ?thesis by linarith
qed

text \<open>
  On at most \<open>10\<^sup>2\<^sup>3\<close> right records every generator returns its candidates, whatever the
  amounts, dates and tolerances: no division by zero, no score too long to quantise.
\<close>

lemma generators_total:
  assumes "length rs \<le> 10 ^ 23"
  shows "\<exists>cs. GENERATORS r ls rs tol = Inr cs"
proof (cases r)
  case M0_REFERENCE
  then show ?thesis by (simp add: m0_reference_def Let_def)
next
  case M1_EXACT
  have "\<exists>s. score_of M1_EXACT DEC_ZERO DEC_ZERO (date_gap (value_date l) (value_date r)) tol 1 = Inr s"
    if "in_window tol l r" for l r
    using m1_score [OF that] by blast
  then show ?thesis
    unfolding M1_EXACT GENERATORS.simps m1_exact_def
    by (intro collectE_total) (auto simp: Let_def date_gap_window not_less)
next
  case M2_TOLERANT
  have "\<exists>s. score_of M2_TOLERANT d (amount_tolerance (amount l) tol)
      (date_gap (value_date l) (value_date r)) tol 1 = Inr s"
    if "in_window tol l r" "within_tolerance tol l d" for l r d
    using m2_score [OF that] by blast
  then show ?thesis
    unfolding M2_TOLERANT GENERATORS.simps m2_tolerant_def Let_def
    by (intro collectE_total) (auto simp: date_gap_window not_less within_tolerance_iff)
next
  case M3_AGGREGATE
  have "\<exists>zs. m3_try tol l sz combo = Inr zs"
    if "sz \<in> set [2..max_aggregate_size tol]" "combo \<in> set (combinations (nat sz) (m3_window tol l rs))"
    for l sz combo
  proof -
    have combo: "m3_combos tol l rs combo" and sz: "sz = int (length combo)"
      using that by (auto simp: set_combinations subseq_filter_iff m3_combos_def date_gap_window)
    show ?thesis
      using m3_score_exists [OF combo assms]
      by (auto simp: m3_try_def sz within_tolerance_iff gap_of_def Let_def)
  qed
  then show ?thesis
    unfolding M3_AGGREGATE GENERATORS.simps m3_aggregate_try
    by (auto intro!: collectE_total simp del: set_upto)
qed

end
