(* ===== verification/Engine.thy ===== *)
theory Engine
  imports Scores
begin

text \<open>
  The engine (\<open>engine.py\<close>): blocking, ordered rule application with greedy resolution,
  and the audit of what stayed unmatched.  The mutable accumulators of the code (the
  lists of matches and rejects, the counters, the sets of taken identifiers) are explicit
  state.
\<close>

section \<open>State\<close>

type_synonym BlockKey = "string list"
type_synonym blocks = "(BlockKey \<times> (Record list \<times> Record list)) list"

text \<open>What every block appends to.\<close>

record Acc =
  acc_matches :: "Match list"
  acc_rejects :: "Reject list"
  acc_counters :: counter

text \<open>What one block consumes.\<close>

record Taken =
  taken_left :: "string set"
  taken_right :: "string set"

section \<open>Operations\<close>

definition blocking_key :: "Record \<Rightarrow> BlockKey" where
  "blocking_key r =
     (case currency r of None \<Rightarrow> [account r] | Some c \<Rightarrow> [account r, c])"

definition candidate_order :: "Match \<Rightarrow> rat \<times> string \<times> string list" where
  "candidate_order m = (- dec_val (score m), left_id m, right_ids m)"

definition pair_reject_reason ::
    "Record \<Rightarrow> Record \<Rightarrow> Tolerance \<Rightarrow> bool \<Rightarrow> RejectReason option" where
  "pair_reject_reason l r tol right_taken =
     (if right_taken then Some LOST_TO_BETTER_CANDIDATE
      else if \<bar>value_date l - value_date r\<bar> > date_days tol then Some DATE_OUT_OF_WINDOW
      else if dec_less (amount_tolerance (amount l) tol) (dec_abs (dec_sub (amount l) (amount r)))
      then Some AMOUNT_OUT_OF_TOLERANCE
      else None)"

text \<open>The body of the selection loop: take a candidate unless one of its records is taken.\<close>

definition take_candidate :: "RuleId \<Rightarrow> Match \<Rightarrow> Taken \<times> Acc \<Rightarrow> Taken \<times> Acc" where
  "take_candidate rl c = (\<lambda>(t, acc).
     if left_id c \<in> taken_left t then (t, acc)
     else if \<exists>x \<in> set (right_ids c). x \<in> taken_right t then (t, acc)
     else (t\<lparr>taken_left := insert (left_id c) (taken_left t),
             taken_right := taken_right t \<union> set (right_ids c)\<rparr>,
           acc\<lparr>acc_matches := acc_matches acc @ [c],
               acc_counters := count_add (''matched_'' @ rule_name rl) 1 (acc_counters acc)\<rparr>))"

definition select_candidates :: "RuleId \<Rightarrow> Match list \<Rightarrow> Taken \<times> Acc \<Rightarrow> Taken \<times> Acc" where
  "select_candidates rl cs st = fold (take_candidate rl) (sort_key candidate_order cs) st"

text \<open>\<open>for rule in RuleId\<close>: \<open>continue\<close> past an oversized M3, \<open>break\<close> when a side is used up.\<close>

fun apply_rules ::
    "Record list \<Rightarrow> Record list \<Rightarrow> Tolerance \<Rightarrow> bool \<Rightarrow> RuleId list \<Rightarrow> Taken \<times> Acc
      \<Rightarrow> (Taken \<times> Acc) result" where
  "apply_rules lefts rights tol oversized [] st = Inr st"
| "apply_rules lefts rights tol oversized (rl # rls) (t, acc) =
     (if rl = M3_AGGREGATE \<and> oversized then apply_rules lefts rights tol oversized rls (t, acc)
      else
        let available_left = filter (\<lambda>r. rec_id r \<notin> taken_left t) lefts;
            available_right = filter (\<lambda>r. rec_id r \<notin> taken_right t) rights in
        if available_left = [] \<or> available_right = [] then Inr (t, acc)
        else bindE (GENERATORS rl available_left available_right tol) (\<lambda>cs.
          apply_rules lefts rights tol oversized rls
            (select_candidates rl cs
              (t, acc\<lparr>acc_counters :=
                     count_add ''candidates_evaluated'' (int (length cs)) (acc_counters acc)\<rparr>))))"

text \<open>The audit of one left record, and of the block.\<close>

definition audit_left ::
    "Record list \<Rightarrow> Tolerance \<Rightarrow> Taken \<Rightarrow> bool \<Rightarrow> Record \<Rightarrow> Acc \<Rightarrow> Acc" where
  "audit_left rights tol t oversized l acc =
     (if rec_id l \<in> taken_left t then acc
      else
        let c1 = count_add ''unmatched_left'' 1 (acc_counters acc) in
        if rights = [] then
          acc\<lparr>acc_counters := c1,
              acc_rejects := acc_rejects acc @
                [\<lparr>rej_left_id = rec_id l, rej_right_id = None, reason = NO_CANDIDATE\<rparr>]\<rparr>
        else if oversized then
          acc\<lparr>acc_counters := count_add ''manual_review'' 1 c1,
              acc_rejects := acc_rejects acc @
                [\<lparr>rej_left_id = rec_id l, rej_right_id = None, reason = BLOCK_TOO_LARGE\<rparr>]\<rparr>
        else
          let pairs = concat (map (\<lambda>r.
                case pair_reject_reason l r tol (rec_id r \<in> taken_right t) of
                  None \<Rightarrow> []
                | Some x \<Rightarrow> [\<lparr>rej_left_id = rec_id l, rej_right_id = Some (rec_id r), reason = x\<rparr>])
                rights);
              in_window_free = filter (\<lambda>r. rec_id r \<notin> taken_right t
                \<and> \<bar>value_date l - value_date r\<bar> \<le> date_days tol) rights;
              aggregate = (if max_aggregate_size tol \<ge> 2 \<and> length in_window_free \<ge> 2
                then [\<lparr>rej_left_id = rec_id l, rej_right_id = None, reason = AGGREGATE_NOT_FOUND\<rparr>]
                else []) in
          acc\<lparr>acc_counters := c1, acc_rejects := acc_rejects acc @ pairs @ aggregate\<rparr>)"

definition audit_right :: "Taken \<Rightarrow> Record \<Rightarrow> Acc \<Rightarrow> Acc" where
  "audit_right t r acc =
     (if rec_id r \<notin> taken_right t
      then acc\<lparr>acc_counters := count_add ''unmatched_right'' 1 (acc_counters acc)\<rparr> else acc)"

definition audit_unmatched ::
    "Record list \<Rightarrow> Record list \<Rightarrow> Tolerance \<Rightarrow> Taken \<Rightarrow> bool \<Rightarrow> Acc \<Rightarrow> Acc" where
  "audit_unmatched lefts rights tol t oversized acc =
     fold (audit_right t) rights (fold (audit_left rights tol t oversized) lefts acc)"

definition reconcile_block ::
    "Record list \<Rightarrow> Record list \<Rightarrow> Tolerance \<Rightarrow> Acc \<Rightarrow> Acc result" where
  "reconcile_block ls rs tol acc =
     (let lefts = sort_key rec_id ls; rights = sort_key rec_id rs;
          oversized = int (length rights) > max_block_candidates tol in
      bindE (apply_rules lefts rights tol oversized rule_ids (\<lparr>taken_left = {}, taken_right = {}\<rparr>, acc))
        (\<lambda>(t, acc'). Inr (audit_unmatched lefts rights tol t oversized acc')))"

text \<open>\<open>blocks[blocking_key(record)][0].append(record)\<close>, and \<open>[1]\<close> for the right side.\<close>

definition block_get :: "blocks \<Rightarrow> BlockKey \<Rightarrow> Record list \<times> Record list" where
  "block_get bs k = (case map_of bs k of None \<Rightarrow> ([], []) | Some b \<Rightarrow> b)"

definition add_left :: "Record \<Rightarrow> blocks \<Rightarrow> blocks" where
  "add_left r bs = (let k = blocking_key r; (l, rt) = block_get bs k in dict_put k (l @ [r], rt) bs)"

definition add_right :: "Record \<Rightarrow> blocks \<Rightarrow> blocks" where
  "add_right r bs = (let k = blocking_key r; (l, rt) = block_get bs k in dict_put k (l, rt @ [r]) bs)"

definition make_blocks :: "Record list \<Rightarrow> Record list \<Rightarrow> blocks" where
  "make_blocks left right = fold add_right right (fold add_left left [])"

definition reconcile ::
    "(string \<Rightarrow> string) \<Rightarrow> Record list \<Rightarrow> Record list \<Rightarrow> Tolerance option \<Rightarrow> MatchResult result" where
  "reconcile H left right tol_opt =
     (let tol = (case tol_opt of None \<Rightarrow> default_tolerance | Some t \<Rightarrow> t);
          blocks = make_blocks left right;
          counters0 = Map.empty(''records_left'' \<mapsto> int (length left),
                                ''records_right'' \<mapsto> int (length right),
                                ''blocks'' \<mapsto> int (length blocks)) in
      bindE (foldE (\<lambda>acc k. let (l, r) = block_get blocks k in reconcile_block l r tol acc)
               \<lparr>acc_matches = [], acc_rejects = [], acc_counters = counters0\<rparr>
               (sort (map fst blocks)))
        (\<lambda>acc. Inr \<lparr>matches = acc_matches acc, rejects = acc_rejects acc,
                    counters = acc_counters acc, ruleset_id = tolerance_ruleset_id H tol\<rparr>))"

end
