(* ===== verification/Engine_Blocks.thy ===== *)
theory Engine_Blocks
  imports Engine
begin

text \<open>
  Blocks are independent: a block only appends to what the earlier ones left in the
  accumulators, so the engine's result is the merge of one run per block, each from
  empty accumulators (\<open>reconcile_blocks\<close>).  The properties of the engine are proved for
  one block and lifted with \<open>reconcile_runs\<close>.
\<close>

section \<open>Blocks\<close>

abbreviation in_block :: "BlockKey \<Rightarrow> Record list \<Rightarrow> Record list" where
  "in_block k rs \<equiv> filter (\<lambda>r. blocking_key r = k) rs"

lemma block_get_put [simp]: "block_get (dict_put k b bs) k' = (if k' = k then b else block_get bs k')"
  by (simp add: block_get_def)

lemma block_get_fold_left:
  "block_get (fold add_left ls bs) k = (fst (block_get bs k) @ in_block k ls, snd (block_get bs k))"
  by (induction ls arbitrary: bs) (simp_all add: add_left_def Let_def case_prod_beta)

lemma block_get_fold_right:
  "block_get (fold add_right rs bs) k = (fst (block_get bs k), snd (block_get bs k) @ in_block k rs)"
  by (induction rs arbitrary: bs) (simp_all add: add_right_def Let_def case_prod_beta)

lemma block_get_make: "block_get (make_blocks left right) k = (in_block k left, in_block k right)"
  by (simp add: make_blocks_def block_get_fold_left block_get_fold_right) (simp add: block_get_def)

lemma keys_fold_left: "fst ` set (fold add_left ls bs) = fst ` set bs \<union> blocking_key ` set ls"
  by (induction ls arbitrary: bs) (simp_all add: add_left_def Let_def case_prod_beta)

lemma keys_fold_right: "fst ` set (fold add_right rs bs) = fst ` set bs \<union> blocking_key ` set rs"
  by (induction rs arbitrary: bs) (simp_all add: add_right_def Let_def case_prod_beta)

lemma keys_make: "fst ` set (make_blocks left right) = blocking_key ` (set left \<union> set right)"
  by (auto simp: make_blocks_def keys_fold_left keys_fold_right)

lemma distinct_fold_left: "distinct (map fst bs) \<Longrightarrow> distinct (map fst (fold add_left ls bs))"
  by (induction ls arbitrary: bs) (simp_all add: add_left_def Let_def case_prod_beta)

lemma distinct_fold_right: "distinct (map fst bs) \<Longrightarrow> distinct (map fst (fold add_right ls bs))"
  by (induction ls arbitrary: bs) (simp_all add: add_right_def Let_def case_prod_beta)

lemma distinct_make: "distinct (map fst (make_blocks left right))"
  by (simp add: make_blocks_def distinct_fold_left distinct_fold_right)

definition block_keys :: "Record list \<Rightarrow> Record list \<Rightarrow> BlockKey list" where
  "block_keys left right = sort (map fst (make_blocks left right))"

lemma block_keys:
  shows set_block_keys: "set (block_keys left right) = blocking_key ` (set left \<union> set right)"
    and distinct_block_keys: "distinct (block_keys left right)"
    and length_block_keys: "length (block_keys left right) = length (make_blocks left right)"
  by (simp_all add: block_keys_def keys_make distinct_make)

lemma block_keys_mset:
  assumes "set left = set left'" "set right = set right'"
  shows "block_keys left right = block_keys left' right'"
proof (rule sorted_distinct_set_unique)
  show "set (block_keys left right) = set (block_keys left' right')"
    using assms by (simp add: set_block_keys)
qed (simp_all add: distinct_block_keys, simp_all add: block_keys_def)

section \<open>Each block only adds to the accumulators\<close>

definition merge_counter :: "counter \<Rightarrow> counter \<Rightarrow> counter" where
  "merge_counter c d = (\<lambda>k. if c k = None \<and> d k = None then None else Some (count_get c k + count_get d k))"

definition merge_acc :: "Acc \<Rightarrow> Acc \<Rightarrow> Acc" where
  "merge_acc a d = \<lparr>acc_matches = acc_matches a @ acc_matches d,
                   acc_rejects = acc_rejects a @ acc_rejects d,
                   acc_counters = merge_counter (acc_counters a) (acc_counters d)\<rparr>"

definition empty_acc :: Acc where
  "empty_acc = \<lparr>acc_matches = [], acc_rejects = [], acc_counters = Map.empty\<rparr>"

lemma count_get_merge [dicts, simp]: "count_get (merge_counter c d) k = count_get c k + count_get d k"
  by (auto simp: merge_counter_def count_get_def split: option.splits)

lemma merge_count_add: "count_add k n (merge_counter c d) = merge_counter c (count_add k n d)"
  by (rule ext) (auto simp: count_add_def merge_counter_def count_get_def split: option.splits)

lemma merge_counter_empty [simp]: "merge_counter c Map.empty = c"
  by (rule ext) (auto simp: merge_counter_def count_get_def split: option.splits)

lemma merge_acc_sel [simp]:
  "acc_matches (merge_acc a d) = acc_matches a @ acc_matches d"
  "acc_rejects (merge_acc a d) = acc_rejects a @ acc_rejects d"
  "acc_counters (merge_acc a d) = merge_counter (acc_counters a) (acc_counters d)"
  by (simp_all add: merge_acc_def)

lemma empty_acc_sel [simp]:
  "acc_matches empty_acc = []" "acc_rejects empty_acc = []" "acc_counters empty_acc = Map.empty"
  by (simp_all add: empty_acc_def)

lemma merge_acc_empty [simp]: "merge_acc a empty_acc = a"
  by (simp add: merge_acc_def)

lemma merge_acc_eqI:
  assumes "acc_matches x = acc_matches a @ acc_matches d" "acc_rejects x = acc_rejects a @ acc_rejects d"
    "acc_counters x = merge_counter (acc_counters a) (acc_counters d)"
  shows "x = merge_acc a d"
  using assms by (simp add: merge_acc_def)

lemma take_candidate_frame:
  "take_candidate rl c (t, merge_acc a d) = map_prod id (merge_acc a) (take_candidate rl c (t, d))"
  by (auto simp: take_candidate_def merge_count_add intro!: merge_acc_eqI)

lemma fold_frame:
  assumes "\<And>x t d. x \<in> set xs \<Longrightarrow> f x (t, merge_acc a d) = map_prod id (merge_acc a) (f x (t, d))"
  shows "fold f xs (t, merge_acc a d) = map_prod id (merge_acc a) (fold f xs (t, d))"
  using assms
proof (induction xs arbitrary: t d)
  case (Cons x xs)
  then show ?case by (cases "f x (t, d)") simp
qed simp

lemma select_frame:
  "select_candidates rl cs (t, merge_acc a d) =
     map_prod id (merge_acc a) (select_candidates rl cs (t, d))"
  unfolding select_candidates_def by (rule fold_frame) (rule take_candidate_frame)

lemma counters_frame:
  "(merge_acc a d)\<lparr>acc_counters := count_add k n (acc_counters (merge_acc a d))\<rparr>
     = merge_acc a (d\<lparr>acc_counters := count_add k n (acc_counters d)\<rparr>)"
  by (rule merge_acc_eqI) (simp_all add: merge_count_add)

lemma apply_rules_frame:
  "apply_rules lefts rights tol oversized rls (t, merge_acc a d) =
     bindE (apply_rules lefts rights tol oversized rls (t, d)) (\<lambda>(t', d'). Inr (t', merge_acc a d'))"
proof (induction rls arbitrary: t d)
  case (Cons rl rls)
  let ?ls = "filter (\<lambda>r. rec_id r \<notin> taken_left t) lefts"
  let ?rs = "filter (\<lambda>r. rec_id r \<notin> taken_right t) rights"
  show ?case
  proof (cases "(rl = M3_AGGREGATE \<and> oversized) \<or> ?ls = [] \<or> ?rs = []")
    case True
    then show ?thesis using Cons.IH by (auto simp: Let_def)
  next
    case run: False
    show ?thesis
    proof (cases "GENERATORS rl ?ls ?rs tol")
      case (Inr cs)
      obtain t' d' where "select_candidates rl cs (t, d\<lparr>acc_counters :=
          count_add ''candidates_evaluated'' (int (length cs)) (acc_counters d)\<rparr>) = (t', d')"
        by fastforce
      with Inr run show ?thesis
        using counters_frame [where a = a and d = d] by (auto simp: Let_def Cons.IH select_frame)
    qed (use run in \<open>auto simp: Let_def\<close>)
  qed
qed simp

lemma audit_left_frame:
  "audit_left rights tol t oversized l (merge_acc a d) = merge_acc a (audit_left rights tol t oversized l d)"
  by (auto simp: audit_left_def Let_def merge_count_add intro!: merge_acc_eqI)

lemma audit_right_frame: "audit_right t r (merge_acc a d) = merge_acc a (audit_right t r d)"
  by (auto simp: audit_right_def merge_count_add intro!: merge_acc_eqI)

lemma fold_frame1:
  "(\<And>x d. f x (merge_acc a d) = merge_acc a (f x d)) \<Longrightarrow> fold f xs (merge_acc a d) = merge_acc a (fold f xs d)"
  by (induction xs arbitrary: d) simp_all

lemma audit_frame:
  "audit_unmatched lefts rights tol t oversized (merge_acc a d) =
     merge_acc a (audit_unmatched lefts rights tol t oversized d)"
  by (simp add: audit_unmatched_def fold_frame1 audit_left_frame audit_right_frame)

lemma reconcile_block_frame:
  "reconcile_block ls rs tol a = bindE (reconcile_block ls rs tol empty_acc) (\<lambda>d. Inr (merge_acc a d))"
proof -
  let ?run = "apply_rules (sort_key rec_id ls) (sort_key rec_id rs) tol
      (int (length rs) > max_block_candidates tol) rule_ids"
  have "?run (t, a) = bindE (?run (t, empty_acc)) (\<lambda>(t', d'). Inr (t', merge_acc a d'))" for t
    using apply_rules_frame [where a = a and d = empty_acc] by simp
  then show ?thesis
    by (cases "?run (\<lparr>taken_left = {}, taken_right = {}\<rparr>, empty_acc)")
      (auto simp: reconcile_block_def Let_def audit_frame)
qed

section \<open>The result is the merge of independent blocks\<close>

definition block_run :: "Record list \<Rightarrow> Record list \<Rightarrow> Tolerance \<Rightarrow> BlockKey \<Rightarrow> Acc result" where
  "block_run left right tol k = reconcile_block (in_block k left) (in_block k right) tol empty_acc"

definition counters_init :: "Record list \<Rightarrow> Record list \<Rightarrow> counter" where
  "counters_init left right = Map.empty(''records_left'' \<mapsto> int (length left),
     ''records_right'' \<mapsto> int (length right), ''blocks'' \<mapsto> int (length (block_keys left right)))"

definition merged_result ::
    "(string \<Rightarrow> string) \<Rightarrow> Tolerance \<Rightarrow> counter \<Rightarrow> Acc list \<Rightarrow> MatchResult" where
  "merged_result H tol c ds =
     \<lparr>matches = concat (map acc_matches ds), rejects = concat (map acc_rejects ds),
      counters = foldl merge_counter c (map acc_counters ds), ruleset_id = tolerance_ruleset_id H tol\<rparr>"

lemma foldE_blocks:
  "foldE (\<lambda>acc k. let (l, r) = block_get (make_blocks left right) k in reconcile_block l r tol acc) a ks
     = bindE (collectE (\<lambda>k. bindE (block_run left right tol k) (\<lambda>d. Inr [d])) ks)
         (\<lambda>ds. Inr (foldl merge_acc a ds))"
proof (induction ks arbitrary: a)
  case (Cons k ks)
  then show ?case
  proof (cases "block_run left right tol k")
    case (Inr d)
    with Cons.IH [of "merge_acc a d"] show ?thesis
      using reconcile_block_frame [of "in_block k left" "in_block k right" tol a]
      by (cases "collectE (\<lambda>k. bindE (block_run left right tol k) (\<lambda>d. Inr [d])) ks")
        (simp_all add: block_get_make block_run_def)
  qed (simp add: block_get_make block_run_def
      reconcile_block_frame [of "in_block k left" "in_block k right" tol a])
qed simp

lemma foldl_merge_acc:
  "foldl merge_acc a ds =
     \<lparr>acc_matches = acc_matches a @ concat (map acc_matches ds),
      acc_rejects = acc_rejects a @ concat (map acc_rejects ds),
      acc_counters = foldl merge_counter (acc_counters a) (map acc_counters ds)\<rparr>"
  by (induction ds arbitrary: a) simp_all

definition tol_or_default :: "Tolerance option \<Rightarrow> Tolerance" where
  "tol_or_default tol_opt = (case tol_opt of None \<Rightarrow> default_tolerance | Some t \<Rightarrow> t)"

lemma reconcile_blocks:
  "reconcile H left right tol_opt =
     bindE (collectE (\<lambda>k. bindE (block_run left right (tol_or_default tol_opt) k) (\<lambda>d. Inr [d]))
              (block_keys left right))
       (\<lambda>ds. Inr (merged_result H (tol_or_default tol_opt) (counters_init left right) ds))"
  unfolding reconcile_def Let_def foldE_blocks [unfolded Let_def]
    tol_or_default_def [symmetric] block_keys_def [symmetric] length_block_keys [symmetric]
  by (cases "collectE (\<lambda>k. bindE (block_run left right (tol_or_default tol_opt) k) (\<lambda>d. Inr [d]))
              (block_keys left right)")
    (simp_all add: foldl_merge_acc merged_result_def counters_init_def)

text \<open>The runs of the blocks, in the order of their keys.\<close>

lemma collect_runs:
  assumes "collectE (\<lambda>k. bindE (f k) (\<lambda>d. Inr [d])) ks = Inr ds"
  shows "list_all2 (\<lambda>k d. f k = Inr d) ks ds"
  using assms
proof (induction ks arbitrary: ds)
  case (Cons k ks)
  then obtain d ds' where "f k = Inr d" "ds = d # ds'"
    "collectE (\<lambda>k. bindE (f k) (\<lambda>d. Inr [d])) ks = Inr ds'" by auto
  with Cons.IH show ?case by simp
qed simp

lemma reconcile_runs:
  assumes "reconcile H left right tol_opt = Inr res"
  obtains ds where
    "list_all2 (\<lambda>k d. block_run left right (tol_or_default tol_opt) k = Inr d) (block_keys left right) ds"
    "res = merged_result H (tol_or_default tol_opt) (counters_init left right) ds"
  using assms collect_runs unfolding reconcile_blocks bindE_eq_Inr by blast

end
