(* ===== verification/Selection.thy ===== *)
theory Selection
  imports Engine_Blocks
begin

text \<open>
  Greedy selection inside one block: what the loop over the sorted candidates takes,
  and the invariant the loop over the rules keeps.
\<close>

section \<open>The selection loop as a function of its candidates\<close>

definition blocked :: "Taken \<Rightarrow> Match \<Rightarrow> bool" where
  "blocked t c \<longleftrightarrow> left_id c \<in> taken_left t \<or> set (right_ids c) \<inter> taken_right t \<noteq> {}"

definition consume :: "Match \<Rightarrow> Taken \<Rightarrow> Taken" where
  "consume c t = \<lparr>taken_left = insert (left_id c) (taken_left t),
                  taken_right = taken_right t \<union> set (right_ids c)\<rparr>"

text \<open>What the greedy loop takes from a list of candidates.\<close>

fun greedy :: "Taken \<Rightarrow> Match list \<Rightarrow> Match list" where
  "greedy t [] = []"
| "greedy t (c # cs) = (if blocked t c then greedy t cs else c # greedy (consume c t) cs)"

definition taken_by :: "Match list \<Rightarrow> Taken" where
  "taken_by ms = \<lparr>taken_left = left_id ` set ms, taken_right = set (concat (map right_ids ms))\<rparr>"

definition conflicts :: "Match \<Rightarrow> Match \<Rightarrow> bool" where
  "conflicts m c \<longleftrightarrow> left_id m = left_id c \<or> set (right_ids m) \<inter> set (right_ids c) \<noteq> {}"

text \<open>No record is used by two matches, nor twice by one.\<close>

definition exclusive :: "Match list \<Rightarrow> bool" where
  "exclusive ms \<longleftrightarrow> distinct (map left_id ms) \<and> distinct (concat (map right_ids ms))"

definition matched_key :: "RuleId \<Rightarrow> string" where
  "matched_key rl = ''matched_'' @ rule_name rl"

lemma take_candidate_blocked:
  "take_candidate rl c (t, acc) =
     (if blocked t c then (t, acc)
      else (consume c t, acc\<lparr>acc_matches := acc_matches acc @ [c],
              acc_counters := count_add (matched_key rl) 1 (acc_counters acc)\<rparr>))"
  by (auto simp: take_candidate_def blocked_def consume_def matched_key_def)

lemma taken_by_append: "taken_by (ms @ [c]) = consume c (taken_by ms)"
  by (auto simp: taken_by_def consume_def)

lemma blocked_taken_by: "blocked (taken_by ms) c \<longleftrightarrow> (\<exists>m \<in> set ms. conflicts m c)"
  unfolding blocked_def taken_by_def conflicts_def by (auto simp: image_iff, metis)

lemma blocked_mono:
  "blocked t c \<Longrightarrow> taken_left t \<subseteq> taken_left t' \<Longrightarrow> taken_right t \<subseteq> taken_right t' \<Longrightarrow> blocked t' c"
  by (auto simp: blocked_def)

text \<open>The loop, from what earlier matches have taken.\<close>

lemma fold_take_candidate:
  assumes "fold (take_candidate rl) cs (taken_by ms, acc) = (t', acc')"
  shows "t' = taken_by (ms @ greedy (taken_by ms) cs)"
    and "acc_matches acc' = acc_matches acc @ greedy (taken_by ms) cs"
    and "acc_rejects acc' = acc_rejects acc"
    and "count_get (acc_counters acc') k = count_get (acc_counters acc) k
      + (if k = matched_key rl then int (length (greedy (taken_by ms) cs)) else 0)"
proof -
  have "t' = taken_by (ms @ greedy (taken_by ms) cs)
    \<and> acc_matches acc' = acc_matches acc @ greedy (taken_by ms) cs
    \<and> acc_rejects acc' = acc_rejects acc
    \<and> count_get (acc_counters acc') k = count_get (acc_counters acc) k
      + (if k = matched_key rl then int (length (greedy (taken_by ms) cs)) else 0)"
    using assms
  proof (induction cs arbitrary: ms acc)
    case (Cons c cs)
    show ?case
    proof (cases "blocked (taken_by ms) c")
      case True
      with Cons show ?thesis by (simp add: take_candidate_blocked)
    next
      case False
      let ?acc = "acc\<lparr>acc_matches := acc_matches acc @ [c],
              acc_counters := count_add (matched_key rl) 1 (acc_counters acc)\<rparr>"
      have "fold (take_candidate rl) cs (taken_by (ms @ [c]), ?acc) = (t', acc')"
        using Cons.prems False by (simp add: take_candidate_blocked taken_by_append)
      from Cons.IH [OF this] False show ?thesis by (simp add: taken_by_append)
    qed
  qed simp
  then show "t' = taken_by (ms @ greedy (taken_by ms) cs)"
    "acc_matches acc' = acc_matches acc @ greedy (taken_by ms) cs"
    "acc_rejects acc' = acc_rejects acc"
    "count_get (acc_counters acc') k = count_get (acc_counters acc) k
      + (if k = matched_key rl then int (length (greedy (taken_by ms) cs)) else 0)"
    by blast+
qed

lemma greedy_subset: "set (greedy t cs) \<subseteq> set cs"
  by (induction t cs rule: greedy.induct) auto

lemma exclusive_snoc:
  "exclusive (ms @ [c]) \<longleftrightarrow> exclusive ms \<and> distinct (right_ids c) \<and> \<not> blocked (taken_by ms) c"
  by (auto simp: exclusive_def blocked_def taken_by_def)

lemma greedy_exclusive:
  assumes "exclusive ms" "\<forall>c \<in> set cs. distinct (right_ids c)"
  shows "exclusive (ms @ greedy (taken_by ms) cs)"
  using assms
proof (induction cs arbitrary: ms)
  case (Cons c cs)
  show ?case
  proof (cases "blocked (taken_by ms) c")
    case False
    with Cons.prems have "exclusive (ms @ [c])" by (simp add: exclusive_snoc)
    from Cons.IH [OF this] Cons.prems False show ?thesis by (simp add: taken_by_append)
  qed (use Cons in simp)
qed simp

text \<open>
  A candidate the loop passes over conflicts with a match it already had, or with one it
  took before it came to this candidate.
\<close>

lemma greedy_maximal:
  assumes "sorted (map f cs)" "c \<in> set cs" "\<not> blocked (taken_by ms) c"
  shows "\<exists>m \<in> set (greedy (taken_by ms) cs). (m = c \<or> conflicts m c) \<and> f m \<le> f c"
  using assms
proof (induction cs arbitrary: ms)
  case (Cons x cs)
  show ?case
  proof (cases "blocked (taken_by ms) x")
    case True
    with Cons.prems have "c \<in> set cs" by auto
    with Cons True show ?thesis by simp
  next
    case free: False
    then have hd: "greedy (taken_by ms) (x # cs) = x # greedy (taken_by (ms @ [x])) cs"
      by (simp add: taken_by_append)
    show ?thesis
    proof (cases "c = x \<or> conflicts x c")
      case True
      moreover have "f x \<le> f c" using Cons.prems by auto
      ultimately show ?thesis unfolding hd by auto
    next
      case False
      then have "\<not> blocked (taken_by (ms @ [x])) c" "c \<in> set cs"
        using Cons.prems by (auto simp: blocked_taken_by)
      then have "\<exists>m \<in> set (greedy (taken_by (ms @ [x])) cs). (m = c \<or> conflicts m c) \<and> f m \<le> f c"
        using Cons.prems(1) by (intro Cons.IH) simp_all
      then show ?thesis unfolding hd by auto
    qed
  qed
qed simp

section \<open>The invariant of the loop over the rules\<close>

abbreviation free_left :: "Record list \<Rightarrow> Taken \<Rightarrow> Record list" where
  "free_left lefts t \<equiv> filter (\<lambda>r. rec_id r \<notin> taken_left t) lefts"

abbreviation free_right :: "Record list \<Rightarrow> Taken \<Rightarrow> Record list" where
  "free_right rights t \<equiv> filter (\<lambda>r. rec_id r \<notin> taken_right t) rights"

text \<open>A match is a pairing of records of the block that its rule accepts.\<close>

definition justified :: "Record list \<Rightarrow> Record list \<Rightarrow> Tolerance \<Rightarrow> Match \<Rightarrow> bool" where
  "justified lefts rights tol m \<longleftrightarrow> (\<exists>l \<in> set lefts. \<exists>combo. subseq combo rights
     \<and> accepts (rule m) tol l combo \<and> proposes (rule m) tol l combo m)"

text \<open>The state after some rules, when the block has made the matches \<open>ms\<close>.\<close>

definition rules_inv :: "Record list \<Rightarrow> Record list \<Rightarrow> Tolerance \<Rightarrow> Match list \<Rightarrow> Taken \<times> Acc \<Rightarrow> bool" where
  "rules_inv lefts rights tol ms st \<longleftrightarrow>
     fst st = taken_by ms \<and> acc_matches (snd st) = ms \<and> acc_rejects (snd st) = []
     \<and> (\<forall>m \<in> set ms. justified lefts rights tol m)
     \<and> (distinct (map rec_id rights) \<longrightarrow> exclusive ms)
     \<and> (\<forall>rl. count_get (acc_counters (snd st)) (matched_key rl) = int (length (filter (\<lambda>m. rule m = rl) ms)))
     \<and> (\<forall>k. k \<notin> range matched_key \<and> k \<noteq> ''candidates_evaluated''
          \<longrightarrow> count_get (acc_counters (snd st)) k = 0)"

lemma justified_mono:
  "justified ls rs tol m \<Longrightarrow> set ls \<subseteq> set ls' \<Longrightarrow> subseq rs rs' \<Longrightarrow> justified ls' rs' tol m"
  unfolding justified_def by (meson subseq_order.order_trans subsetD)

lemma candidate_justified:
  assumes "GENERATORS rl ls rs tol = Inr cs" "c \<in> set cs"
  shows "justified ls rs tol c" and "rule c = rl"
  using gens.sound [OF assms] unfolding justified_def by (fastforce simp: proposes_def)+

lemma matched_key_inj: "matched_key a = matched_key b \<longleftrightarrow> a = b"
  by (cases a; cases b) (simp_all add: matched_key_def)

lemma matched_key_neq: "matched_key a \<noteq> ''candidates_evaluated''"
  by (simp add: matched_key_def)

abbreviation count_candidates :: "Match list \<Rightarrow> Acc \<Rightarrow> Acc" where
  "count_candidates cs acc \<equiv> acc\<lparr>acc_counters :=
     count_add ''candidates_evaluated'' (int (length cs)) (acc_counters acc)\<rparr>"

lemma select_step:
  assumes "rules_inv lefts rights tol ms (t, acc)"
    and "GENERATORS rl (free_left lefts t) (free_right rights t) tol = Inr cs"
    and "new = greedy t (sort_key candidate_order cs)"
  shows "rules_inv lefts rights tol (ms @ new) (select_candidates rl cs (t, count_candidates cs acc))"
proof -
  obtain t' acc' where st: "select_candidates rl cs (t, count_candidates cs acc) = (t', acc')"
    by fastforce
  have t: "t = taken_by ms" using assms(1) by (simp add: rules_inv_def)
  note loop = fold_take_candidate [OF st [unfolded select_candidates_def t], folded assms(3) [unfolded t]]
  have new: "set new \<subseteq> set cs" using greedy_subset assms(3) by fastforce
  have rl: "rule m = rl" if "m \<in> set new" for m
    using candidate_justified(2) [OF assms(2)] that new by blast
  have just: "justified lefts rights tol m" if "m \<in> set new" for m
    by (rule justified_mono [OF candidate_justified(1) [OF assms(2)]])
      (use that new in \<open>auto simp: subseq_filter_left\<close>)
  have "exclusive (ms @ new)" if "distinct (map rec_id rights)"
    unfolding assms(3) t
  proof (rule greedy_exclusive)
    show "exclusive ms" using assms(1) that by (simp add: rules_inv_def)
    have "distinct (map rec_id (free_right rights t))" using that by (rule distinct_map_filter)
    then show "\<forall>c \<in> set (sort_key candidate_order cs). distinct (right_ids c)"
      using gens.candidate_rights_distinct [OF assms(2)] by simp
  qed
  note excl = this
  have new_rl: "filter (\<lambda>m. rule m = r) new = (if r = rl then new else [])" for r
    using rl by (auto simp: filter_empty_conv filter_id_conv)
  have cnt: "count_get (acc_counters acc') k = count_get (acc_counters acc) k
      + (if k = ''candidates_evaluated'' then int (length cs) else 0)
      + (if k = matched_key rl then int (length new) else 0)" for k
    using loop(4) [of k] by auto
  show ?thesis
    unfolding st rules_inv_def fst_conv snd_conv
  proof (intro conjI allI impI ballI)
    show "t' = taken_by (ms @ new)" by (rule loop(1))
    show "acc_matches acc' = ms @ new" using loop(2) assms(1) by (simp add: rules_inv_def)
    show "acc_rejects acc' = []" using loop(3) assms(1) by (simp add: rules_inv_def)
    show "justified lefts rights tol m" if "m \<in> set (ms @ new)" for m
      using that just assms(1) by (auto simp: rules_inv_def)
    show "exclusive (ms @ new)" if "distinct (map rec_id rights)" using that by (rule excl)
    show "count_get (acc_counters acc') (matched_key r)
        = int (length (filter (\<lambda>m. rule m = r) (ms @ new)))" for r
      using assms(1) unfolding cnt filter_append new_rl
      by (auto simp: rules_inv_def matched_key_inj matched_key_neq)
    show "count_get (acc_counters acc') k = 0"
      if "k \<notin> range matched_key \<and> k \<noteq> ''candidates_evaluated''" for k
      using assms(1) that unfolding cnt by (auto simp: rules_inv_def)
  qed
qed

lemma apply_rules_Cons:
  assumes "apply_rules lefts rights tol oversized (rl # rls) (t, acc) = Inr st'"
  obtains
    (skip) "rl = M3_AGGREGATE" "oversized" "apply_rules lefts rights tol oversized rls (t, acc) = Inr st'"
  | (stop) "free_left lefts t = [] \<or> free_right rights t = []" "st' = (t, acc)"
  | (step) cs where "\<not> (rl = M3_AGGREGATE \<and> oversized)"
      "GENERATORS rl (free_left lefts t) (free_right rights t) tol = Inr cs"
      "apply_rules lefts rights tol oversized rls
        (select_candidates rl cs (t, count_candidates cs acc)) = Inr st'"
  using assms by (auto simp: Let_def split: if_splits)

lemma apply_rules_inv:
  assumes "apply_rules lefts rights tol oversized rls st = Inr st'" "rules_inv lefts rights tol ms st"
  shows "\<exists>new. rules_inv lefts rights tol (ms @ new) st'"
  using assms
proof (induction rls arbitrary: st ms)
  case Nil
  then show ?case by (intro exI [of _ "[]"]) simp
next
  case (Cons rl rls)
  obtain t acc where st: "st = (t, acc)" by fastforce
  from Cons.prems(1) [unfolded st] show ?case
  proof (cases rule: apply_rules_Cons)
    case skip
    with Cons st show ?thesis by blast
  next
    case stop
    with Cons.prems(2) st show ?thesis by (intro exI [of _ "[]"]) simp
  next
    case (step cs)
    from Cons.IH [OF step(3) select_step [OF Cons.prems(2) [unfolded st] step(2) refl]]
    show ?thesis by auto
  qed
qed

section \<open>No better pairing is left\<close>

text \<open>
  Every pairing the rule accepts shares a record with a match that was made first: by a
  stricter rule, or by the same rule and not after it in the candidate order.
\<close>

definition settled :: "Record list \<Rightarrow> Record list \<Rightarrow> Tolerance \<Rightarrow> Match list \<Rightarrow> RuleId \<Rightarrow> bool" where
  "settled lefts rights tol ms rl \<longleftrightarrow>
     (\<forall>l \<in> set lefts. \<forall>combo c. subseq combo rights \<and> accepts rl tol l combo \<and> proposes rl tol l combo c \<longrightarrow>
       (\<exists>m \<in> set ms. conflicts m c
          \<and> (rule m < rl \<or> rule m = rl \<and> candidate_order m \<le> candidate_order c)))"

lemma settled_append: "settled lefts rights tol ms rl \<Longrightarrow> settled lefts rights tol (ms @ new) rl"
  unfolding settled_def by fastforce

lemma conflicts_refl [simp]: "conflicts m m"
  by (simp add: conflicts_def)

lemma proposes_unique: "proposes rl tol l combo c \<Longrightarrow> proposes rl tol l combo c' \<Longrightarrow> c = c'"
  by (auto simp: proposes_def)

lemma blocked_proposal:
  assumes "proposes rl tol l combo c"
  shows "blocked t c \<longleftrightarrow> rec_id l \<in> taken_left t \<or> (\<exists>r \<in> set combo. rec_id r \<in> taken_right t)"
  using assms by (auto simp: blocked_def proposes_def)

lemma settled_blocked:
  assumes "\<forall>m \<in> set ms. rule m < rl" "blocked (taken_by ms) c"
  shows "\<exists>m \<in> set ms. conflicts m c
          \<and> (rule m < rl \<or> rule m = rl \<and> candidate_order m \<le> candidate_order c)"
  using assms unfolding blocked_taken_by by blast

lemma settled_stop:
  assumes "\<forall>m \<in> set ms. rule m < rl" "t = taken_by ms" "free_left lefts t = [] \<or> free_right rights t = []"
  shows "settled lefts rights tol ms rl"
  unfolding settled_def
proof (intro ballI allI impI, elim conjE)
  fix l combo c
  assume a: "l \<in> set lefts" "subseq combo rights" "accepts rl tol l combo" "proposes rl tol l combo c"
  obtain r where r: "r \<in> set combo" using gens.nonempty [OF a(3)] by (cases combo) auto
  then have "r \<in> set rights" using subseq_set [OF a(2)] by blast
  then have "blocked (taken_by ms) c"
    using assms(2,3) a(1) r unfolding blocked_proposal [OF a(4)] by (auto simp: filter_empty_conv)
  then show "\<exists>m \<in> set ms. conflicts m c
          \<and> (rule m < rl \<or> rule m = rl \<and> candidate_order m \<le> candidate_order c)"
    by (rule settled_blocked [OF assms(1)])
qed

lemma settled_step:
  assumes "\<forall>m \<in> set ms. rule m < rl" "t = taken_by ms"
    and gen: "GENERATORS rl (free_left lefts t) (free_right rights t) tol = Inr cs"
  shows "settled lefts rights tol (ms @ greedy t (sort_key candidate_order cs)) rl"
  unfolding settled_def
proof (intro ballI allI impI, elim conjE)
  fix l combo c
  assume a: "l \<in> set lefts" "subseq combo rights" "accepts rl tol l combo" "proposes rl tol l combo c"
  let ?new = "greedy t (sort_key candidate_order cs)"
  show "\<exists>m \<in> set (ms @ ?new). conflicts m c
          \<and> (rule m < rl \<or> rule m = rl \<and> candidate_order m \<le> candidate_order c)"
  proof (cases "blocked t c")
    case True
    with settled_blocked [OF assms(1)] assms(2) show ?thesis by auto
  next
    case False
    then have "l \<in> set (free_left lefts t)" "subseq combo (free_right rights t)"
      using a unfolding blocked_proposal [OF a(4)] by (auto simp: subseq_filter_iff)
    then have "c \<in> set cs"
      using gens.complete [OF gen _ _ a(3)] proposes_unique [OF a(4)] by blast
    then have "\<exists>m \<in> set ?new. (m = c \<or> conflicts m c) \<and> candidate_order m \<le> candidate_order c"
      using False assms(2) by (auto intro!: greedy_maximal)
    moreover have "rule m = rl" if "m \<in> set ?new" for m
      using that greedy_subset [of t "sort_key candidate_order cs"] candidate_justified(2) [OF gen] by auto
    ultimately obtain m where "m \<in> set ?new" "conflicts m c" "candidate_order m \<le> candidate_order c"
      "rule m = rl" by (metis conflicts_refl)
    then show ?thesis by (intro bexI [of _ m]) simp_all
  qed
qed

lemma apply_rules_settled:
  assumes "apply_rules lefts rights tol oversized rls st = Inr st'" "rules_inv lefts rights tol ms st"
    and "sorted_wrt (<) rls" "\<forall>m \<in> set ms. \<forall>rl \<in> set rls. rule m < rl"
  shows "\<exists>new. rules_inv lefts rights tol (ms @ new) st'
    \<and> (\<forall>rl \<in> set rls. rl = M3_AGGREGATE \<and> oversized \<or> settled lefts rights tol (ms @ new) rl)
    \<and> (\<forall>m \<in> set new. \<not> (rule m = M3_AGGREGATE \<and> oversized))"
  using assms
proof (induction rls arbitrary: st ms)
  case Nil
  then show ?case by (intro exI [of _ "[]"]) simp
next
  case (Cons rl rls)
  obtain t acc where st: "st = (t, acc)" by fastforce
  have t: "t = taken_by ms" using Cons.prems(2) st by (simp add: rules_inv_def)
  from Cons.prems(1) [unfolded st] show ?case
  proof (cases rule: apply_rules_Cons)
    case skip
    with Cons.IH [OF skip(3) Cons.prems(2) [unfolded st]] Cons.prems(3,4) show ?thesis by auto
  next
    case stop
    then have "settled lefts rights tol ms r" if "r \<in> set (rl # rls)" for r
      using that Cons.prems(4) t by (intro settled_stop [of ms r t]) auto
    with stop Cons.prems(2) st show ?thesis by (intro exI [of _ "[]"]) simp
  next
    case (step cs)
    let ?new = "greedy t (sort_key candidate_order cs)"
    note inv = select_step [OF Cons.prems(2) [unfolded st] step(2) refl]
    have rl: "rule m = rl" if "m \<in> set ?new" for m
      using that greedy_subset [of t "sort_key candidate_order cs"] candidate_justified(2) [OF step(2)] by auto
    then have "\<forall>m \<in> set (ms @ ?new). \<forall>r \<in> set rls. rule m < r" using Cons.prems(3,4) by auto
    then obtain new where new: "rules_inv lefts rights tol ((ms @ ?new) @ new) st'"
      "\<forall>r \<in> set rls. r = M3_AGGREGATE \<and> oversized \<or> settled lefts rights tol ((ms @ ?new) @ new) r"
      "\<forall>m \<in> set new. \<not> (rule m = M3_AGGREGATE \<and> oversized)"
      using Cons.IH [OF step(3) inv] Cons.prems(3) by auto
    moreover have "settled lefts rights tol ((ms @ ?new) @ new) rl"
      using Cons.prems(4) by (intro settled_append settled_step [OF _ t step(2)]) simp
    ultimately show ?thesis
      using rl step(1) by (intro exI [of _ "?new @ new"]) auto
  qed
qed

text \<open>A pairing a rule accepts has a candidate: its score exists.\<close>

lemma proposal_exists:
  assumes "accepts rl tol l combo" "length combo \<le> 10 ^ 23"
  shows "\<exists>c. proposes rl tol l combo c"
proof -
  have "\<exists>s. score_for rl tol l combo = Inr s"
  proof (cases rl)
    case M1_EXACT
    with assms(1) show ?thesis using m1_score by fastforce
  next
    case M2_TOLERANT
    with assms(1) show ?thesis using m2_score by fastforce
  next
    case M3_AGGREGATE
    with assms show ?thesis
      using m3_score_exists [of tol l combo combo] by (fastforce simp: m3_combos_def)
  qed simp
  then obtain s where "score_for rl tol l combo = Inr s" by blast
  then have "proposes rl tol l combo \<lparr>left_id = rec_id l, right_ids = sort (map rec_id combo), rule = rl,
      score = s, amount_residual = residual_of rl l combo, date_gap_days = gap_of l combo\<rparr>"
    by (simp add: proposes_def)
  then show ?thesis by blast
qed

lemma settled_not_free:
  assumes "settled lefts rights tol ms rl" "l \<in> set lefts" "subseq combo rights"
    "accepts rl tol l combo" "length rights \<le> 10 ^ 23"
  shows "rec_id l \<in> taken_left (taken_by ms) \<or> (\<exists>r \<in> set combo. rec_id r \<in> taken_right (taken_by ms))"
proof -
  have "length combo \<le> 10 ^ 23" using list_emb_length [OF assms(3)] assms(5) by simp
  then obtain c where c: "proposes rl tol l combo c" using proposal_exists assms(4) by blast
  then have "\<exists>m \<in> set ms. conflicts m c" using assms unfolding settled_def by blast
  then show ?thesis by (simp add: blocked_proposal [OF c, symmetric] blocked_taken_by)
qed

end
