(* ===== verification/Break_Audit.thy ===== *)
theory Break_Audit
  imports Selection
begin

text \<open>
  The audit of one block, and what one block promises as a whole
  (\<open>reconcile_block_spec\<close>): its matches, its rejects and its counters.
\<close>

section \<open>The audit\<close>

text \<open>The rejects of one left record, given what the block took.\<close>

definition left_rejects ::
    "Record list \<Rightarrow> Tolerance \<Rightarrow> Taken \<Rightarrow> bool \<Rightarrow> Record \<Rightarrow> Reject list" where
  "left_rejects rights tol t oversized l = acc_rejects (audit_left rights tol t oversized l empty_acc)"

lemma audit_left_counts:
  "acc_matches (audit_left rights tol t oversized l acc) = acc_matches acc"
  "acc_rejects (audit_left rights tol t oversized l acc) =
     acc_rejects acc @ left_rejects rights tol t oversized l"
  "k \<noteq> ''manual_review'' \<Longrightarrow> count_get (acc_counters (audit_left rights tol t oversized l acc)) k =
     count_get (acc_counters acc) k +
       (if k = ''unmatched_left'' \<and> rec_id l \<notin> taken_left t then 1 else 0)"
  by (simp_all add: audit_left_def left_rejects_def Let_def)

lemma audit_lefts:
  "acc_matches (fold (audit_left rights tol t oversized) ls acc) = acc_matches acc"
  "acc_rejects (fold (audit_left rights tol t oversized) ls acc) =
     acc_rejects acc @ concat (map (left_rejects rights tol t oversized) ls)"
  "k \<noteq> ''manual_review'' \<Longrightarrow> count_get (acc_counters (fold (audit_left rights tol t oversized) ls acc)) k =
     count_get (acc_counters acc) k + (if k = ''unmatched_left'' then int (length (free_left ls t)) else 0)"
  by (induction ls arbitrary: acc) (simp_all add: audit_left_counts)

lemma audit_rights:
  "acc_matches (fold (audit_right t) rs acc) = acc_matches acc"
  "acc_rejects (fold (audit_right t) rs acc) = acc_rejects acc"
  "count_get (acc_counters (fold (audit_right t) rs acc)) k =
     count_get (acc_counters acc) k + (if k = ''unmatched_right'' then int (length (free_right rs t)) else 0)"
  by (induction rs arbitrary: acc) (simp_all add: audit_right_def)

lemma audit_counts:
  "acc_matches (audit_unmatched lefts rights tol t oversized acc) = acc_matches acc"
  "acc_rejects (audit_unmatched lefts rights tol t oversized acc) =
     acc_rejects acc @ concat (map (left_rejects rights tol t oversized) lefts)"
  "k \<noteq> ''manual_review'' \<Longrightarrow> count_get (acc_counters (audit_unmatched lefts rights tol t oversized acc)) k =
     count_get (acc_counters acc) k + (if k = ''unmatched_left'' then int (length (free_left lefts t)) else 0)
       + (if k = ''unmatched_right'' then int (length (free_right rights t)) else 0)"
  by (simp_all add: audit_unmatched_def audit_lefts audit_rights)

text \<open>The rejects of a left record, reason by reason.\<close>

lemma left_rejects_taken: "rec_id l \<in> taken_left t \<Longrightarrow> left_rejects rights tol t oversized l = []"
  by (simp add: left_rejects_def audit_left_def)

lemma left_rejects_no_candidate:
  "rec_id l \<notin> taken_left t \<Longrightarrow> left_rejects [] tol t oversized l =
     [\<lparr>rej_left_id = rec_id l, rej_right_id = None, reason = NO_CANDIDATE\<rparr>]"
  by (simp add: left_rejects_def audit_left_def Let_def)

lemma left_rejects_oversized:
  "rec_id l \<notin> taken_left t \<Longrightarrow> rights \<noteq> [] \<Longrightarrow> left_rejects rights tol t True l =
     [\<lparr>rej_left_id = rec_id l, rej_right_id = None, reason = BLOCK_TOO_LARGE\<rparr>]"
  by (simp add: left_rejects_def audit_left_def Let_def)

lemma left_rejects_pairs:
  "rec_id l \<notin> taken_left t \<Longrightarrow> rights \<noteq> [] \<Longrightarrow> left_rejects rights tol t False l =
     concat (map (\<lambda>r. case pair_reject_reason l r tol (rec_id r \<in> taken_right t) of
         None \<Rightarrow> []
       | Some x \<Rightarrow> [\<lparr>rej_left_id = rec_id l, rej_right_id = Some (rec_id r), reason = x\<rparr>]) rights)
     @ (if max_aggregate_size tol \<ge> 2
          \<and> length (filter (\<lambda>r. rec_id r \<notin> taken_right t \<and> in_window tol l r) rights) \<ge> 2
        then [\<lparr>rej_left_id = rec_id l, rej_right_id = None, reason = AGGREGATE_NOT_FOUND\<rparr>] else [])"
  by (simp add: left_rejects_def audit_left_def Let_def in_window_def)

lemma left_rejects_left: "x \<in> set (left_rejects rights tol t oversized l) \<Longrightarrow> rej_left_id x = rec_id l"
  by (auto simp: left_rejects_def audit_left_def Let_def split: if_splits option.splits)

section \<open>One block\<close>

lemma matched_key_audit: "matched_key rl \<noteq> ''unmatched_left'' \<and> matched_key rl \<noteq> ''unmatched_right''
    \<and> matched_key rl \<noteq> ''manual_review''"
  by (simp add: matched_key_def)

lemma rules_inv_start: "rules_inv lefts rights tol [] (\<lparr>taken_left = {}, taken_right = {}\<rparr>, empty_acc)"
  by (simp add: rules_inv_def taken_by_def exclusive_def)

abbreviation oversized_block :: "Record list \<Rightarrow> Tolerance \<Rightarrow> bool" where
  "oversized_block rights tol \<equiv> int (length rights) > max_block_candidates tol"

lemma reconcile_block_spec:
  assumes "reconcile_block ls rs tol empty_acc = Inr d"
    and lefts: "lefts = sort_key rec_id ls" and rights: "rights = sort_key rec_id rs"
    and t: "t = taken_by (acc_matches d)"
  shows "\<forall>m \<in> set (acc_matches d). justified lefts rights tol m"
    and "distinct (map rec_id rs) \<Longrightarrow> exclusive (acc_matches d)"
    and "rl \<noteq> M3_AGGREGATE \<or> \<not> oversized_block rights tol \<Longrightarrow> settled lefts rights tol (acc_matches d) rl"
    and "acc_rejects d = concat (map (left_rejects rights tol t (oversized_block rights tol)) lefts)"
    and "count_get (acc_counters d) (matched_key rl) = int (length (filter (\<lambda>m. rule m = rl) (acc_matches d)))"
    and "count_get (acc_counters d) ''unmatched_left'' = int (length (free_left ls t))"
    and "count_get (acc_counters d) ''unmatched_right'' = int (length (free_right rs t))"
    and "count_get (acc_counters d) ''records_left'' = 0"
    and "count_get (acc_counters d) ''records_right'' = 0"
    and "count_get (acc_counters d) ''blocks'' = 0"
    and "m \<in> set (acc_matches d) \<Longrightarrow> rule m = M3_AGGREGATE \<Longrightarrow> \<not> oversized_block rights tol"
proof -
  let ?over = "oversized_block rights tol"
  obtain t' acc where run: "apply_rules lefts rights tol ?over rule_ids
      (\<lparr>taken_left = {}, taken_right = {}\<rparr>, empty_acc) = Inr (t', acc)"
    and d: "d = audit_unmatched lefts rights tol t' ?over acc"
    using assms(1) unfolding reconcile_block_def lefts rights by (auto simp: Let_def)
  have "sorted_wrt (<) rule_ids" by (simp add: rule_ids_def less_RuleId_def)
  from apply_rules_settled [OF run rules_inv_start this] obtain ms
    where inv: "rules_inv lefts rights tol ms (t', acc)"
      and settled: "\<forall>rl \<in> set rule_ids. rl = M3_AGGREGATE \<and> ?over \<or> settled lefts rights tol ms rl"
      and m3: "\<forall>m \<in> set ms. \<not> (rule m = M3_AGGREGATE \<and> ?over)"
    by auto
  have ms: "acc_matches d = ms" "t' = t" using inv d t by (simp_all add: rules_inv_def audit_counts)
  show "\<forall>m \<in> set (acc_matches d). justified lefts rights tol m" using inv ms by (simp add: rules_inv_def)
  have "mset (map rec_id rights) = mset (map rec_id rs)" using rights by simp
  then have "distinct (map rec_id rights) = distinct (map rec_id rs)" by (rule mset_eq_imp_distinct_iff)
  then show "distinct (map rec_id rs) \<Longrightarrow> exclusive (acc_matches d)"
    using inv ms by (simp add: rules_inv_def)
  have "rl \<in> set rule_ids" by (cases rl) (simp_all add: rule_ids_def)
  then show "rl \<noteq> M3_AGGREGATE \<or> \<not> ?over \<Longrightarrow> settled lefts rights tol (acc_matches d) rl"
    using settled ms by auto
  show "acc_rejects d = concat (map (left_rejects rights tol t ?over) lefts)"
    using inv ms by (simp add: d audit_counts rules_inv_def)
  show "count_get (acc_counters d) (matched_key rl) = int (length (filter (\<lambda>m. rule m = rl) (acc_matches d)))"
    using inv ms(1) matched_key_audit by (simp add: d audit_counts rules_inv_def)
  have other: "k \<noteq> ''manual_review'' \<Longrightarrow> k \<notin> range matched_key \<Longrightarrow> k \<noteq> ''candidates_evaluated'' \<Longrightarrow>
      count_get (acc_counters d) k =
        (if k = ''unmatched_left'' then int (length (free_left lefts t)) else 0)
        + (if k = ''unmatched_right'' then int (length (free_right rights t)) else 0)" for k
    using inv ms(2) by (simp add: d audit_counts rules_inv_def)
  have mk: "\<not> prefix ''matched_'' k \<Longrightarrow> k \<notin> range matched_key" for k
    by (auto simp: matched_key_def)
  have len: "length (free_left lefts t) = length (free_left ls t)"
    "length (free_right rights t) = length (free_right rs t)"
    unfolding lefts rights by (metis mset_filter mset_sort size_mset)+
  show "count_get (acc_counters d) ''unmatched_left'' = int (length (free_left ls t))"
    "count_get (acc_counters d) ''unmatched_right'' = int (length (free_right rs t))"
    "count_get (acc_counters d) ''records_left'' = 0"
    "count_get (acc_counters d) ''records_right'' = 0"
    "count_get (acc_counters d) ''blocks'' = 0"
    by (subst other; simp add: mk len)+
  show "m \<in> set (acc_matches d) \<Longrightarrow> rule m = M3_AGGREGATE \<Longrightarrow> \<not> ?over"
    using m3 ms(1) by blast
qed

end
