(* ===== verification/Engine_Props.thy ===== *)
theory Engine_Props
  imports Break_Audit
begin

text \<open>
  The properties of \<open>reconcile\<close> as a whole, each lifted from one block.  Identifiers are
  unique within a side, as a caller's records are; the hypotheses say where it is needed.
\<close>

section \<open>From blocks to the result\<close>

lemma matches_runs:
  assumes "list_all2 (\<lambda>k d. f k = Inr d) ks ds"
  shows "m \<in> set (concat (map g ds)) \<longleftrightarrow> (\<exists>k \<in> set ks. \<exists>d. f k = Inr d \<and> m \<in> set (g d))"
  using assms by (induction rule: list_all2_induct) auto

lemma reconcile_mem:
  assumes "reconcile H left right tol_opt = Inr res"
  shows "m \<in> set (matches res) \<longleftrightarrow> (\<exists>k \<in> set (block_keys left right). \<exists>d.
      block_run left right (tol_or_default tol_opt) k = Inr d \<and> m \<in> set (acc_matches d))"
    and "x \<in> set (rejects res) \<longleftrightarrow> (\<exists>k \<in> set (block_keys left right). \<exists>d.
      block_run left right (tol_or_default tol_opt) k = Inr d \<and> x \<in> set (acc_rejects d))"
proof -
  obtain ds where ds: "list_all2 (\<lambda>k d. block_run left right (tol_or_default tol_opt) k = Inr d)
      (block_keys left right) ds"
    and res: "res = merged_result H (tol_or_default tol_opt) (counters_init left right) ds"
    using reconcile_runs [OF assms] .
  show "m \<in> set (matches res) \<longleftrightarrow> (\<exists>k \<in> set (block_keys left right). \<exists>d.
      block_run left right (tol_or_default tol_opt) k = Inr d \<and> m \<in> set (acc_matches d))"
    "x \<in> set (rejects res) \<longleftrightarrow> (\<exists>k \<in> set (block_keys left right). \<exists>d.
      block_run left right (tol_or_default tol_opt) k = Inr d \<and> x \<in> set (acc_rejects d))"
    using matches_runs [OF ds, of _ acc_matches] matches_runs [OF ds, of _ acc_rejects]
    unfolding res merged_result_def MatchResult.select_convs by blast+
qed

lemma block_run_exists:
  assumes "reconcile H left right tol_opt = Inr res" "k \<in> set (block_keys left right)"
  shows "\<exists>d. block_run left right (tol_or_default tol_opt) k = Inr d"
  using assms by (elim reconcile_runs) (auto simp: list_all2_conv_all_nth in_set_conv_nth)

abbreviation sorted_block :: "BlockKey \<Rightarrow> Record list \<Rightarrow> Record list" where
  "sorted_block k rs \<equiv> sort_key rec_id (in_block k rs)"

lemma block_spec_of:
  assumes "block_run left right tol k = Inr d"
  shows "\<forall>m \<in> set (acc_matches d). justified (sorted_block k left) (sorted_block k right) tol m"
    and "distinct (map rec_id right) \<Longrightarrow> exclusive (acc_matches d)"
    and "rl \<noteq> M3_AGGREGATE \<or> \<not> oversized_block (in_block k right) tol \<Longrightarrow>
      settled (sorted_block k left) (sorted_block k right) tol (acc_matches d) rl"
    and "acc_rejects d = concat (map (left_rejects (sorted_block k right) tol (taken_by (acc_matches d))
      (oversized_block (in_block k right) tol)) (sorted_block k left))"
    and "count_get (acc_counters d) (matched_key rl) = int (length (filter (\<lambda>m. rule m = rl) (acc_matches d)))"
    and "count_get (acc_counters d) ''unmatched_left'' =
      int (length (free_left (in_block k left) (taken_by (acc_matches d))))"
    and "count_get (acc_counters d) ''unmatched_right'' =
      int (length (free_right (in_block k right) (taken_by (acc_matches d))))"
    and "m \<in> set (acc_matches d) \<Longrightarrow> rule m = M3_AGGREGATE \<Longrightarrow> \<not> oversized_block (in_block k right) tol"
    and "count_get (acc_counters d) ''records_left'' = 0"
    and "count_get (acc_counters d) ''records_right'' = 0"
    and "count_get (acc_counters d) ''blocks'' = 0"
  using assms unfolding block_run_def
  by (auto dest: reconcile_block_spec [OF _ refl refl refl] simp: distinct_map_filter)

text \<open>A match of a block is about records of that block.\<close>

lemma justified_in_block:
  assumes "justified (sorted_block k left) (sorted_block k right) tol m"
  shows "\<exists>l \<in> set left. blocking_key l = k \<and> rec_id l = left_id m"
    and "x \<in> set (right_ids m) \<Longrightarrow> \<exists>r \<in> set right. blocking_key r = k \<and> rec_id r = x"
proof -
  obtain l combo where l: "l \<in> set (sorted_block k left)" "rec_id l = left_id m"
    and combo: "subseq combo (sorted_block k right)" "set (right_ids m) = rec_id ` set combo"
    using assms by (auto simp: justified_def proposes_def)
  from l show "\<exists>l \<in> set left. blocking_key l = k \<and> rec_id l = left_id m" by auto
  from combo(2) subseq_set [OF combo(1)]
  show "x \<in> set (right_ids m) \<Longrightarrow> \<exists>r \<in> set right. blocking_key r = k \<and> rec_id r = x" by auto
qed

lemma same_id: "distinct (map rec_id rs) \<Longrightarrow> a \<in> set rs \<Longrightarrow> b \<in> set rs \<Longrightarrow> rec_id a = rec_id b \<Longrightarrow> a = b"
  by (auto simp: distinct_map inj_on_def)

text \<open>Whether a record is taken is decided in its own block.\<close>

lemma taken_left_block:
  assumes "reconcile H left right tol_opt = Inr res" "distinct (map rec_id left)" "l \<in> set left"
    and "block_run left right (tol_or_default tol_opt) (blocking_key l) = Inr d"
  shows "rec_id l \<in> left_id ` set (matches res) \<longleftrightarrow> rec_id l \<in> taken_left (taken_by (acc_matches d))"
proof
  assume "rec_id l \<in> left_id ` set (matches res)"
  then obtain m k d' where m: "left_id m = rec_id l" "m \<in> set (acc_matches d')"
    and d': "block_run left right (tol_or_default tol_opt) k = Inr d'"
    unfolding image_iff Bex_def reconcile_mem(1) [OF assms(1)] by metis
  then obtain l' where "l' \<in> set left" "blocking_key l' = k" "rec_id l' = left_id m"
    using justified_in_block(1) block_spec_of(1) [OF d'] by blast
  then have "k = blocking_key l" using same_id [OF assms(2,3)] m(1) by metis
  then have "d' = d" using d' assms(4) by simp
  with m show "rec_id l \<in> taken_left (taken_by (acc_matches d))" by (force simp: taken_by_def)
next
  assume "rec_id l \<in> taken_left (taken_by (acc_matches d))"
  then show "rec_id l \<in> left_id ` set (matches res)"
    using assms(3,4) unfolding image_iff Bex_def reconcile_mem(1) [OF assms(1)]
    by (force simp: taken_by_def set_block_keys)
qed

lemma taken_right_block:
  assumes "reconcile H left right tol_opt = Inr res" "distinct (map rec_id right)" "r \<in> set right"
    and "block_run left right (tol_or_default tol_opt) (blocking_key r) = Inr d"
  shows "(\<exists>m \<in> set (matches res). rec_id r \<in> set (right_ids m)) \<longleftrightarrow>
    rec_id r \<in> taken_right (taken_by (acc_matches d))"
proof
  assume "\<exists>m \<in> set (matches res). rec_id r \<in> set (right_ids m)"
  then obtain m k d' where m: "rec_id r \<in> set (right_ids m)" "m \<in> set (acc_matches d')"
    and d': "block_run left right (tol_or_default tol_opt) k = Inr d'"
    unfolding Bex_def reconcile_mem(1) [OF assms(1)] by metis
  then obtain r' where "r' \<in> set right" "blocking_key r' = k" "rec_id r' = rec_id r"
    using justified_in_block(2) block_spec_of(1) [OF d'] by blast
  then have "k = blocking_key r" using same_id [OF assms(2,3)] by metis
  then have "d' = d" using d' assms(4) by simp
  with m show "rec_id r \<in> taken_right (taken_by (acc_matches d))" by (force simp: taken_by_def)
next
  assume "rec_id r \<in> taken_right (taken_by (acc_matches d))"
  then show "\<exists>m \<in> set (matches res). rec_id r \<in> set (right_ids m)"
    using assms(3,4) unfolding Bex_def reconcile_mem(1) [OF assms(1)]
    by (force simp: taken_by_def set_block_keys)
qed

section \<open>Determinism\<close>

lemma block_run_mset:
  assumes "mset left = mset left'" "mset right = mset right'"
    and "inj_on rec_id (set left)" "inj_on rec_id (set right)"
  shows "block_run left right tol k = block_run left' right' tol k"
proof -
  have "sorted_block k left = sorted_block k left'" "sorted_block k right = sorted_block k right'"
    using assms(1,2) by (auto intro!: sort_key_mset_eq intro: inj_on_subset [OF assms(3)] inj_on_subset [OF assms(4)])
  moreover have "length (in_block k right) = length (in_block k right')"
    using assms(2) by (metis mset_filter size_mset)
  ultimately show ?thesis by (simp add: block_run_def reconcile_block_def)
qed


section \<open>Matches\<close>

text \<open>
  C4 Every match is a real pairing that its rule accepts: a left record and right records
  of the same block, the records the identifiers name, within the criterion of the rule,
  and the score, residual and date gap are those of the pairing.
\<close>

theorem matches_sound:
  assumes "reconcile H left right (Some tol) = Inr res" "m \<in> set (matches res)"
  shows "\<exists>l \<in> set left. \<exists>combo.
    subseq combo (sort_key rec_id (filter (\<lambda>r. blocking_key r = blocking_key l) right))
    \<and> accepts (rule m) tol l combo \<and> proposes (rule m) tol l combo m"
proof -
  obtain k d where d: "block_run left right tol k = Inr d" "m \<in> set (acc_matches d)"
    using assms(2) unfolding reconcile_mem(1) [OF assms(1)] by (auto simp: tol_or_default_def)
  then have "justified (sorted_block k left) (sorted_block k right) tol m"
    using block_spec_of(1) by blast
  then show ?thesis unfolding justified_def by auto
qed

lemma distinct_concat_blocks:
  assumes "list_all2 (\<lambda>k d. f k = Inr d) ks ds" "distinct ks"
    and "\<And>k d. f k = Inr d \<Longrightarrow> distinct (g d)"
    and "\<And>k d x. f k = Inr d \<Longrightarrow> x \<in> set (g d) \<Longrightarrow> key x = k"
  shows "distinct (concat (map g ds))"
  using assms(1,2)
proof (induction rule: list_all2_induct)
  case (Cons k ks d ds)
  have "set (g d) \<inter> set (concat (map g ds)) = {}"
    unfolding disjoint_iff matches_runs [OF Cons(2)]
  proof (intro allI impI notI, elim bexE exE conjE)
    fix x k' d'
    assume "x \<in> set (g d)" "k' \<in> set ks" "f k' = Inr d'" "x \<in> set (g d')"
    then have "k = k'" using assms(4) Cons(1) by metis
    with \<open>k' \<in> set ks\<close> Cons.prems show False by simp
  qed
  with Cons assms(3) show ?case by simp
qed simp

text \<open>
  C3 No record is used twice: over all blocks and rules, the matches have distinct left
  records, and no right record occurs twice among them, in one match or in two.
\<close>

theorem records_used_once:
  assumes "reconcile H left right tol_opt = Inr res"
    and "distinct (map rec_id left)" "distinct (map rec_id right)"
  shows "distinct (map left_id (matches res)) \<and> distinct (concat (map right_ids (matches res)))"
proof -
  obtain ds where ds: "list_all2 (\<lambda>k d. block_run left right (tol_or_default tol_opt) k = Inr d)
      (block_keys left right) ds" and res: "matches res = concat (map acc_matches ds)"
    using reconcile_runs [OF assms(1)] by (metis MatchResult.select_convs(1) merged_result_def)
  define lkey where "lkey x = blocking_key (the_inv_into (set left) rec_id x)" for x
  define rkey where "rkey x = blocking_key (the_inv_into (set right) rec_id x)" for x
  have inj: "inj_on rec_id (set left)" "inj_on rec_id (set right)"
    using assms(2,3) by (simp_all add: distinct_map)
  have excl: "exclusive (acc_matches d)" and just: "m \<in> set (acc_matches d) \<Longrightarrow>
      justified (sorted_block k left) (sorted_block k right) (tol_or_default tol_opt) m"
    if "block_run left right (tol_or_default tol_opt) k = Inr d" for k d m
    using block_spec_of(1,2) [OF that] assms(3) by blast+
  have "distinct (concat (map (\<lambda>d. map left_id (acc_matches d)) ds))"
  proof (rule distinct_concat_blocks [OF ds distinct_block_keys, of _ lkey])
    fix k d x
    assume d: "block_run left right (tol_or_default tol_opt) k = Inr d"
    then show "distinct (map left_id (acc_matches d))" using excl by (simp add: exclusive_def)
    assume "x \<in> set (map left_id (acc_matches d))"
    then obtain l where "l \<in> set left" "blocking_key l = k" "rec_id l = x"
      using justified_in_block(1) [OF just [OF d]] by auto
    then show "lkey x = k" using the_inv_into_f_f [OF inj(1)] by (auto simp: lkey_def)
  qed
  moreover have "distinct (concat (map (\<lambda>d. concat (map right_ids (acc_matches d))) ds))"
  proof (rule distinct_concat_blocks [OF ds distinct_block_keys, of _ rkey])
    fix k d x
    assume d: "block_run left right (tol_or_default tol_opt) k = Inr d"
    then show "distinct (concat (map right_ids (acc_matches d)))" using excl by (simp add: exclusive_def)
    assume "x \<in> set (concat (map right_ids (acc_matches d)))"
    then obtain r where "r \<in> set right" "blocking_key r = k" "rec_id r = x"
      using justified_in_block(2) [OF just [OF d]] by auto
    then show "rkey x = k" using the_inv_into_f_f [OF inj(2)] by (auto simp: rkey_def)
  qed
  moreover have "concat (concat (map (\<lambda>d. map right_ids (acc_matches d)) ds))
      = concat (map (\<lambda>d. concat (map right_ids (acc_matches d))) ds)"
    by (induction ds) simp_all
  ultimately show ?thesis unfolding res by (simp add: map_concat comp_def)
qed

lemma block_of_left:
  assumes "reconcile H left right (Some tol) = Inr res" "l \<in> set left"
  obtains d where "block_run left right tol (blocking_key l) = Inr d"
    "blocking_key l \<in> set (block_keys left right)"
  using block_run_exists [OF assms(1), of "blocking_key l"] assms(2)
  by (auto simp: set_block_keys tol_or_default_def)

text \<open>
  C2 No pairing is passed over for a worse one: if a rule accepts a pairing of records of one
  block (an aggregate only in a block that is not oversized), then some match of the
  result shares a record with it and was preferred, by a stricter rule or by the
  candidate order (score, then identifiers) of the same rule.
\<close>

theorem no_better_pairing_left:
  assumes "reconcile H left right (Some tol) = Inr res" "l \<in> set left"
    and "subseq combo (sort_key rec_id (filter (\<lambda>r. blocking_key r = blocking_key l) right))"
    and "accepts rl tol l combo" "proposes rl tol l combo c"
    and "rl \<noteq> M3_AGGREGATE
      \<or> int (length (filter (\<lambda>r. blocking_key r = blocking_key l) right)) \<le> max_block_candidates tol"
  shows "\<exists>m \<in> set (matches res).
    (left_id m = rec_id l \<or> set (right_ids m) \<inter> rec_id ` set combo \<noteq> {})
    \<and> (rule m < rl \<or> rule m = rl \<and> candidate_order m \<le> candidate_order c)"
proof -
  obtain d where d: "block_run left right tol (blocking_key l) = Inr d"
    and k: "blocking_key l \<in> set (block_keys left right)"
    using block_of_left [OF assms(1,2)] .
  have "settled (sorted_block (blocking_key l) left) (sorted_block (blocking_key l) right) tol (acc_matches d) rl"
    using assms(6) by (intro block_spec_of(3) [OF d]) auto
  then obtain m where m: "m \<in> set (acc_matches d)" "conflicts m c"
      "rule m < rl \<or> rule m = rl \<and> candidate_order m \<le> candidate_order c"
    using assms(2-5) unfolding settled_def by fastforce
  moreover have "m \<in> set (matches res)"
    using d k m(1) unfolding reconcile_mem(1) [OF assms(1)] by (auto simp: tol_or_default_def)
  moreover have "left_id m = rec_id l \<or> set (right_ids m) \<inter> rec_id ` set combo \<noteq> {}"
    using m(2) assms(5) by (simp add: conflicts_def proposes_def)
  ultimately show ?thesis by blast
qed

section \<open>Breaks\<close>

lemma rejects_of_left:
  assumes "reconcile H left right (Some tol) = Inr res" "distinct (map rec_id left)" "l \<in> set left"
    and "block_run left right tol (blocking_key l) = Inr d"
  shows "filter (\<lambda>x. rej_left_id x = rec_id l) (rejects res) =
    left_rejects (sorted_block (blocking_key l) right) tol (taken_by (acc_matches d))
      (oversized_block (in_block (blocking_key l) right) tol) l"
proof -
  let ?mine = "\<lambda>x. rej_left_id x = rec_id l"
  let ?over = "\<lambda>k. oversized_block (in_block k right) tol"
  have one: "filter ?mine (concat (map (left_rejects rs tol t ov) ls)) =
      (if l \<in> set ls then left_rejects rs tol t ov l else [])"
    if "set ls \<subseteq> set left" "distinct ls" for ls rs t ov
    using that
  proof (induction ls)
    case (Cons x ls)
    have "filter ?mine (left_rejects rs tol t ov x) = (if x = l then left_rejects rs tol t ov x else [])"
      using left_rejects_left [of _ rs tol t ov x] same_id [OF assms(2,3), of x] Cons.prems(1)
      by (auto simp: filter_empty_conv filter_id_conv)
    with Cons show ?case by auto
  qed simp
  obtain ds where ds: "list_all2 (\<lambda>k d. block_run left right tol k = Inr d) (block_keys left right) ds"
    and res: "rejects res = concat (map acc_rejects ds)"
    using reconcile_runs [OF assms(1)]
    by (metis MatchResult.select_convs(2) merged_result_def option.simps(5) tol_or_default_def)
  have "filter ?mine (concat (map acc_rejects es)) =
      (if blocking_key l \<in> set ks then left_rejects (sorted_block (blocking_key l) right) tol
        (taken_by (acc_matches d)) (?over (blocking_key l)) l else [])"
    if "list_all2 (\<lambda>k d. block_run left right tol k = Inr d) ks es" "distinct ks" for ks es
    using that
  proof (induction rule: list_all2_induct)
    case (Cons k ks e es)
    have "distinct left" using assms(2) by (simp add: distinct_map)
    then have "filter ?mine (acc_rejects e) = (if k = blocking_key l then left_rejects
        (sorted_block k right) tol (taken_by (acc_matches e)) (?over k) l else [])"
      unfolding block_spec_of(4) [OF Cons(1)] by (subst one) (auto simp: assms(3))
    with Cons assms(4) show ?case by auto
  qed simp
  from this [OF ds distinct_block_keys] show ?thesis
    unfolding res using assms(3) by (simp add: set_block_keys)
qed

text \<open>In a block that is not oversized, a free pair is out of one of the two bounds.\<close>

lemma free_pair_reason:
  assumes "settled lefts rights tol ms M2_TOLERANT" "l \<in> set lefts" "r \<in> set rights"
    "rec_id l \<notin> taken_left (taken_by ms)" "length rights \<le> 10 ^ 23"
  shows "pair_reject_reason l r tol (rec_id r \<in> taken_right (taken_by ms)) \<noteq> None"
proof
  assume none: "pair_reject_reason l r tol (rec_id r \<in> taken_right (taken_by ms)) = None"
  then have "accepts M2_TOLERANT tol l [r]" "rec_id r \<notin> taken_right (taken_by ms)"
    by (auto simp: pair_reject_reason_def in_window_def within_tolerance_iff split: if_splits)
  moreover have "subseq [r] rights" using assms(3) by (simp add: subseq_singleton_left)
  ultimately show False using settled_not_free [OF assms(1,2) _ _ assms(5), of "[r]"] assms(4) by simp
qed

text \<open>
  C5 Every left record is matched or its break is justified, never both and never
  neither: its identifier is in a match exactly when no reject mentions it.
\<close>

theorem matched_or_justified:
  assumes "reconcile H left right (Some tol) = Inr res" "l \<in> set left"
    and "distinct (map rec_id left)" "length right \<le> 10 ^ 23"
  shows "(\<exists>m \<in> set (matches res). left_id m = rec_id l) \<longleftrightarrow>
    \<not> (\<exists>x \<in> set (rejects res). rej_left_id x = rec_id l)"
proof -
  obtain d where d: "block_run left right tol (blocking_key l) = Inr d"
    using block_of_left [OF assms(1,2)] .
  let ?rs = "sorted_block (blocking_key l) right" and ?t = "taken_by (acc_matches d)"
  let ?over = "oversized_block (in_block (blocking_key l) right) tol"
  have m: "(\<exists>m \<in> set (matches res). left_id m = rec_id l) \<longleftrightarrow> rec_id l \<in> taken_left ?t"
    using taken_left_block [OF assms(1,3,2)] d unfolding tol_or_default_def by (metis image_iff option.simps(5))
  have "left_rejects ?rs tol ?t ?over l \<noteq> []" if free: "rec_id l \<notin> taken_left ?t"
  proof -
    consider "?rs = []" | "?rs \<noteq> []" "?over" | r rest where "?rs = r # rest" "\<not> ?over"
      by (cases ?rs) auto
    then show ?thesis
    proof cases
      case 1
      show ?thesis unfolding 1 left_rejects_no_candidate [OF free] by simp
    next
      case 2
      with free show ?thesis by (simp add: left_rejects_oversized)
    next
      case (3 r rest)
      have "length ?rs \<le> 10 ^ 23" using assms(4) by (simp add: le_trans [OF length_filter_le])
      then have "pair_reject_reason l r tol (rec_id r \<in> taken_right ?t) \<noteq> None"
        using free assms(2) 3 by (intro free_pair_reason [OF block_spec_of(3) [OF d]]) auto
      with 3 free show ?thesis by (auto simp: left_rejects_pairs simp del: length_sort)
    qed
  qed
  then have "left_rejects ?rs tol ?t ?over l = [] \<longleftrightarrow> rec_id l \<in> taken_left ?t"
    using left_rejects_taken by blast
  then show ?thesis
    unfolding m rejects_of_left [OF assms(1,3,2) d, symmetric] filter_empty_conv by blast
qed

text \<open>The reason the priority order gives to a pair, from the matches made.\<close>

definition break_reason :: "Tolerance \<Rightarrow> Match list \<Rightarrow> Record \<Rightarrow> Record \<Rightarrow> RejectReason" where
  "break_reason tol ms l r =
     (if \<exists>m \<in> set ms. rec_id r \<in> set (right_ids m) then LOST_TO_BETTER_CANDIDATE
      else if \<not> in_window tol l r then DATE_OUT_OF_WINDOW else AMOUNT_OUT_OF_TOLERANCE)"

lemma filter_concat_single:
  assumes "\<And>x. x \<in> set xs \<Longrightarrow> f x \<noteq> None" "\<And>x y. x \<in> set xs \<Longrightarrow> P (g x y) \<longleftrightarrow> x = a"
    and "distinct xs" "a \<in> set xs"
  shows "filter P (concat (map (\<lambda>x. case f x of None \<Rightarrow> [] | Some y \<Rightarrow> [g x y]) xs)) = [g a (the (f a))]"
  using assms
proof (induction xs)
  case (Cons x xs)
  have none: "filter P (concat (map (\<lambda>x. case f x of None \<Rightarrow> [] | Some y \<Rightarrow> [g x y]) xs)) = []"
    if "a \<notin> set xs"
    using that Cons.prems(2) by (auto simp: filter_empty_conv split: option.splits)
  obtain y where "f x = Some y" using Cons.prems(1) by fastforce
  with Cons none show ?case by (cases "x = a") auto
qed simp

text \<open>
  C6 Every pair of an unmatched left record carries exactly one reason: in a block that is
  neither empty on the right nor oversized, each right record of the block has exactly one
  reject with that left record.  The reason is \<open>LOST_TO_BETTER_CANDIDATE\<close> when the right
  record is matched elsewhere, else \<open>DATE_OUT_OF_WINDOW\<close> when the dates are too far apart,
  and otherwise \<open>AMOUNT_OUT_OF_TOLERANCE\<close>, with the amounts out of tolerance indeed.
\<close>

theorem every_pair_has_one_reason:
  assumes "reconcile H left right (Some tol) = Inr res" "l \<in> set left" "r \<in> set right"
    and "distinct (map rec_id left)" "distinct (map rec_id right)" "length right \<le> 10 ^ 23"
    and "blocking_key r = blocking_key l" "\<forall>m \<in> set (matches res). left_id m \<noteq> rec_id l"
    and "int (length (filter (\<lambda>r. blocking_key r = blocking_key l) right)) \<le> max_block_candidates tol"
  shows "filter (\<lambda>x. rej_left_id x = rec_id l \<and> rej_right_id x = Some (rec_id r)) (rejects res) =
      [\<lparr>rej_left_id = rec_id l, rej_right_id = Some (rec_id r), reason = break_reason tol (matches res) l r\<rparr>]
    \<and> (break_reason tol (matches res) l r = AMOUNT_OUT_OF_TOLERANCE \<longrightarrow>
      \<not> within_tolerance tol l (dec_sub (amount l) (amount r)))"
proof -
  obtain d where d: "block_run left right tol (blocking_key l) = Inr d"
    using block_of_left [OF assms(1,2)] .
  let ?rs = "sorted_block (blocking_key l) right" and ?t = "taken_by (acc_matches d)"
  let ?why = "\<lambda>r. pair_reject_reason l r tol (rec_id r \<in> taken_right ?t)"
  let ?mk = "\<lambda>r x. \<lparr>rej_left_id = rec_id l, rej_right_id = Some (rec_id r), reason = x\<rparr>"
  have free: "rec_id l \<notin> taken_left ?t"
    using taken_left_block [OF assms(1,4,2)] d assms(8) by (auto simp: tol_or_default_def)
  have "r \<in> set ?rs" using assms(3,7) by simp
  then have r: "r \<in> set ?rs" "?rs \<noteq> []" by (blast, metis empty_iff empty_set)
  have len: "length ?rs \<le> 10 ^ 23" using assms(6) by (simp add: le_trans [OF length_filter_le])
  have why: "?why x \<noteq> None" if "x \<in> set ?rs" for x
    using that free len assms(2) by (intro free_pair_reason [OF block_spec_of(3) [OF d]]) auto
  have dist: "distinct ?rs" using assms(5) by (simp add: distinct_map distinct_filter)
  have "filter (\<lambda>x. rej_left_id x = rec_id l \<and> rej_right_id x = Some (rec_id r)) (rejects res)
      = filter (\<lambda>x. rej_right_id x = Some (rec_id r)) (left_rejects ?rs tol ?t False l)"
    using rejects_of_left [OF assms(1,4,2) d] assms(9)
    by (simp add: not_less [symmetric] flip: filter_filter)
  also have "\<dots> = filter (\<lambda>x. rej_right_id x = Some (rec_id r))
      (concat (map (\<lambda>x. case ?why x of None \<Rightarrow> [] | Some y \<Rightarrow> [?mk x y]) ?rs))"
    using left_rejects_pairs [OF free r(2)] by simp
  also have "\<dots> = [?mk r (the (?why r))]"
    by (rule filter_concat_single [OF why _ dist r(1)]) (use same_id [OF assms(5) _ assms(3)] in auto)
  finally have one: "filter (\<lambda>x. rej_left_id x = rec_id l \<and> rej_right_id x = Some (rec_id r)) (rejects res)
      = [?mk r (the (?why r))]" .
  have taken: "(\<exists>m \<in> set (matches res). rec_id r \<in> set (right_ids m)) \<longleftrightarrow> rec_id r \<in> taken_right ?t"
    using taken_right_block [OF assms(1,5,3)] d assms(7) by (simp add: tol_or_default_def)
  have "the (?why r) = break_reason tol (matches res) l r"
    "break_reason tol (matches res) l r = AMOUNT_OUT_OF_TOLERANCE \<Longrightarrow>
      \<not> within_tolerance tol l (dec_sub (amount l) (amount r))"
    using why [OF r(1)] unfolding break_reason_def taken pair_reject_reason_def
    by (auto simp: in_window_def within_tolerance_iff split: if_splits)
  with one show ?thesis by simp
qed

lemma m3_candidate_size:
  "justified lefts rights tol m \<Longrightarrow> rule m = M3_AGGREGATE \<Longrightarrow> 2 \<le> length rights"
  by (auto simp: justified_def dest!: list_emb_length)

text \<open>
  C7 A block is never degraded silently: a left record whose block is oversized is in no
  aggregate, and if it is unmatched it has exactly one reject, \<open>BLOCK_TOO_LARGE\<close>; a left
  record with no right record in its block has exactly one reject, \<open>NO_CANDIDATE\<close>.
\<close>

theorem oversized_block_is_reported:
  assumes "reconcile H left right (Some tol) = Inr res" "l \<in> set left" "distinct (map rec_id left)"
    and "candidates = filter (\<lambda>r. blocking_key r = blocking_key l) right"
    and "candidates = [] \<or> int (length candidates) > max_block_candidates tol"
  shows "(\<forall>m \<in> set (matches res). left_id m = rec_id l \<longrightarrow> rule m \<noteq> M3_AGGREGATE)
    \<and> ((\<forall>m \<in> set (matches res). left_id m \<noteq> rec_id l) \<longrightarrow>
      filter (\<lambda>x. rej_left_id x = rec_id l) (rejects res) =
        [\<lparr>rej_left_id = rec_id l, rej_right_id = None,
          reason = (if candidates = [] then NO_CANDIDATE else BLOCK_TOO_LARGE)\<rparr>])"
proof (intro conjI impI ballI)
  obtain d where d: "block_run left right tol (blocking_key l) = Inr d"
    using block_of_left [OF assms(1,2)] .
  let ?rs = "sorted_block (blocking_key l) right" and ?t = "taken_by (acc_matches d)"
  have rs: "?rs = [] \<longleftrightarrow> candidates = []" unfolding assms(4) by (metis length_0_conv length_sort)
  show "filter (\<lambda>x. rej_left_id x = rec_id l) (rejects res) =
      [\<lparr>rej_left_id = rec_id l, rej_right_id = None,
        reason = (if candidates = [] then NO_CANDIDATE else BLOCK_TOO_LARGE)\<rparr>]"
    if "\<forall>m \<in> set (matches res). left_id m \<noteq> rec_id l"
  proof -
    have free: "rec_id l \<notin> taken_left ?t"
      using taken_left_block [OF assms(1,3,2)] d that by (auto simp: tol_or_default_def)
    show ?thesis
    proof (cases "candidates = []")
      case True
      then have "?rs = []" using rs by simp
      with True show ?thesis
        unfolding rejects_of_left [OF assms(1,3,2) d] \<open>?rs = []\<close> left_rejects_no_candidate [OF free]
        by simp
    next
      case False
      with rs assms(4,5) show ?thesis
        unfolding rejects_of_left [OF assms(1,3,2) d] by (simp add: left_rejects_oversized [OF free])
    qed
  qed
  fix m
  assume m: "m \<in> set (matches res)" "left_id m = rec_id l"
  then obtain k d' where d': "block_run left right tol k = Inr d'" "m \<in> set (acc_matches d')"
    unfolding reconcile_mem(1) [OF assms(1)] by (auto simp: tol_or_default_def)
  note just = bspec [OF block_spec_of(1) [OF d'(1)] d'(2)]
  have "k = blocking_key l"
    using justified_in_block(1) [OF just] same_id [OF assms(3,2)] m(2) by metis
  then show "rule m \<noteq> M3_AGGREGATE"
    using assms(4,5) block_spec_of(8) [OF d'] m3_candidate_size [OF just] by auto
qed

section \<open>Accounting\<close>

lemma used_plus_free:
  assumes "distinct (map rec_id rs)" "distinct ids" "set ids \<subseteq> rec_id ` set rs"
  shows "length ids + length (filter (\<lambda>r. rec_id r \<notin> set ids) rs) = length rs"
proof -
  have "set ids = rec_id ` set (filter (\<lambda>r. rec_id r \<in> set ids) rs)" using assms(3) by auto
  then have "card (set ids) = length (filter (\<lambda>r. rec_id r \<in> set ids) rs)"
    using distinct_map_filter [OF assms(1)] by (metis distinct_card length_map set_map)
  then show ?thesis
    using sum_length_filter_compl [of "\<lambda>r. rec_id r \<in> set ids" rs] distinct_card [OF assms(2)] by simp
qed

lemma sum_blocks:
  assumes "distinct ks" "blocking_key ` set rs \<subseteq> set ks"
  shows "sum_list (map (\<lambda>k. int (length (in_block k rs))) ks) = int (length rs)"
  using assms(2)
proof (induction rs)
  case (Cons r rs)
  have "sum_list (map (\<lambda>k. int (length (in_block k (r # rs)))) ks)
      = sum_list (map (\<lambda>k. (if k = blocking_key r then 1 else 0) + int (length (in_block k rs))) ks)"
    by (intro arg_cong [where f = sum_list] map_cong) auto
  also have "\<dots> = sum_list (map (\<lambda>k. if k = blocking_key r then 1 else 0) ks)
      + sum_list (map (\<lambda>k. int (length (in_block k rs))) ks)"
    by (rule sum_list_addf)
  also have "sum_list (map (\<lambda>k. if k = blocking_key r then 1 else 0) ks) = (1::int)"
    using assms(1) Cons.prems by (simp add: sum_list_distinct_conv_sum_set)
  finally show ?case using Cons by simp
qed simp

lemma count_get_merged:
  "count_get (foldl merge_counter c cs) k = count_get c k + sum_list (map (\<lambda>d. count_get d k) cs)"
  by (induction cs arbitrary: c) simp_all

lemma sum_list_runs:
  assumes "list_all2 P ks ds" "\<And>k d. P k d \<Longrightarrow> f d = g k"
  shows "sum_list (map f ds) = sum_list (map g ks)"
  using assms by (induction rule: list_all2_induct) auto

lemma rule_ids_count: "sum_list (map (\<lambda>rl. int (length (filter (\<lambda>m. rule m = rl) ms))) rule_ids) = int (length ms)"
proof (induction ms)
  case (Cons m ms)
  then show ?case by (cases "rule m") (simp_all add: rule_ids_def)
qed (simp add: rule_ids_def)

lemma block_counts:
  assumes "block_run left right tol k = Inr d" "distinct (map rec_id left)" "distinct (map rec_id right)"
  shows "sum_list (map (\<lambda>rl. count_get (acc_counters d) (matched_key rl)) rule_ids)
      + count_get (acc_counters d) ''unmatched_left'' = int (length (in_block k left))"
    and "int (length (concat (map right_ids (acc_matches d))))
      + count_get (acc_counters d) ''unmatched_right'' = int (length (in_block k right))"
proof -
  note spec = block_spec_of [OF assms(1)]
  have dist: "distinct (map rec_id (in_block k left))" "distinct (map rec_id (in_block k right))"
    using assms(2,3) by (simp_all add: distinct_map_filter)
  have excl: "exclusive (acc_matches d)" using spec(2) assms(3) .
  have "set (map left_id (acc_matches d)) \<subseteq> rec_id ` set (in_block k left)"
    "set (concat (map right_ids (acc_matches d))) \<subseteq> rec_id ` set (in_block k right)"
    using justified_in_block [OF bspec [OF spec(1)]] by (auto simp: image_iff) metis+
  from used_plus_free [OF dist(1) _ this(1)] used_plus_free [OF dist(2) _ this(2)] excl
  show "sum_list (map (\<lambda>rl. count_get (acc_counters d) (matched_key rl)) rule_ids)
      + count_get (acc_counters d) ''unmatched_left'' = int (length (in_block k left))"
    "int (length (concat (map right_ids (acc_matches d))))
      + count_get (acc_counters d) ''unmatched_right'' = int (length (in_block k right))"
    unfolding spec(5-7) rule_ids_count by (simp_all add: exclusive_def taken_by_def)
qed

text \<open>
  C8 The counters account for every record: \<open>records_left\<close> and \<open>records_right\<close> are the sizes of
  the inputs; the \<open>matched_*\<close> counters of the four rules and \<open>unmatched_left\<close> add up to the
  left side, and each is the number of matches of its rule; the right records used by the
  matches and \<open>unmatched_right\<close> add up to the right side.
\<close>

theorem counters_account_for_all:
  assumes "reconcile H left right tol_opt = Inr res"
    and "distinct (map rec_id left)" "distinct (map rec_id right)"
  shows "count_get (counters res) ''records_left'' = int (length left)
    \<and> count_get (counters res) ''records_right'' = int (length right)
    \<and> (\<forall>rl. count_get (counters res) (''matched_'' @ rule_name rl)
          = int (length (filter (\<lambda>m. rule m = rl) (matches res))))
    \<and> int (length (matches res)) + count_get (counters res) ''unmatched_left'' = int (length left)
    \<and> int (length (concat (map right_ids (matches res)))) + count_get (counters res) ''unmatched_right''
        = int (length right)"
proof -
  let ?tol = "tol_or_default tol_opt"
  obtain ds where ds: "list_all2 (\<lambda>k d. block_run left right ?tol k = Inr d) (block_keys left right) ds"
    and res: "res = merged_result H ?tol (counters_init left right) ds"
    using reconcile_runs [OF assms(1)] .
  have cnt: "count_get (counters res) k = count_get (counters_init left right) k
      + sum_list (map (\<lambda>d. count_get (acc_counters d) k) ds)" for k
    unfolding res merged_result_def by (simp add: count_get_merged comp_def)
  have zero: "sum_list (map (\<lambda>d. count_get (acc_counters d) k) ds) = 0"
    if "k = ''records_left'' \<or> k = ''records_right''" for k
    using that block_spec_of(9,10) by (subst sum_list_runs [OF ds, of _ "\<lambda>_. 0"]) auto
  have init: "count_get (counters_init left right) k = 0"
    if "k \<notin> {''records_left'', ''records_right'', ''blocks''}" for k
    using that by (simp add: counters_init_def)
  have m: "matches res = concat (map acc_matches ds)" unfolding res by (simp add: merged_result_def)
  have matched: "sum_list (map (\<lambda>d. count_get (acc_counters d) (matched_key rl)) es)
      = int (length (filter (\<lambda>m. rule m = rl) (concat (map acc_matches es))))"
    if "list_all2 (\<lambda>k d. block_run left right ?tol k = Inr d) ks es" for rl ks es
    using that by (induction rule: list_all2_induct) (simp_all add: block_spec_of(5))
  have per_rule: "count_get (counters res) (matched_key rl)
      = int (length (filter (\<lambda>m. rule m = rl) (matches res)))" for rl
    unfolding cnt m matched [OF ds] by (subst init) (simp_all add: matched_key_def)
  have lefts: "sum_list (map (\<lambda>d. int (length (acc_matches d))
      + count_get (acc_counters d) ''unmatched_left'') ds) = int (length left)"
    using sum_blocks [OF distinct_block_keys, of left left right] block_counts(1) [OF _ assms(2,3)]
    by (subst sum_list_runs [OF ds, of _ "\<lambda>k. int (length (in_block k left))"])
      (auto simp: set_block_keys block_spec_of(5) rule_ids_count)
  have rights: "sum_list (map (\<lambda>d. int (length (concat (map right_ids (acc_matches d))))
      + count_get (acc_counters d) ''unmatched_right'') ds) = int (length right)"
    using sum_blocks [OF distinct_block_keys, of right left right] block_counts(2) [OF _ assms(2,3)]
    by (subst sum_list_runs [OF ds, of _ "\<lambda>k. int (length (in_block k right))"])
      (auto simp: set_block_keys)
  have len: "int (length (concat (map f xs))) = sum_list (map (\<lambda>x. int (length (f x))) xs)"
    for f :: "Acc \<Rightarrow> 'b list" and xs
    by (induction xs) simp_all
  have "concat (map right_ids (matches res)) = concat (map (\<lambda>d. concat (map right_ids (acc_matches d))) ds)"
    unfolding m by (induction ds) simp_all
  then show ?thesis
    using per_rule lefts rights zero init
    by (simp add: m cnt len sum_list_addf matched_key_def counters_init_def)
qed

section \<open>Totality\<close>

lemma apply_rules_total:
  assumes "length rights \<le> 10 ^ 23"
  shows "\<exists>st'. apply_rules lefts rights tol oversized rls st = Inr st'"
proof (induction rls arbitrary: st)
  case (Cons rl rls)
  obtain t acc where st: "st = (t, acc)" by fastforce
  have "length (free_right rights t) \<le> 10 ^ 23" using assms by (simp add: le_trans [OF length_filter_le])
  then obtain cs where cs: "GENERATORS rl (free_left lefts t) (free_right rights t) tol = Inr cs"
    using generators_total by blast
  show ?case
    using Cons.IH [of st] Cons.IH [of "select_candidates rl cs (t, count_candidates cs acc)"] cs
    by (auto simp: st Let_def)
qed simp

lemma reconcile_returns:
  assumes "length right \<le> 10 ^ 23"
  shows "\<exists>res. reconcile H left right tol_opt = Inr res"
proof -
  have "\<exists>d. block_run left right tol k = Inr d" for tol k
  proof -
    have "length (sorted_block k right) \<le> 10 ^ 23" using assms by (simp add: le_trans [OF length_filter_le])
    from apply_rules_total [OF this] show ?thesis
      by (auto simp: block_run_def reconcile_block_def Let_def split_beta)
  qed
  then have "\<exists>ds. collectE (\<lambda>k. bindE (block_run left right tol k) (\<lambda>d. Inr [d])) ks = Inr ds" for tol ks
    by (intro collectE_total) auto
  then show ?thesis unfolding reconcile_blocks by (auto simp: bindE_eq_Inr)
qed


end
