(* ===== verification/Engine_Examples.thy ===== *)
theory Engine_Examples
  imports Engine_Props
begin

text \<open>
  One concrete reconciliation, evaluated, and each property of the engine at it: two left
  and two right records of one account, one pair matched by reference in spite of a
  residual, the other pair a break.
\<close>

section \<open>The run\<close>

definition ex_rec :: "string \<Rightarrow> nat \<Rightarrow> string option \<Rightarrow> Record" where
  "ex_rec i a ref = \<lparr>rec_id = i, account = ''ACC'', amount = Dec False a 0, value_date = 20,
     reference = ref, currency = None\<rparr>"

lemma ex_rec_sel [simp]:
  "rec_id (ex_rec i a ref) = i" "amount (ex_rec i a ref) = Dec False a 0"
  "value_date (ex_rec i a ref) = 20" "reference (ex_rec i a ref) = ref"
  "blocking_key (ex_rec i a ref) = [''ACC'']"
  by (simp_all add: ex_rec_def blocking_key_def)

lemma default_tolerance_sel [simp]:
  "amount_abs default_tolerance = Dec False 0 (-2)" "amount_rel default_tolerance = Dec False 0 0"
  "date_days default_tolerance = 0" "max_aggregate_size default_tolerance = 3"
  "max_block_candidates default_tolerance = 32"
  by (simp_all add: default_tolerance_def)

abbreviation A1 :: Record where "A1 \<equiv> ex_rec ''A1'' 100 (Some ''INV'')"
abbreviation A2 :: Record where "A2 \<equiv> ex_rec ''A2'' 50 None"
abbreviation B1 :: Record where "B1 \<equiv> ex_rec ''B1'' 98 (Some ''INV'')"
abbreviation B2 :: Record where "B2 \<equiv> ex_rec ''B2'' 40 None"
abbreviation B3 :: Record where "B3 \<equiv> ex_rec ''B3'' 50 None"

definition ex_match :: Match where
  "ex_match = \<lparr>left_id = ''A1'', right_ids = [''B1''], rule = M0_REFERENCE, score = Dec False 10 (-1),
     amount_residual = Dec False 2 0, date_gap_days = 0\<rparr>"

definition ex_breaks :: "Reject list" where
  "ex_breaks =
     [\<lparr>rej_left_id = ''A2'', rej_right_id = Some ''B1'', reason = LOST_TO_BETTER_CANDIDATE\<rparr>,
      \<lparr>rej_left_id = ''A2'', rej_right_id = Some ''B2'', reason = AMOUNT_OUT_OF_TOLERANCE\<rparr>]"

lemma ex_m0: "m0_reference [A1, A2] [B1, B2] default_tolerance = Inr [ex_match]"
  by (simp add: m0_reference_def by_reference_filter truthy_def date_gap_def ex_match_def dec_eval)

lemma ex_m1: "m1_exact [A2] [B2] default_tolerance = Inr []"
  by (simp add: m1_exact_def dec_eval)

lemma ex_limit: "amount_tolerance (Dec False a 0) default_tolerance = Dec False 0 (-2)"
  by (simp add: amount_tolerance_def dec_eval)

lemma ex_m2: "m2_tolerant [A2] [B2] default_tolerance = Inr []"
  by (simp add: m2_tolerant_def ex_limit Let_def) (simp add: dec_eval)

lemma ex_m3: "m3_aggregate [A2] [B2] default_tolerance = Inr []"
  by (simp add: m3_aggregate_def date_gap_def)

lemma ex_score: "score_of M1_EXACT DEC_ZERO DEC_ZERO 0 default_tolerance 1 = Inr (Dec False 900000 (-6))"
  by (simp add: score_of_def Let_def) (simp add: DEC_ZERO_def SIZE_PENALTY_def QUANTUM_EXP_def dec_eval)

lemma ex_m1_hit: "m1_exact [A2] [B3] default_tolerance =
    Inr [\<lparr>left_id = ''A2'', right_ids = [''B3''], rule = M1_EXACT, score = Dec False 900000 (-6),
          amount_residual = DEC_ZERO, date_gap_days = 0\<rparr>]"
  by (simp add: m1_exact_def date_gap_def ex_score) (simp add: dec_eval)

lemma ex_block:
  "reconcile_block [A1, A2] [B2, B1] default_tolerance empty_acc =
     Inr \<lparr>acc_matches = [ex_match], acc_rejects = ex_breaks,
          acc_counters = [''matched_M0_REFERENCE'' \<mapsto> 1, ''candidates_evaluated'' \<mapsto> 1,
            ''unmatched_left'' \<mapsto> 1, ''unmatched_right'' \<mapsto> 1]\<rparr>"
  by (simp add: reconcile_block_def rule_ids_def ex_m0 ex_m1 ex_m2 ex_m3 select_candidates_def
      take_candidate_def audit_unmatched_def audit_left_def audit_right_def pair_reject_reason_def
      ex_limit ex_match_def ex_breaks_def empty_acc_def Let_def)
    (simp add: dec_eval count_add_def count_get_def)

definition ex_result :: MatchResult where
  "ex_result = \<lparr>matches = [ex_match], rejects = ex_breaks,
     counters = [''records_left'' \<mapsto> 2, ''records_right'' \<mapsto> 2, ''blocks'' \<mapsto> 1,
       ''matched_M0_REFERENCE'' \<mapsto> 1, ''candidates_evaluated'' \<mapsto> 1,
            ''unmatched_left'' \<mapsto> 1, ''unmatched_right'' \<mapsto> 1],
     ruleset_id = tolerance_ruleset_id id default_tolerance\<rparr>"

lemma ex_keys: "block_keys [A1, A2] [B2, B1] = [[''ACC'']]"
  by (simp add: block_keys_def make_blocks_def add_left_def add_right_def block_get_def)

lemma ex_run: "reconcile id [A1, A2] [B2, B1] (Some default_tolerance) = Inr ex_result"
  by (simp add: reconcile_blocks ex_keys block_run_def ex_block tol_or_default_def merged_result_def
      ex_result_def counters_init_def) (rule ext, simp add: merge_counter_def count_get_def)

lemma ex_result_sel [simp]:
  "matches ex_result = [ex_match]" "rejects ex_result = ex_breaks"
  by (simp_all add: ex_result_def)

lemma ex_match_sel [simp]:
  "left_id ex_match = ''A1''" "right_ids ex_match = [''B1'']" "rule ex_match = M0_REFERENCE"
  "score ex_match = Dec False 10 (-1)"
  by (simp_all add: ex_match_def)

section \<open>The properties at the run\<close>

theorem stricter_rule_scores_higher_witness:
  "m0_reference [A1, A2] [B1, B2] default_tolerance = Inr [ex_match]
   \<and> m1_exact [A2] [B3] default_tolerance =
       Inr [\<lparr>left_id = ''A2'', right_ids = [''B3''], rule = M1_EXACT, score = Dec False 900000 (-6),
             amount_residual = DEC_ZERO, date_gap_days = 0\<rparr>]
   \<and> dec_val (Dec False 900000 (-6)) < dec_val (score ex_match)"
  using stricter_rule_scores_higher [of M0_REFERENCE "[A1, A2]" "[B1, B2]" default_tolerance "[ex_match]" ex_match
      M1_EXACT "[A2]" "[B3]" default_tolerance _ "hd (projr (m1_exact [A2] [B3] default_tolerance))"]
    ex_m0 ex_m1_hit
  by (simp add: less_RuleId_def)


theorem matches_sound_witness:
  "\<exists>l \<in> set [A1, A2]. \<exists>combo.
     subseq combo (sort_key rec_id (filter (\<lambda>r. blocking_key r = blocking_key l) [B2, B1]))
     \<and> accepts M0_REFERENCE default_tolerance l combo
     \<and> proposes M0_REFERENCE default_tolerance l combo ex_match"
  using matches_sound [OF ex_run, of ex_match] by simp

theorem records_used_once_witness:
  "distinct (map left_id [ex_match]) \<and> distinct (concat (map right_ids [ex_match]))"
  using records_used_once [OF ex_run] by simp

lemma ex_m1_proposal: "proposes M1_EXACT default_tolerance A2 [B3]
    \<lparr>left_id = ''A2'', right_ids = [''B3''], rule = M1_EXACT, score = Dec False 900000 (-6),
     amount_residual = DEC_ZERO, date_gap_days = 0\<rparr>"
  by (simp add: proposes_def ex_score date_gap_def)

lemma ex_m0_proposal: "proposes M0_REFERENCE default_tolerance A1 [B1] ex_match"
  by (simp add: proposes_def ex_match_def date_gap_def) (simp add: dec_eval)

theorem no_better_pairing_left_witness:
  "\<exists>m \<in> set [ex_match].
     (left_id m = ''A1'' \<or> set (right_ids m) \<inter> rec_id ` set [B1] \<noteq> {})
     \<and> (rule m < M0_REFERENCE
        \<or> rule m = M0_REFERENCE \<and> candidate_order m \<le> candidate_order ex_match)"
  using no_better_pairing_left [OF ex_run, of A1 "[B1]" M0_REFERENCE ex_match] ex_m0_proposal
  by (simp add: truthy_def)

theorem matched_or_justified_witness:
  "((\<exists>m \<in> set (matches ex_result). left_id m = rec_id A1) \<longleftrightarrow>
     \<not> (\<exists>x \<in> set (rejects ex_result). rej_left_id x = rec_id A1))
   \<and> ((\<exists>m \<in> set (matches ex_result). left_id m = rec_id A2) \<longleftrightarrow>
     \<not> (\<exists>x \<in> set (rejects ex_result). rej_left_id x = rec_id A2))"
  using matched_or_justified [OF ex_run, of A1] matched_or_justified [OF ex_run, of A2] by simp

theorem every_pair_has_one_reason_witness:
  "filter (\<lambda>x. rej_left_id x = ''A2'' \<and> rej_right_id x = Some ''B2'') (rejects ex_result) =
     [\<lparr>rej_left_id = ''A2'', rej_right_id = Some ''B2'',
       reason = break_reason default_tolerance [ex_match] A2 B2\<rparr>]
   \<and> break_reason default_tolerance [ex_match] A2 B2 = AMOUNT_OUT_OF_TOLERANCE
   \<and> \<not> within_tolerance default_tolerance A2 (dec_sub (amount A2) (amount B2))"
proof -
  have "break_reason default_tolerance [ex_match] A2 B2 = AMOUNT_OUT_OF_TOLERANCE"
    by (simp add: break_reason_def in_window_def)
  then show ?thesis using every_pair_has_one_reason [OF ex_run, of A2 B2] by simp
qed

theorem counters_account_for_all_witness:
  "int (length (matches ex_result)) + count_get (counters ex_result) ''unmatched_left'' = 2
   \<and> int (length (concat (map right_ids (matches ex_result))))
       + count_get (counters ex_result) ''unmatched_right'' = 2"
  using counters_account_for_all [OF ex_run] by simp


text \<open>A block that admits no candidate at all.\<close>

definition tight :: Tolerance where
  "tight = default_tolerance\<lparr>max_block_candidates := 0\<rparr>"

lemma tight_sel [simp]:
  "amount_abs tight = Dec False 0 (-2)" "amount_rel tight = Dec False 0 0"
  "date_days tight = 0" "max_aggregate_size tight = 3" "max_block_candidates tight = 0"
  by (simp_all add: tight_def)

lemma ex_tight_block:
  "reconcile_block [A2] [B2] tight empty_acc =
     Inr \<lparr>acc_matches = [],
          acc_rejects = [\<lparr>rej_left_id = ''A2'', rej_right_id = None, reason = BLOCK_TOO_LARGE\<rparr>],
          acc_counters = [''candidates_evaluated'' \<mapsto> 0, ''unmatched_left'' \<mapsto> 1, ''manual_review'' \<mapsto> 1,
            ''unmatched_right'' \<mapsto> 1]\<rparr>"
proof -
  have "m0_reference [A2] [B2] tight = Inr []"
    by (simp add: m0_reference_def truthy_def)
  moreover have "m1_exact [A2] [B2] tight = Inr []"
    by (simp add: m1_exact_def dec_eval)
  moreover have "m2_tolerant [A2] [B2] tight = Inr []"
    by (simp add: m2_tolerant_def amount_tolerance_def Let_def) (simp add: dec_eval)
  ultimately show ?thesis
    by (simp add: reconcile_block_def rule_ids_def select_candidates_def audit_unmatched_def
        audit_left_def audit_right_def empty_acc_def Let_def) (simp add: count_add_def count_get_def)
qed

lemma ex_tight_run:
  "\<exists>res. reconcile id [A2] [B2] (Some tight) = Inr res \<and> matches res = []"
proof -
  have "block_keys [A2] [B2] = [[''ACC'']]"
    by (simp add: block_keys_def make_blocks_def add_left_def add_right_def block_get_def)
  then show ?thesis
    by (simp add: reconcile_blocks block_run_def ex_tight_block tol_or_default_def merged_result_def)
qed

theorem oversized_block_is_reported_witness:
  "\<exists>res. reconcile id [A2] [B2] (Some tight) = Inr res
    \<and> filter (\<lambda>x. rej_left_id x = ''A2'') (rejects res)
        = [\<lparr>rej_left_id = ''A2'', rej_right_id = None, reason = BLOCK_TOO_LARGE\<rparr>]"
proof -
  obtain res where res: "reconcile id [A2] [B2] (Some tight) = Inr res" "matches res = []"
    using ex_tight_run by blast
  from oversized_block_is_reported [OF res(1), of A2 "[B2]"] res show ?thesis by simp
qed

end
