(* ===== verification/Stream.thy ===== *)
theory Stream
  imports Engine_Props
begin

text \<open>
  Stream semantics (\<open>stream.py\<close>): a journal of arrivals and progress signals is replayed
  through the engine, and its successive outputs become an append-only history of
  provisional and final decisions.

  The object \<open>_Replay\<close> is the record \<open>Replay\<close> (what changes) beside the record \<open>Settings\<close>
  (what \<open>__init__\<close> fixes).  A block's pools are dictionaries in insertion order, one per
  side.  \<open>V\<close> is the version string of the installed package.  A date that leaves the
  calendar of Python's \<open>date\<close> (years 1 to 9999) is not modelled.
\<close>

section \<open>Data\<close>

definition LEFT :: string where "LEFT = ''left''"
definition RIGHT :: string where "RIGHT = ''right''"
definition SIDES :: "string list" where "SIDES = [LEFT, RIGHT]"
definition OTHER :: "string \<Rightarrow> string" where "OTHER s = (if s = LEFT then RIGHT else LEFT)"

type_synonym BusinessKey = "string \<times> string"

definition LATE :: string where "LATE = ''LATE''"
definition REFERENCE_AFTER_FINAL :: string where "REFERENCE_AFTER_FINAL = ''REFERENCE_AFTER_FINAL''"
definition AS_COUNTERPART :: string where "AS_COUNTERPART = ''AS_COUNTERPART''"

text \<open>A \<open>datetime\<close>: microseconds of local time since the ordinal day 0, and the UTC offset
  when it has a timezone.\<close>

record DateTime =
  local_us :: int
  utcoffset_us :: "int option"

record Arrival =
  arr_side :: string
  arr_record :: Record
  arr_source :: string
  captured_at :: "DateTime option"

record Progress =
  prog_side :: string
  until :: date

text \<open>\<open>EOther\<close> stands for any object that is neither.\<close>

datatype Entry = EArrival Arrival | EProgress Progress | EOther

datatype Status = PROVISIONAL | FINAL | SUPERSEDED

datatype DecisionType = MATCH | BREAK

fun type_value :: "DecisionType \<Rightarrow> string" where
  "type_value MATCH = ''MATCH''"
| "type_value BREAK = ''BREAK''"

record StreamConfig =
  tolerance :: Tolerance
  lateness_days :: int
  reference_horizon_days :: "int option"
  max_component_days :: "int option"

text \<open>\<open>str\<close> of an \<open>int | None\<close>.\<close>

definition str_opt_int :: "int option \<Rightarrow> string" where
  "str_opt_int x = (case x of None \<Rightarrow> ''None'' | Some i \<Rightarrow> str_int i)"

definition stream_ruleset_id :: "(string \<Rightarrow> string) \<Rightarrow> StreamConfig \<Rightarrow> string" where
  "stream_ruleset_id H cfg =
     digest H [tolerance_ruleset_id H (tolerance cfg), ''lateness'', str_int (lateness_days cfg),
               ''reference_horizon'', str_opt_int (reference_horizon_days cfg),
               ''max_component'', str_opt_int (max_component_days cfg)]"

record Decision =
  decision_id :: string
  business_key :: BusinessKey
  chain_version :: int
  dstatus :: Status
  decision_type :: DecisionType
  input_ids :: "string list"
  dreason :: string
  druleset_id :: string
  engine_version :: string
  window_end :: date
  decided_at :: int
  final_at :: "int option"
  supersedes :: "string option"
  forced :: bool

record StreamResult =
  decisions :: "Decision list"
  duplicates :: int

definition result_status :: "StreamResult \<Rightarrow> Decision \<Rightarrow> Status" where
  "result_status res d =
     (if \<exists>x \<in> set (decisions res). supersedes x = Some (decision_id d) then SUPERSEDED else dstatus d)"

definition effective :: "StreamResult \<Rightarrow> int option \<Rightarrow> (BusinessKey \<times> Decision) list" where
  "effective res u =
     fold (\<lambda>d st. if (case u of None \<Rightarrow> True | Some p \<Rightarrow> decided_at d \<le> p)
                  then dict_put (business_key d) d st else st) (decisions res) []"

record Proposal =
  p_type :: DecisionType
  p_inputs :: "string list"
  p_reason :: string
  p_window_end :: date

definition content_fingerprint ::
    "(string \<Rightarrow> string) \<Rightarrow> DecisionType \<Rightarrow> string list \<Rightarrow> string \<Rightarrow> string" where
  "content_fingerprint H ty ids rs = digest H [type_value ty, join '','' ids, rs]"

definition proposal_fingerprint :: "(string \<Rightarrow> string) \<Rightarrow> Proposal \<Rightarrow> string" where
  "proposal_fingerprint H p = content_fingerprint H (p_type p) (p_inputs p) (p_reason p)"

definition decision_fingerprint :: "(string \<Rightarrow> string) \<Rightarrow> Decision \<Rightarrow> string" where
  "decision_fingerprint H d = content_fingerprint H (decision_type d) (input_ids d) (dreason d)"

record Block =
  pool :: "string \<Rightarrow> (string \<times> Record) list"
  latest :: "string \<Rightarrow> date option"
  final_references :: "string \<Rightarrow> string set"

definition empty_block :: Block where
  "empty_block = \<lparr>pool = (\<lambda>_. []), latest = (\<lambda>_. None), final_references = (\<lambda>_. {})\<rparr>"

record Settings =
  s_tol :: Tolerance
  s_reference_days :: int
  s_lateness :: int
  s_max_component :: "int option"
  s_ruleset :: string
  s_version :: string

record Replay =
  seen :: "BusinessKey \<rightharpoonup> Record"
  r_duplicates :: int
  progress :: "string \<Rightarrow> date option"
  r_blocks :: "(BlockKey \<times> Block) list"
  current :: "BusinessKey \<rightharpoonup> Decision"
  r_decisions :: "Decision list"
  position :: int

section \<open>Set-up\<close>

definition check_days :: "string \<Rightarrow> int \<Rightarrow> int \<Rightarrow> unit result" where
  "check_days name v minimum = checkE (v \<ge> minimum) (ValueError name)"

definition check_side :: "string \<Rightarrow> unit result" where
  "check_side s = checkE (s \<in> set SIDES) (ValueError ''side'')"

definition init_settings ::
    "(string \<Rightarrow> string) \<Rightarrow> string \<Rightarrow> StreamConfig \<Rightarrow> Settings result" where
  "init_settings H V cfg =
     bindE (check_days ''lateness_days'' (lateness_days cfg) 0) (\<lambda>_.
     let tol = tolerance cfg;
         reference_days = (case reference_horizon_days cfg of None \<Rightarrow> date_days tol | Some d \<Rightarrow> d) in
     bindE (check_days ''reference_horizon_days'' reference_days (date_days tol)) (\<lambda>_.
     bindE (case max_component_days cfg of None \<Rightarrow> Inr ()
            | Some d \<Rightarrow> check_days ''max_component_days'' d 0) (\<lambda>_.
     Inr \<lparr>s_tol = tol, s_reference_days = reference_days, s_lateness = lateness_days cfg,
          s_max_component = max_component_days cfg, s_ruleset = stream_ruleset_id H cfg,
          s_version = V\<rparr>)))"

definition init_replay :: Replay where
  "init_replay = \<lparr>seen = Map.empty, r_duplicates = 0, progress = (\<lambda>_. None), r_blocks = [],
     current = Map.empty, r_decisions = [], position = -1\<rparr>"

definition horizon :: "Settings \<Rightarrow> Record \<Rightarrow> date" where
  "horizon S r =
     value_date r + (if truthy (reference r) then s_reference_days S else date_days (s_tol S))"

section \<open>Emission\<close>

definition emit ::
    "(string \<Rightarrow> string) \<Rightarrow> Settings \<Rightarrow> BusinessKey \<Rightarrow> Proposal \<Rightarrow> Status \<Rightarrow> bool \<Rightarrow> Replay \<Rightarrow> Replay" where
  "emit H S key p status frc st =
     (let previous = current st key;
          version = (case previous of None \<Rightarrow> 1 | Some d \<Rightarrow> chain_version d + 1);
          did = (if status = FINAL
                 then digest H [fst key, snd key, proposal_fingerprint H p,
                                if frc then ''FORCED'' else ''FINAL'']
                 else digest H [fst key, snd key, str_int version, proposal_fingerprint H p]);
          d = \<lparr>decision_id = did, business_key = key, chain_version = version, dstatus = status,
               decision_type = p_type p, input_ids = p_inputs p, dreason = p_reason p,
               druleset_id = s_ruleset S, engine_version = s_version S,
               window_end = p_window_end p, decided_at = position st,
               final_at = (if status = FINAL then Some (position st) else None),
               supersedes = (case previous of None \<Rightarrow> None | Some x \<Rightarrow> Some (decision_id x)),
               forced = frc\<rparr> in
      st\<lparr>current := (current st)(key \<mapsto> d), r_decisions := r_decisions st @ [d]\<rparr>)"

section \<open>Evaluation\<close>

type_synonym proposals = "(BusinessKey \<times> Proposal) list"

text \<open>The proposals of one match: its left record's, then its right records'.\<close>

definition match_proposals ::
    "Settings \<Rightarrow> (string \<times> Record) list \<Rightarrow> (string \<times> Record) list \<Rightarrow> Match \<Rightarrow> proposals \<Rightarrow> proposals result" where
  "match_proposals S lefts rights m ps =
     (let inputs = left_id m # right_ids m in
      bindE (dict_getE lefts (left_id m)) (\<lambda>l.
      bindE (mapE (dict_getE rights) (right_ids m)) (\<lambda>rs.
      let we = max_of (horizon S l # map (horizon S) rs);
          ps1 = dict_put (LEFT, left_id m) \<lparr>p_type = MATCH, p_inputs = inputs,
                  p_reason = rule_name (rule m), p_window_end = we\<rparr> ps in
      Inr (fold (\<lambda>x. dict_put (RIGHT, x) \<lparr>p_type = MATCH, p_inputs = inputs,
                  p_reason = AS_COUNTERPART, p_window_end = we\<rparr>) (right_ids m) ps1))))"

text \<open>\<open>reasons.setdefault(key, set()).add(reason)\<close>\<close>

definition add_reason ::
    "BusinessKey \<Rightarrow> RejectReason \<Rightarrow> (BusinessKey \<rightharpoonup> RejectReason set) \<Rightarrow> (BusinessKey \<rightharpoonup> RejectReason set)" where
  "add_reason k x d = d(k \<mapsto> insert x (case d k of None \<Rightarrow> {} | Some s \<Rightarrow> s))"

definition reject_reasons ::
    "Settings \<Rightarrow> (string \<times> Record) list \<Rightarrow> (string \<times> Record) list \<Rightarrow> (BusinessKey \<rightharpoonup> RejectReason set)
      \<Rightarrow> Reject \<Rightarrow> (BusinessKey \<rightharpoonup> RejectReason set) result" where
  "reject_reasons S lefts rights d x =
     (case rej_right_id x of
        None \<Rightarrow> Inr (add_reason (LEFT, rej_left_id x) (reason x) d)
      | Some rid \<Rightarrow>
          bindE (dict_getE lefts (rej_left_id x)) (\<lambda>l.
          bindE (dict_getE rights rid) (\<lambda>r.
          Inr (if \<bar>value_date l - value_date r\<bar> \<le> date_days (s_tol S)
               then add_reason (RIGHT, rid) (reason x)
                      (add_reason (LEFT, rej_left_id x) (reason x) d)
               else d))))"

text \<open>\<open>"+".join(r.name for r in sorted(reasons.get(key, {NO_CANDIDATE})))\<close>\<close>

definition break_text :: "(BusinessKey \<rightharpoonup> RejectReason set) \<Rightarrow> BusinessKey \<Rightarrow> string" where
  "break_text reasons k =
     join ''+'' (map reason_name (sorted_list_of_set
       (case reasons k of None \<Rightarrow> {NO_CANDIDATE} | Some s \<Rightarrow> s)))"

definition break_proposal ::
    "Settings \<Rightarrow> (BusinessKey \<rightharpoonup> RejectReason set) \<Rightarrow> string \<Rightarrow> string \<times> Record \<Rightarrow> proposals \<Rightarrow> proposals" where
  "break_proposal S reasons side ir ps =
     (if map_of ps (side, fst ir) = None
      then dict_put (side, fst ir) \<lparr>p_type = BREAK, p_inputs = [fst ir],
             p_reason = break_text reasons (side, fst ir), p_window_end = horizon S (snd ir)\<rparr> ps
      else ps)"

definition block_proposals ::
    "Settings \<Rightarrow> (string \<times> Record) list \<Rightarrow> (string \<times> Record) list \<Rightarrow> MatchResult \<Rightarrow> proposals result" where
  "block_proposals S lefts rights res =
     bindE (foldE (\<lambda>ps m. match_proposals S lefts rights m ps) [] (matches res)) (\<lambda>ps.
     bindE (foldE (reject_reasons S lefts rights) Map.empty (rejects res)) (\<lambda>reasons.
     Inr (fold (break_proposal S reasons RIGHT) rights
           (fold (break_proposal S reasons LEFT) lefts ps))))"

definition emit_changed ::
    "(string \<Rightarrow> string) \<Rightarrow> Settings \<Rightarrow> proposals \<Rightarrow> Replay \<Rightarrow> BusinessKey \<Rightarrow> Replay result" where
  "emit_changed H S ps st key =
     bindE (dict_getE ps key) (\<lambda>p.
     Inr (if (case current st key of None \<Rightarrow> True
              | Some d \<Rightarrow> decision_fingerprint H d \<noteq> proposal_fingerprint H p)
          then emit H S key p PROVISIONAL False st else st))"

definition evaluate ::
    "(string \<Rightarrow> string) \<Rightarrow> Settings \<Rightarrow> Block \<Rightarrow> Replay \<Rightarrow> Replay result" where
  "evaluate H S blk st =
     (let lefts = pool blk LEFT; rights = pool blk RIGHT in
      bindE (reconcile H (map snd lefts) (map snd rights) (Some (s_tol S))) (\<lambda>res.
      bindE (block_proposals S lefts rights res) (\<lambda>ps.
      foldE (emit_changed H S ps) st (sort (map fst ps)))))"

section \<open>Components\<close>

type_synonym parents = "(BusinessKey \<times> BusinessKey) list"

text \<open>\<open>root\<close>: the recursion is given as many steps as the dictionary has keys.\<close>

fun root :: "nat \<Rightarrow> parents \<Rightarrow> BusinessKey \<Rightarrow> BusinessKey result" where
  "root 0 parent key = Inl RecursionError"
| "root (Suc n) parent key =
     bindE (dict_getE parent key) (\<lambda>p. if p = key then Inr key else root n parent p)"

definition find_root :: "parents \<Rightarrow> BusinessKey \<Rightarrow> BusinessKey result" where
  "find_root parent key = root (length parent) parent key"

definition linked :: "Settings \<Rightarrow> Record \<Rightarrow> Record \<Rightarrow> bool" where
  "linked S l r \<longleftrightarrow> \<bar>value_date l - value_date r\<bar> \<le> date_days (s_tol S)
     \<or> (truthy (reference l) \<and> reference l = reference r)"

definition link_pair ::
    "Settings \<Rightarrow> string \<times> Record \<Rightarrow> parents \<Rightarrow> string \<times> Record \<Rightarrow> parents result" where
  "link_pair S l parent r =
     (if linked S (snd l) (snd r)
      then bindE (find_root parent (LEFT, fst l)) (\<lambda>rl.
           bindE (find_root parent (RIGHT, fst r)) (\<lambda>rr.
           Inr (dict_put rr rl parent)))
      else Inr parent)"

definition init_parent :: "Block \<Rightarrow> parents" where
  "init_parent blk =
     concat (map (\<lambda>side. map (\<lambda>ir. ((side, fst ir), (side, fst ir))) (pool blk side)) SIDES)"

definition link_all :: "Settings \<Rightarrow> Block \<Rightarrow> parents result" where
  "link_all S blk =
     foldE (\<lambda>parent l. foldE (link_pair S l) parent (pool blk RIGHT)) (init_parent blk) (pool blk LEFT)"

text \<open>\<open>groups.setdefault(root(key), []).append(key)\<close>\<close>

definition add_to_group ::
    "parents \<Rightarrow> (BusinessKey \<times> BusinessKey list) list \<Rightarrow> BusinessKey
      \<Rightarrow> (BusinessKey \<times> BusinessKey list) list result" where
  "add_to_group parent groups key =
     bindE (find_root parent key) (\<lambda>r.
     Inr (dict_put r ((case map_of groups r of None \<Rightarrow> [] | Some g \<Rightarrow> g) @ [key]) groups))"

definition components :: "Settings \<Rightarrow> Block \<Rightarrow> BusinessKey list list result" where
  "components S blk =
     bindE (link_all S blk) (\<lambda>parent.
     bindE (foldE (add_to_group parent) [] (sort (map fst parent))) (\<lambda>groups.
     Inr (sort (map snd groups))))"

section \<open>Watermark and finality\<close>

definition side_progress :: "Replay \<Rightarrow> Block \<Rightarrow> string \<Rightarrow> date option" where
  "side_progress st blk side =
     (let known = List.map_filter id [latest blk side, progress st side] in
      if known = [] then None else Some (max_of known))"

definition watermark :: "Settings \<Rightarrow> Replay \<Rightarrow> Block \<Rightarrow> date option" where
  "watermark S st blk =
     (case side_progress st blk LEFT of None \<Rightarrow> None
      | Some a \<Rightarrow> (case side_progress st blk RIGHT of None \<Rightarrow> None
      | Some b \<Rightarrow> Some (min a b - s_lateness S)))"

definition close_component ::
    "Settings \<Rightarrow> Replay \<Rightarrow> Block \<Rightarrow> date \<Rightarrow> BusinessKey list \<Rightarrow> (Decision \<times> bool) list result" where
  "close_component S st blk w keys =
     bindE (mapE (\<lambda>(side, i). dict_getE (pool blk side) i) keys) (\<lambda>records.
     bindE (mapE (\<lambda>k. case current st k of None \<Rightarrow> Inl KeyError | Some d \<Rightarrow> Inr d) keys) (\<lambda>ds.
     Inr (if max_of (map (horizon S) records) < w then map (\<lambda>d. (d, False)) ds
          else if (case s_max_component S of None \<Rightarrow> False
                   | Some days \<Rightarrow> max_of (map value_date records) - min_of (map value_date records) > days)
          then map (\<lambda>d. (d, True)) (filter (\<lambda>d. window_end d < w) ds)
          else [])))"

definition closing :: "Settings \<Rightarrow> Replay \<Rightarrow> Block \<Rightarrow> (Decision \<times> bool) list result" where
  "closing S st blk =
     (case watermark S st blk of None \<Rightarrow> Inr []
      | Some w \<Rightarrow> bindE (components S blk) (collectE (close_component S st blk w)))"

text \<open>The body of the \<open>for\<close> in \<open>_settle\<close>: emit the final decision and withdraw its record.\<close>

definition finalise ::
    "(string \<Rightarrow> string) \<Rightarrow> Settings \<Rightarrow> Block \<times> Replay \<Rightarrow> Decision \<times> bool \<Rightarrow> (Block \<times> Replay) result" where
  "finalise H S bs df =
     (let (blk, st) = bs; (d, frc) = df; (side, i) = business_key d;
          p = \<lparr>p_type = decision_type d, p_inputs = input_ids d, p_reason = dreason d,
               p_window_end = window_end d\<rparr>;
          st' = emit H S (business_key d) p FINAL frc st in
      bindE (dict_getE (pool blk side) i) (\<lambda>r.
      let blk1 = blk\<lparr>pool := (pool blk)(side := dict_del i (pool blk side))\<rparr>;
          blk2 = (if truthy (reference r)
                  then blk1\<lparr>final_references := (final_references blk1)
                         (side := insert (the (reference r)) (final_references blk1 side))\<rparr>
                  else blk1) in
      Inr (blk2, st')))"

fun settle ::
    "nat \<Rightarrow> (string \<Rightarrow> string) \<Rightarrow> Settings \<Rightarrow> Block \<times> Replay \<Rightarrow> (Block \<times> Replay) result" where
  "settle n H S (blk, st) =
     bindE (closing S st blk) (\<lambda>ds.
     if ds = [] then Inr (blk, st)
     else case n of 0 \<Rightarrow> Inl OutOfFuel
       | Suc k \<Rightarrow> bindE (foldE (finalise H S) (blk, st) ds) (\<lambda>(blk', st').
           if pool blk' LEFT \<noteq> [] \<or> pool blk' RIGHT \<noteq> []
           then bindE (evaluate H S blk' st') (\<lambda>st''. settle k H S (blk', st''))
           else settle k H S (blk', st')))"

text \<open>Each round of \<open>settle\<close> withdraws at least one record: as many rounds as records.\<close>

definition pool_size :: "Block \<Rightarrow> nat" where
  "pool_size blk = length (pool blk LEFT) + length (pool blk RIGHT)"

definition settle_block ::
    "(string \<Rightarrow> string) \<Rightarrow> Settings \<Rightarrow> BlockKey \<Rightarrow> Replay \<Rightarrow> Replay result" where
  "settle_block H S k st =
     (case map_of (r_blocks st) k of None \<Rightarrow> Inl KeyError
      | Some blk \<Rightarrow> bindE (settle (pool_size blk) H S (blk, st)) (\<lambda>(blk', st').
          Inr (st'\<lparr>r_blocks := dict_put k blk' (r_blocks st')\<rparr>)))"

section \<open>The journal\<close>

text \<open>\<open>self.seen[key] != record\<close>: dataclass equality, amounts by value.\<close>

definition record_eq :: "Record \<Rightarrow> Record \<Rightarrow> bool" where
  "record_eq a b \<longleftrightarrow> rec_id a = rec_id b \<and> account a = account b \<and> dec_eq (amount a) (amount b)
     \<and> value_date a = value_date b \<and> reference a = reference b \<and> currency a = currency b"

definition refusal_reason :: "Settings \<Rightarrow> Replay \<Rightarrow> Block \<Rightarrow> string \<Rightarrow> Record \<Rightarrow> string option" where
  "refusal_reason S st blk side r =
     (if (case watermark S st blk of None \<Rightarrow> False | Some w \<Rightarrow> value_date r < w) then Some LATE
      else if (case reference r of None \<Rightarrow> False
               | Some x \<Rightarrow> x \<in> final_references blk (OTHER side)) then Some REFERENCE_AFTER_FINAL
      else None)"

definition admit :: "string \<Rightarrow> Record \<Rightarrow> Block \<Rightarrow> Block" where
  "admit side r blk =
     blk\<lparr>pool := (pool blk)(side := dict_put (rec_id r) r (pool blk side)),
         latest := (latest blk)(side := Some (case latest blk side of
           None \<Rightarrow> value_date r | Some x \<Rightarrow> max x (value_date r)))\<rparr>"

definition arrival ::
    "(string \<Rightarrow> string) \<Rightarrow> Settings \<Rightarrow> Arrival \<Rightarrow> Replay \<Rightarrow> Replay result" where
  "arrival H S a st =
     bindE (check_side (arr_side a)) (\<lambda>_.
     let side = arr_side a; r = arr_record a; key = (side, rec_id r) in
     case seen st key of
       Some old \<Rightarrow> if \<not> record_eq old r then Inl (ValueError ''delivered with different content'')
                   else Inr (st\<lparr>r_duplicates := r_duplicates st + 1\<rparr>)
     | None \<Rightarrow>
       let bk = blocking_key r;
           blk = (case map_of (r_blocks st) bk of None \<Rightarrow> empty_block | Some b \<Rightarrow> b);
           st1 = st\<lparr>seen := (seen st)(key \<mapsto> r), position := position st + 1,
                    r_blocks := dict_put bk blk (r_blocks st)\<rparr> in
       case refusal_reason S st1 blk side r of
         Some why \<Rightarrow>
           Inr (emit H S key \<lparr>p_type = BREAK, p_inputs = [rec_id r], p_reason = why,
                  p_window_end = horizon S r\<rparr> FINAL False st1)
       | None \<Rightarrow>
           let blk' = admit side r blk;
               st2 = st1\<lparr>r_blocks := dict_put bk blk' (r_blocks st1)\<rparr> in
           bindE (evaluate H S blk' st2) (\<lambda>st3. settle_block H S bk st3))"

definition feed :: "(string \<Rightarrow> string) \<Rightarrow> Settings \<Rightarrow> Replay \<Rightarrow> Entry \<Rightarrow> Replay result" where
  "feed H S st e =
     (case e of
        EArrival a \<Rightarrow> arrival H S a st
      | EProgress p \<Rightarrow>
          bindE (check_side (prog_side p)) (\<lambda>_.
          let st1 = st\<lparr>position := position st + 1,
                       progress := (progress st)(prog_side p := Some (case progress st (prog_side p) of
                         None \<Rightarrow> until p | Some x \<Rightarrow> max x (until p)))\<rparr> in
          foldE (\<lambda>s k. settle_block H S k s) st1 (sort (map fst (r_blocks st1))))
      | EOther \<Rightarrow> Inl (ValueError ''unknown journal entry''))"

definition replay ::
    "(string \<Rightarrow> string) \<Rightarrow> string \<Rightarrow> Entry list \<Rightarrow> StreamConfig \<Rightarrow> StreamResult result" where
  "replay H V journal cfg =
     bindE (init_settings H V cfg) (\<lambda>S.
     bindE (foldE (feed H S) init_replay journal) (\<lambda>st.
     Inr \<lparr>decisions = r_decisions st, duplicates = r_duplicates st\<rparr>))"

end
