(* ===== verification/Components.thy ===== *)
theory Components
  imports Stream
begin

text \<open>
  The components of a block (\<open>_Replay._components\<close>): the parent dictionary is a forest whose
  roots name the classes of the links made so far, the recursion of \<open>root\<close> ends within as
  many steps as there are keys, and the groups returned are the connected components of
  the open records, each once.
\<close>

section \<open>Connected by links\<close>

definition conn :: "('a \<times> 'a) set \<Rightarrow> ('a \<times> 'a) set" where
  "conn F = (F \<union> F\<inverse>)\<^sup>*"

lemma conn_refl [simp]: "(x, x) \<in> conn F"
  by (simp add: conn_def)

lemma conn_sym: "(x, y) \<in> conn F \<Longrightarrow> (y, x) \<in> conn F"
proof -
  have "sym (F \<union> F\<inverse>)" by (auto simp: sym_def)
  then show "(x, y) \<in> conn F \<Longrightarrow> (y, x) \<in> conn F"
    unfolding conn_def by (metis sym_rtrancl symD)
qed

lemma conn_trans: "(x, y) \<in> conn F \<Longrightarrow> (y, z) \<in> conn F \<Longrightarrow> (x, z) \<in> conn F"
  unfolding conn_def by (rule rtrancl_trans)

lemma conn_insert:
  "(x, y) \<in> conn (insert (a, b) F) \<longleftrightarrow> (x, y) \<in> conn F
     \<or> (x, a) \<in> conn F \<and> (b, y) \<in> conn F \<or> (x, b) \<in> conn F \<and> (a, y) \<in> conn F"
proof -
  have "insert (a, b) F \<union> (insert (a, b) F)\<inverse> = insert (a, b) (insert (b, a) (F \<union> F\<inverse>))" by auto
  then have eq: "conn (insert (a, b) F) = (insert (a, b) (insert (b, a) (F \<union> F\<inverse>)))\<^sup>*"
    by (simp add: conn_def)
  have tr: "(p, q) \<in> (F \<union> F\<inverse>)\<^sup>* \<Longrightarrow> (q, r) \<in> (F \<union> F\<inverse>)\<^sup>* \<Longrightarrow> (p, r) \<in> (F \<union> F\<inverse>)\<^sup>*" for p q r
    by (rule rtrancl_trans)
  show ?thesis
    unfolding eq unfolding rtrancl_insert conn_def by (auto intro: tr)
qed

section \<open>Forests\<close>

text \<open>\<open>rep\<close> names the root of each key, and \<open>dep\<close> its distance from it.\<close>

definition forest ::
    "(BusinessKey \<times> BusinessKey) set \<Rightarrow> parents \<Rightarrow> (BusinessKey \<Rightarrow> BusinessKey) \<Rightarrow> (BusinessKey \<Rightarrow> nat) \<Rightarrow> bool" where
  "forest F parent rep dep \<longleftrightarrow>
     distinct (map fst parent)
     \<and> (\<forall>k \<in> fst ` set parent. rep k \<in> fst ` set parent \<and> rep (rep k) = rep k
          \<and> dep (rep k) = 0 \<and> dep k < card {x \<in> fst ` set parent. rep x = rep k})
     \<and> (\<forall>k \<in> fst ` set parent. \<exists>p \<in> fst ` set parent. map_of parent k = Some p \<and> rep p = rep k
          \<and> (p = k \<longleftrightarrow> k = rep k) \<and> (p \<noteq> k \<longrightarrow> dep p < dep k))
     \<and> (\<forall>x \<in> fst ` set parent. \<forall>y \<in> fst ` set parent. rep x = rep y \<longleftrightarrow> (x, y) \<in> conn F)"

lemma forestD:
  assumes "forest F parent rep dep" "k \<in> fst ` set parent"
  shows "rep k \<in> fst ` set parent" "rep (rep k) = rep k"
    "dep k < card {x \<in> fst ` set parent. rep x = rep k}"
    "\<exists>p \<in> fst ` set parent. map_of parent k = Some p \<and> rep p = rep k
       \<and> (p = k \<longleftrightarrow> k = rep k) \<and> (p \<noteq> k \<longrightarrow> dep p < dep k)"
    "y \<in> fst ` set parent \<Longrightarrow> rep k = rep y \<longleftrightarrow> (k, y) \<in> conn F"
    "dep (rep k) = 0"
proof -
  note f = assms(1) [unfolded forest_def]
  show "rep k \<in> fst ` set parent" "rep (rep k) = rep k" "dep (rep k) = 0"
    "dep k < card {x \<in> fst ` set parent. rep x = rep k}"
    using bspec [OF conjunct1 [OF conjunct2 [OF f]] assms(2)] by blast+
  show "\<exists>p \<in> fst ` set parent. map_of parent k = Some p \<and> rep p = rep k
       \<and> (p = k \<longleftrightarrow> k = rep k) \<and> (p \<noteq> k \<longrightarrow> dep p < dep k)"
    using f assms(2) by blast
  show "y \<in> fst ` set parent \<Longrightarrow> rep k = rep y \<longleftrightarrow> (k, y) \<in> conn F"
    using f assms(2) by blast
qed

lemma root_forest:
  assumes "forest F parent rep dep" "k \<in> fst ` set parent" "dep k < n"
  shows "root n parent k = Inr (rep k)"
  using assms(2,3)
proof (induction n arbitrary: k)
  case (Suc n)
  from forestD(4) [OF assms(1) Suc.prems(1)] obtain p
    where p: "p \<in> fst ` set parent" "map_of parent k = Some p" "rep p = rep k"
      "p = k \<longleftrightarrow> k = rep k" "p \<noteq> k \<Longrightarrow> dep p < dep k" by blast
  show ?case
  proof (cases "p = k")
    case False
    then have "root n parent p = Inr (rep k)" using Suc p by auto
    with False p show ?thesis by (simp add: dict_getE_def)
  qed (use p in \<open>simp add: dict_getE_def\<close>)
qed simp

lemma find_root_forest:
  assumes "forest F parent rep dep" "k \<in> fst ` set parent"
  shows "find_root parent k = Inr (rep k)"
proof -
  have "card {x \<in> fst ` set parent. rep x = rep k} \<le> card (fst ` set parent)"
    by (intro card_mono) auto
  also have "\<dots> \<le> length parent" by (metis card_length length_map list.set_map)
  finally show ?thesis
    unfolding find_root_def using assms forestD(3) [OF assms] by (intro root_forest) auto
qed

text \<open>Hanging one root below another joins two classes.\<close>

lemma forest_union:
  assumes f: "forest F parent rep dep" and a: "a \<in> fst ` set parent" and b: "b \<in> fst ` set parent"
    and ne: "rep a \<noteq> rep b"
  defines "rep' \<equiv> \<lambda>k. if rep k = rep b then rep a else rep k"
    and "dep' \<equiv> \<lambda>k. if rep k = rep b then Suc (dep k) else dep k"
  shows "forest (insert (a, b) F) (dict_put (rep b) (rep a) parent) rep' dep'"
proof -
  let ?K = "fst ` set parent"
  let ?parent' = "dict_put (rep b) (rep a) parent"
  have K: "fst ` set ?parent' = ?K" using forestD(1) [OF f b] by (simp add: insert_absorb)
  have ra: "rep (rep a) = rep a" "rep a \<in> ?K" using forestD(1,2) [OF f a] by auto
  have grow: "{x \<in> ?K. rep x = rep k} \<subseteq> {x \<in> ?K. rep' x = rep' k}" for k by (auto simp: rep'_def)
  have fin: "finite {x \<in> ?K. P x}" for P by simp
  have size: "dep' k < card {x \<in> ?K. rep' x = rep' k}" if k: "k \<in> ?K" for k
  proof (cases "rep k = rep b")
    case True
    have "a \<notin> {x \<in> ?K. rep x = rep k}" "a \<in> {x \<in> ?K. rep' x = rep' k}"
      using ne True a by (auto simp: rep'_def)
    then have "{x \<in> ?K. rep x = rep k} \<subset> {x \<in> ?K. rep' x = rep' k}" using grow by blast
    then have "card {x \<in> ?K. rep x = rep k} < card {x \<in> ?K. rep' x = rep' k}"
      by (rule psubset_card_mono [OF fin])
    with forestD(3) [OF f k] True show ?thesis by (simp add: dep'_def)
  next
    case False
    with forestD(3) [OF f k] card_mono [OF fin grow] show ?thesis
      by (simp add: dep'_def) (meson order_less_le_trans)
  qed
  have step: "\<exists>p \<in> ?K. map_of ?parent' k = Some p \<and> rep' p = rep' k
       \<and> (p = k \<longleftrightarrow> k = rep' k) \<and> (p \<noteq> k \<longrightarrow> dep' p < dep' k)" if k: "k \<in> ?K" for k
  proof (cases "k = rep b")
    case True
    have "rep k = rep b" using True forestD(2) [OF f b] by simp
    moreover have "dep (rep a) = 0" using forestD(6) [OF f a] .
    ultimately show ?thesis
      using True ra ne by (intro bexI [of _ "rep a"]) (auto simp: rep'_def dep'_def)
  next
    case False
    from forestD(4) [OF f k] obtain p where "p \<in> ?K" "map_of parent k = Some p" "rep p = rep k"
      "p = k \<longleftrightarrow> k = rep k" "p \<noteq> k \<Longrightarrow> dep p < dep k" by blast
    with False show ?thesis
      using forestD(2) [OF f k] ra ne by (intro bexI [of _ p]) (auto simp: rep'_def dep'_def)
  qed
  have conn: "rep' x = rep' y \<longleftrightarrow> (x, y) \<in> conn (insert (a, b) F)" if "x \<in> ?K" "y \<in> ?K" for x y
    unfolding conn_insert forestD(5) [OF f that(1) that(2), symmetric]
      forestD(5) [OF f that(1) a, symmetric] forestD(5) [OF f that(1) b, symmetric]
      forestD(5) [OF f a that(2), symmetric] forestD(5) [OF f b that(2), symmetric] rep'_def
    by (cases "rep x = rep b"; cases "rep y = rep b") (use ne in auto)
  have reps: "rep' k \<in> ?K" "rep' (rep' k) = rep' k" "dep' (rep' k) = 0" if k: "k \<in> ?K" for k
    using forestD(1,2,6) [OF f k] forestD(6) [OF f a] ra ne by (auto simp: rep'_def dep'_def)
  have "distinct (map fst ?parent')" using f by (simp add: forest_def)
  with reps size step conn show ?thesis unfolding forest_def K by simp
qed

section \<open>Linking\<close>

definition pool_keys :: "Block \<Rightarrow> BusinessKey set" where
  "pool_keys blk = (\<Union>side \<in> set SIDES. Pair side ` fst ` set (pool blk side))"

definition links :: "Settings \<Rightarrow> Block \<Rightarrow> (BusinessKey \<times> BusinessKey) set" where
  "links S blk = {((LEFT, i), (RIGHT, j)) | i j l r.
     (i, l) \<in> set (pool blk LEFT) \<and> (j, r) \<in> set (pool blk RIGHT) \<and> linked S l r}"

definition is_forest :: "BusinessKey set \<Rightarrow> (BusinessKey \<times> BusinessKey) set \<Rightarrow> parents \<Rightarrow> bool" where
  "is_forest K F parent \<longleftrightarrow> fst ` set parent = K \<and> (\<exists>rep dep. forest F parent rep dep)"

lemma conn_absorb: "(a, b) \<in> conn F \<Longrightarrow> conn (insert (a, b) F) = conn F"
proof (rule set_eqI)
  fix p :: "'a \<times> 'a"
  assume ab: "(a, b) \<in> conn F"
  obtain x y where p: "p = (x, y)" by fastforce
  show "p \<in> conn (insert (a, b) F) \<longleftrightarrow> p \<in> conn F"
    unfolding p conn_insert using ab conn_sym [OF ab] by (meson conn_trans)
qed

lemma forest_map_of:
  assumes "forest F parent rep dep" "map_of parent' = map_of parent" "distinct (map fst parent')"
    "fst ` set parent' = fst ` set parent"
  shows "forest F parent' rep dep"
  using assms(1,3) unfolding forest_def assms(2,4) by (elim conjE) (intro conjI)

lemma link_pair_forest:
  assumes "is_forest K F parent" "(LEFT, fst l) \<in> K" "(RIGHT, fst r) \<in> K"
  shows "\<exists>parent'. link_pair S l parent r = Inr parent'
    \<and> is_forest K (F \<union> (if linked S (snd l) (snd r) then {((LEFT, fst l), (RIGHT, fst r))} else {})) parent'"
proof -
  obtain rep dep where f: "forest F parent rep dep" and K: "fst ` set parent = K"
    using assms(1) by (auto simp: is_forest_def)
  let ?a = "(LEFT, fst l)" and ?b = "(RIGHT, fst r)"
  have ab: "?a \<in> fst ` set parent" "?b \<in> fst ` set parent" using assms K by simp_all
  let ?parent' = "dict_put (rep ?b) (rep ?a) parent"
  have K': "fst ` set ?parent' = K" using forestD(1) [OF f ab(2)] K by (simp add: insert_absorb)
  have "\<exists>rep' dep'. forest (insert (?a, ?b) F) ?parent' rep' dep'"
  proof (cases "rep ?a = rep ?b")
    case True
    obtain p where "map_of parent (rep ?b) = Some p" "p = rep ?b \<longleftrightarrow> rep ?b = rep (rep ?b)"
      using forestD(4) [OF f forestD(1) [OF f ab(2)]] by blast
    then have "map_of parent (rep ?b) = Some (rep ?b)" using forestD(2) [OF f ab(2)] by simp
    then have mo: "map_of ?parent' = map_of parent" using True by (auto simp: fun_eq_iff)
    have "(?a, ?b) \<in> conn F" using True forestD(5) [OF f ab] by blast
    then have same: "conn (insert (?a, ?b) F) = conn F" by (rule conn_absorb)
    have "forest (insert (?a, ?b) F) parent rep dep"
      using f unfolding forest_def same .
    moreover have "distinct (map fst parent)" using f unfolding forest_def by blast
    then have "distinct (map fst ?parent')" by simp
    ultimately have "forest (insert (?a, ?b) F) ?parent' rep dep"
      using forest_map_of mo trans [OF K' K [symmetric]] by blast
    then show ?thesis by blast
  next
    case False
    from forest_union [OF f ab False] show ?thesis by blast
  qed
  then show ?thesis
    using assms(1) find_root_forest [OF f ab(1)] find_root_forest [OF f ab(2)] K'
    by (auto simp: link_pair_def is_forest_def)
qed

lemma foldE_collects:
  assumes "\<And>x s G. x \<in> set xs \<Longrightarrow> I G s \<Longrightarrow> \<exists>s'. f s x = Inr s' \<and> I (G \<union> g x) s'" and "I G s"
  shows "\<exists>s'. foldE f s xs = Inr s' \<and> I (G \<union> (\<Union>x \<in> set xs. g x)) s'"
  using assms
proof (induction xs arbitrary: s G)
  case (Cons x xs)
  obtain s1 where s1: "f s x = Inr s1" "I (G \<union> g x) s1"
    using Cons.prems(1) [of x G s] Cons.prems(2) by auto
  have "\<exists>s'. foldE f s1 xs = Inr s' \<and> I ((G \<union> g x) \<union> (\<Union>x \<in> set xs. g x)) s'"
    using Cons.prems(1) s1(2) by (intro Cons.IH) auto
  with s1(1) show ?case by (auto simp: Un_assoc)
qed simp

lemma init_parent_keys: "fst ` set (init_parent blk) = pool_keys blk"
  unfolding init_parent_def pool_keys_def set_concat set_map image_UN image_image by simp

definition distinct_ids :: "Block \<Rightarrow> bool" where
  "distinct_ids blk \<longleftrightarrow> (\<forall>side \<in> set SIDES. distinct (map fst (pool blk side)))"

lemma sides_distinct [simp]: "LEFT \<noteq> RIGHT" "RIGHT \<noteq> LEFT"
  by (simp_all add: LEFT_def RIGHT_def)

lemma init_forest:
  assumes "distinct_ids blk"
  shows "is_forest (pool_keys blk) {} (init_parent blk)"
proof -
  have fst_keys: "map fst (init_parent blk) = concat (map (\<lambda>side. map (Pair side) (map fst (pool blk side))) SIDES)"
    by (simp add: init_parent_def SIDES_def comp_def)
  have d: "distinct (map fst (init_parent blk))"
    unfolding fst_keys using assms by (auto simp: SIDES_def distinct_ids_def distinct_map inj_on_def)
  have "map_of (init_parent blk) k = Some k" if mem: "k \<in> fst ` set (init_parent blk)" for k
  proof -
    have "fst x = snd x" if "x \<in> set (init_parent blk)" for x using that by (auto simp: init_parent_def)
    moreover obtain x where "x \<in> set (init_parent blk)" "k = fst x" using mem by blast
    ultimately have "(k, k) \<in> set (init_parent blk)" by (metis prod.collapse)
    then show ?thesis using d by (simp add: map_of_is_SomeI)
  qed
  note self = this
  have conn0: "(x, y) \<in> conn {} \<longleftrightarrow> x = y" for x y :: BusinessKey by (simp add: conn_def)
  have one: "card {x \<in> fst ` set (init_parent blk). x = k} = 1" if "k \<in> fst ` set (init_parent blk)" for k
  proof -
    have "{x \<in> fst ` set (init_parent blk). x = k} = {k}" using that by blast
    then show ?thesis by simp
  qed
  have up: "\<exists>p \<in> fst ` set (init_parent blk). map_of (init_parent blk) k = Some p \<and> p = k
      \<and> (p = k \<longleftrightarrow> k = k) \<and> (p \<noteq> k \<longrightarrow> (0::nat) < 0)" if "k \<in> fst ` set (init_parent blk)" for k
    using self [OF that] that by blast
  have "forest {} (init_parent blk) (\<lambda>k. k) (\<lambda>_. 0)"
    unfolding forest_def conn0 using d up by (intro conjI ballI refl) (simp_all only: one zero_less_one)
  then show ?thesis unfolding is_forest_def init_parent_keys by blast
qed

lemma pool_keys_mem:
  "(LEFT, i) \<in> pool_keys blk \<longleftrightarrow> i \<in> fst ` set (pool blk LEFT)"
  "(RIGHT, i) \<in> pool_keys blk \<longleftrightarrow> i \<in> fst ` set (pool blk RIGHT)"
  by (auto simp: pool_keys_def SIDES_def)

lemma link_all_forest:
  assumes "distinct_ids blk"
  shows "\<exists>parent. link_all S blk = Inr parent \<and> is_forest (pool_keys blk) (links S blk) parent"
proof -
  let ?g = "\<lambda>l r. if linked S (snd l) (snd r) then {((LEFT, fst l), (RIGHT, fst r))} else {}"
  have inner: "\<exists>p'. foldE (link_pair S l) p (pool blk RIGHT) = Inr p'
      \<and> is_forest (pool_keys blk) (G \<union> (\<Union>r \<in> set (pool blk RIGHT). ?g l r)) p'"
    if "is_forest (pool_keys blk) G p" "l \<in> set (pool blk LEFT)" for G p l
    by (rule foldE_collects [OF link_pair_forest that(1)])
      (use that(2) in \<open>auto simp: pool_keys_mem\<close>)
  have "\<exists>p'. foldE (\<lambda>parent l. foldE (link_pair S l) parent (pool blk RIGHT)) (init_parent blk) (pool blk LEFT) = Inr p'
      \<and> is_forest (pool_keys blk) ({} \<union> (\<Union>l \<in> set (pool blk LEFT). \<Union>r \<in> set (pool blk RIGHT). ?g l r)) p'"
    by (rule foldE_collects [OF inner init_forest [OF assms]])
  moreover have "(\<Union>l \<in> set (pool blk LEFT). \<Union>r \<in> set (pool blk RIGHT). ?g l r) = links S blk"
    by (force simp: links_def split: if_splits)
  ultimately show ?thesis by (simp add: link_all_def)
qed

section \<open>Grouping\<close>

lemma groups_fold:
  assumes "\<forall>k \<in> set ks. find_root parent k = Inr (rep k)"
    and "distinct (map fst gs)"
    and "\<And>r. map_of gs r = (let g = filter (\<lambda>k. rep k = r) pre in if g = [] then None else Some g)"
  shows "\<exists>gs'. foldE (add_to_group parent) gs ks = Inr gs' \<and> distinct (map fst gs')
    \<and> (\<forall>r. map_of gs' r = (let g = filter (\<lambda>k. rep k = r) (pre @ ks) in if g = [] then None else Some g))"
  using assms
proof (induction ks arbitrary: gs pre)
  case (Cons k ks)
  let ?gs = "dict_put (rep k) ((case map_of gs (rep k) of None \<Rightarrow> [] | Some g \<Rightarrow> g) @ [k]) gs"
  have step: "add_to_group parent gs k = Inr ?gs" using Cons.prems(1) by (simp add: add_to_group_def)
  have "\<exists>gs'. foldE (add_to_group parent) ?gs ks = Inr gs' \<and> distinct (map fst gs')
    \<and> (\<forall>r. map_of gs' r = (let g = filter (\<lambda>k. rep k = r) ((pre @ [k]) @ ks) in if g = [] then None else Some g))"
    using Cons.prems by (intro Cons.IH) (auto simp: Let_def split: option.splits if_splits)
  with step show ?case by simp
qed simp

lemma components_spec:
  assumes "distinct_ids blk"
  shows "\<exists>gs. components S blk = Inr gs
    \<and> set gs = (\<lambda>k. filter (\<lambda>x. (k, x) \<in> conn (links S blk)) (sorted_list_of_set (pool_keys blk))) ` pool_keys blk
    \<and> distinct (concat gs) \<and> sorted gs"
proof -
  obtain parent rep dep where p: "link_all S blk = Inr parent" "fst ` set parent = pool_keys blk"
    and f: "forest (links S blk) parent rep dep"
    using link_all_forest [OF assms] unfolding is_forest_def by blast
  let ?ks = "sort (map fst parent)"
  have ks: "set ?ks = pool_keys blk" "distinct ?ks" using p(2) f by (auto simp: forest_def)
  then have fin: "finite (pool_keys blk)" by (metis List.finite_set)
  have sl: "?ks = sorted_list_of_set (pool_keys blk)"
    using ks fin by (intro sorted_distinct_set_unique) simp_all
  obtain gs where gs: "foldE (add_to_group parent) [] ?ks = Inr gs" "distinct (map fst gs)"
    "\<forall>r. map_of gs r = (let g = filter (\<lambda>k. rep k = r) ?ks in if g = [] then None else Some g)"
    using groups_fold [of ?ks parent rep "[]" "[]"] find_root_forest [OF f] ks(1) p(2) by auto
  have mem: "g = filter (\<lambda>k. rep k = r) ?ks \<and> g \<noteq> []" if "(r, g) \<in> set gs" for r g
    using spec [OF gs(3), of r] map_of_is_SomeI [OF gs(2) that] by (simp add: Let_def split: if_splits)
  have class_of: "filter (\<lambda>x. rep x = rep k) ?ks =
      filter (\<lambda>x. (k, x) \<in> conn (links S blk)) (sorted_list_of_set (pool_keys blk))"
    if "k \<in> pool_keys blk" for k
    unfolding sl [symmetric] using that p(2) ks(1)
    by (intro filter_cong refl) (metis forestD(5) [OF f])
  have "snd ` set gs = (\<lambda>k. filter (\<lambda>x. rep x = rep k) ?ks) ` pool_keys blk"
  proof (intro set_eqI iffI)
    fix g
    assume "g \<in> snd ` set gs"
    then obtain r where r: "(r, g) \<in> set gs" by auto
    with mem obtain k where "k \<in> set g" by (meson ex_in_conv set_empty)
    then have "k \<in> set ?ks" "rep k = r" using mem [OF r] by auto
    with mem [OF r] ks(1) show "g \<in> (\<lambda>k. filter (\<lambda>x. rep x = rep k) ?ks) ` pool_keys blk" by blast
  next
    fix g
    assume "g \<in> (\<lambda>k. filter (\<lambda>x. rep x = rep k) ?ks) ` pool_keys blk"
    then obtain k where k: "k \<in> set ?ks" "g = filter (\<lambda>x. rep x = rep k) ?ks" using ks(1) by blast
    then have "g \<noteq> []" by (auto simp: filter_empty_conv)
    with spec [OF gs(3), of "rep k"] k have "map_of gs (rep k) = Some g" by (simp add: Let_def)
    then show "g \<in> snd ` set gs" by (force dest: map_of_SomeD)
  qed
  then have groups: "set (sort (map snd gs)) = (\<lambda>k. filter (\<lambda>x. (k, x) \<in> conn (links S blk))
      (sorted_list_of_set (pool_keys blk))) ` pool_keys blk"
    using class_of by simp
  have apart: "r = r'" if "(r, g) \<in> set gs" "(r', g') \<in> set gs" "x \<in> set g" "x \<in> set g'" for r g r' g' x
    using mem [OF that(1)] mem [OF that(2)] that(3,4) by auto
  have same: "g = g'" if "(r, g) \<in> set gs" "(r, g') \<in> set gs" for r g g'
    using mem [OF that(1)] mem [OF that(2)] by simp
  have "inj_on snd (set gs)"
  proof (rule inj_onI)
    fix a b
    assume "a \<in> set gs" "b \<in> set gs" "snd a = snd b"
    moreover from this mem [of "fst a" "snd a"] have "hd (snd a) \<in> set (snd a)"
      by (metis list.set_sel(1) prod.collapse)
    ultimately show "a = b" using apart [of "fst a" "snd a" "fst b" "snd b"] 
      by (metis prod.collapse)
  qed
  then have "distinct (map snd gs)" using gs(2) by (simp add: distinct_map)
  then have "distinct (concat (sort (map snd gs)))"
  proof (intro distinct_concat)
    fix g
    assume "g \<in> set (sort (map snd gs))"
    then show "distinct g" using mem ks(2) by fastforce
  next
    fix g g'
    assume "g \<in> set (sort (map snd gs))" "g' \<in> set (sort (map snd gs))" "g \<noteq> g'"
    then obtain r r' where r: "(r, g) \<in> set gs" "(r', g') \<in> set gs" by auto
    with same \<open>g \<noteq> g'\<close> have "r \<noteq> r'" by blast
    with apart [OF r] show "set g \<inter> set g' = {}" by blast
  qed simp
  with groups p(1) gs(1) show ?thesis by (simp add: components_def)
qed

text \<open>
  C14 The components of a block are exactly the connected components of its open records
  under the links of \<open>_components\<close> (the date window, or a shared reference): one sorted list
  for each class, no key in two of them, the lists in order, whatever the order in which
  the records arrived.
\<close>

theorem components_are_connected:
  assumes "distinct_ids blk"
  shows "\<exists>gs. components S blk = Inr gs
    \<and> set gs = (\<lambda>k. filter (\<lambda>x. (k, x) \<in> conn (links S blk)) (sorted_list_of_set (pool_keys blk))) ` pool_keys blk
    \<and> distinct (concat gs) \<and> sorted gs"
  using assms by (rule components_spec)

end
