(* ===== verification/Stream_Inv.thy ===== *)
theory Stream_Inv
  imports Components
begin

text \<open>
  The history of a replay: every business key has one chain of decisions, numbered from 1,
  each naming the one it supersedes, and nothing follows a final decision.  The operations
  that emit keep it, and the blocks keep their pools consistent with the records seen.
\<close>

declare split_paired_All [simp del] split_paired_Ex [simp del]

section \<open>Chains\<close>

definition chain :: "Decision list \<Rightarrow> bool" where
  "chain ds \<longleftrightarrow> (\<forall>i < length ds.
     chain_version (ds ! i) = int i + 1
     \<and> supersedes (ds ! i) = (if i = 0 then None else Some (decision_id (ds ! (i - 1))))
     \<and> (dstatus (ds ! i) = FINAL \<longrightarrow> Suc i = length ds)
     \<and> dstatus (ds ! i) \<noteq> SUPERSEDED
     \<and> final_at (ds ! i) = (if dstatus (ds ! i) = FINAL then Some (decided_at (ds ! i)) else None))"

lemma chain_Nil [simp]: "chain []"
  by (simp add: chain_def)

lemma chain_snoc:
  assumes "chain ds" "ds \<noteq> [] \<Longrightarrow> dstatus (last ds) \<noteq> FINAL"
    and "chain_version d = int (length ds) + 1"
    and "supersedes d = (if ds = [] then None else Some (decision_id (last ds)))"
    and "dstatus d \<noteq> SUPERSEDED"
    and "final_at d = (if dstatus d = FINAL then Some (decided_at d) else None)"
  shows "chain (ds @ [d])"
  unfolding chain_def
proof (intro allI impI)
  fix i
  assume i: "i < length (ds @ [d])"
  show "chain_version ((ds @ [d]) ! i) = int i + 1
     \<and> supersedes ((ds @ [d]) ! i) = (if i = 0 then None else Some (decision_id ((ds @ [d]) ! (i - 1))))
     \<and> (dstatus ((ds @ [d]) ! i) = FINAL \<longrightarrow> Suc i = length (ds @ [d]))
     \<and> dstatus ((ds @ [d]) ! i) \<noteq> SUPERSEDED
     \<and> final_at ((ds @ [d]) ! i)
         = (if dstatus ((ds @ [d]) ! i) = FINAL then Some (decided_at ((ds @ [d]) ! i)) else None)"
  proof (cases "i < length ds")
    case True
    have "dstatus (ds ! i) \<noteq> FINAL"
    proof
      assume "dstatus (ds ! i) = FINAL"
      then have "Suc i = length ds" using assms(1) True unfolding chain_def by blast
      then have "last ds = ds ! i" using True by (metis diff_Suc_1 last_conv_nth list.size(3) not_less_zero)
      with assms(2) \<open>dstatus (ds ! i) = FINAL\<close> True show False by fastforce
    qed
    moreover have "i - 1 < length ds" using True by simp
    ultimately show ?thesis using True assms(1) unfolding chain_def by (simp add: nth_append)
  next
    case False
    then have "i = length ds" using i by simp
    with assms(3-6) show ?thesis
      by (cases "ds = []") (auto simp: nth_append last_conv_nth)
  qed
qed

definition last_opt :: "'a list \<Rightarrow> 'a option" where
  "last_opt xs = (if xs = [] then None else Some (last xs))"

abbreviation chain_of :: "Replay \<Rightarrow> BusinessKey \<Rightarrow> Decision list" where
  "chain_of st key \<equiv> filter (\<lambda>d. business_key d = key) (r_decisions st)"

text \<open>The history, with the clock of the journal.\<close>

definition hist_inv :: "Replay \<Rightarrow> bool" where
  "hist_inv st \<longleftrightarrow> (\<forall>key. chain (chain_of st key)) \<and> (\<forall>key. current st key = last_opt (chain_of st key))
     \<and> sorted (map decided_at (r_decisions st)) \<and> (\<forall>d \<in> set (r_decisions st). decided_at d \<le> position st)"

definition open_key :: "Replay \<Rightarrow> BusinessKey \<Rightarrow> bool" where
  "open_key st key \<longleftrightarrow> (\<exists>d. current st key = Some d \<and> dstatus d = PROVISIONAL)"

definition not_final :: "Replay \<Rightarrow> BusinessKey \<Rightarrow> bool" where
  "not_final st key \<longleftrightarrow> (\<forall>d. current st key = Some d \<longrightarrow> dstatus d \<noteq> FINAL)"

definition final_key :: "Replay \<Rightarrow> BusinessKey \<Rightarrow> bool" where
  "final_key st key \<longleftrightarrow> (\<exists>d. current st key = Some d \<and> dstatus d = FINAL)"

lemma open_not_final: "open_key st key \<Longrightarrow> not_final st key"
  by (auto simp: open_key_def not_final_def)

lemma hist_current:
  assumes "hist_inv st" "current st key = Some d"
  shows "business_key d = key" and "dstatus d \<noteq> SUPERSEDED" and "d \<in> set (r_decisions st)"
    and "chain_version d = int (length (chain_of st key))"
proof -
  have c: "chain (chain_of st key)" "chain_of st key \<noteq> []" "d = last (chain_of st key)"
    using assms by (auto simp: hist_inv_def last_opt_def split: if_splits)
  then have mem: "d \<in> set (chain_of st key)" by (metis last_in_set)
  then show "business_key d = key" "d \<in> set (r_decisions st)" by auto
  let ?i = "length (chain_of st key) - 1"
  have i: "?i < length (chain_of st key)" "chain_of st key ! ?i = d"
    using c(2,3) by (auto simp: last_conv_nth)
  with c(1) show "dstatus d \<noteq> SUPERSEDED" unfolding chain_def by metis
  have "chain_version (chain_of st key ! ?i) = int ?i + 1" using c(1) i(1) unfolding chain_def by blast
  with i c(2) show "chain_version d = int (length (chain_of st key))" by (cases "chain_of st key") auto
qed

section \<open>Emission\<close>

text \<open>What an operation that only emits leaves alone.\<close>

definition same_journal :: "Replay \<Rightarrow> Replay \<Rightarrow> bool" where
  "same_journal st st' \<longleftrightarrow> seen st' = seen st \<and> r_duplicates st' = r_duplicates st
     \<and> progress st' = progress st \<and> r_blocks st' = r_blocks st \<and> position st' = position st"

lemma same_journal_refl [simp]: "same_journal st st"
  by (simp add: same_journal_def)

lemma same_journal_trans: "same_journal a b \<Longrightarrow> same_journal b c \<Longrightarrow> same_journal a c"
  by (simp add: same_journal_def)

lemma emit_frame:
  "same_journal st (emit H S key p status frc st)"
  "key' \<noteq> key \<Longrightarrow> current (emit H S key p status frc st) key' = current st key'"
  by (simp_all add: emit_def Let_def same_journal_def)

lemma emit_current:
  "\<exists>d. current (emit H S key p status frc st) key = Some d \<and> dstatus d = status
     \<and> decision_type d = p_type p \<and> input_ids d = p_inputs p \<and> dreason d = p_reason p
     \<and> window_end d = p_window_end p \<and> forced d = frc"
  by (simp add: emit_def Let_def)

lemma emit_status:
  "status = PROVISIONAL \<Longrightarrow> open_key (emit H S key p status frc st) key"
  "status = FINAL \<Longrightarrow> final_key (emit H S key p status frc st) key"
  using emit_current [of H S key p status frc st] by (auto simp: open_key_def final_key_def)

lemma emit_hist:
  assumes "hist_inv st" "not_final st key" "status \<noteq> SUPERSEDED"
  shows "hist_inv (emit H S key p status frc st)"
proof -
  let ?st = "emit H S key p status frc st"
  obtain d where d: "r_decisions ?st = r_decisions st @ [d]" "current ?st = (current st)(key \<mapsto> d)"
    "business_key d = key" "dstatus d = status" "decided_at d = position st" "position ?st = position st"
    "final_at d = (if status = FINAL then Some (position st) else None)"
    "supersedes d = map_option decision_id (current st key)"
    "chain_version d = (case current st key of None \<Rightarrow> 1 | Some x \<Rightarrow> chain_version x + 1)"
    by (simp add: emit_def Let_def map_option_case)
  have cur: "current st key = last_opt (chain_of st key)" "chain (chain_of st key)"
    using assms(1) by (auto simp: hist_inv_def)
  have "chain (chain_of st key @ [d])"
  proof (rule chain_snoc [OF cur(2)])
    show "chain_of st key \<noteq> [] \<Longrightarrow> dstatus (last (chain_of st key)) \<noteq> FINAL"
      using assms(2) cur(1) by (auto simp: not_final_def last_opt_def)
    show "chain_version d = int (length (chain_of st key)) + 1"
      using d(9) hist_current(4) [OF assms(1)] cur(1)
      by (cases "current st key") (auto simp: last_opt_def split: if_splits)
    show "supersedes d = (if chain_of st key = [] then None else Some (decision_id (last (chain_of st key))))"
      using d(8) cur(1) by (simp add: last_opt_def)
  qed (use d(4,5,7) assms(3) in auto)
  then have "chain (chain_of ?st k) \<and> current ?st k = last_opt (chain_of ?st k)" for k
    using assms(1) d(1-3) by (cases "k = key") (auto simp: hist_inv_def last_opt_def)
  then show ?thesis
    using assms(1) d by (auto simp: hist_inv_def sorted_append)
qed

section \<open>What the stream needs of the engine\<close>

text \<open>The decisions of the engine are about the records it was given, and it always decides.\<close>

locale reconciler =
  fixes engine :: "Record list \<Rightarrow> Record list \<Rightarrow> Tolerance \<Rightarrow> MatchResult result"
  assumes returns: "length rs \<le> 10 ^ 23 \<Longrightarrow> \<exists>res. engine ls rs tol = Inr res"
    and match_ids: "engine ls rs tol = Inr res \<Longrightarrow> m \<in> set (matches res) \<Longrightarrow>
      left_id m \<in> rec_id ` set ls \<and> set (right_ids m) \<subseteq> rec_id ` set rs"
    and reject_ids: "engine ls rs tol = Inr res \<Longrightarrow> x \<in> set (rejects res) \<Longrightarrow>
      rej_left_id x \<in> rec_id ` set ls \<and> (\<forall>i. rej_right_id x = Some i \<longrightarrow> i \<in> rec_id ` set rs)"
begin

lemma keyed_ids: "\<forall>ir \<in> set d. rec_id (snd ir) = fst ir \<Longrightarrow> rec_id ` set (map snd d) = fst ` set d"
  by (force simp: image_iff)

lemma match_proposals_keys:
  assumes "left_id m \<in> fst ` set lefts" "set (right_ids m) \<subseteq> fst ` set rights"
  shows "\<exists>ps'. match_proposals S lefts rights m ps = Inr ps'
    \<and> fst ` set ps' = insert (LEFT, left_id m) (Pair RIGHT ` set (right_ids m)) \<union> fst ` set ps
    \<and> (distinct (map fst ps) \<longrightarrow> distinct (map fst ps'))"
proof -
  have get: "\<exists>r. dict_getE d i = Inr r" if "i \<in> fst ` set d" for d :: "(string \<times> Record) list" and i
    using that by (metis dict_getE_eq_Inr domIff dom_map_of_conv_image_fst not_None_eq)
  obtain l where l: "dict_getE lefts (left_id m) = Inr l" using get assms(1) by blast
  have "\<forall>i \<in> set (right_ids m). \<exists>r. dict_getE rights i = Inr r" using get assms(2) by blast
  then obtain g where "\<forall>i \<in> set (right_ids m). dict_getE rights i = Inr (g i)" by metis
  then have r: "mapE (dict_getE rights) (right_ids m) = Inr (map g (right_ids m))"
    by (intro mapE_total) blast
  have put: "fst ` set (fold (\<lambda>x. dict_put (RIGHT, x) p) xs ps) = Pair RIGHT ` set xs \<union> fst ` set ps
      \<and> (distinct (map fst ps) \<longrightarrow> distinct (map fst (fold (\<lambda>x. dict_put (RIGHT, x) p) xs ps)))"
    for p :: Proposal and xs ps
    by (induction xs arbitrary: ps) auto
  show ?thesis
    by (simp add: match_proposals_def l r Let_def put)
qed

lemma reject_reasons_total:
  assumes "rej_left_id x \<in> fst ` set lefts" "\<forall>i. rej_right_id x = Some i \<longrightarrow> i \<in> fst ` set rights"
  shows "\<exists>d'. reject_reasons S lefts rights d x = Inr d'"
proof -
  obtain l where "map_of lefts (rej_left_id x) = Some l"
    using assms(1) by (metis domIff dom_map_of_conv_image_fst not_None_eq)
  moreover have "\<exists>r. map_of rights i = Some r" if "rej_right_id x = Some i" for i
    using assms(2) that by (metis domIff dom_map_of_conv_image_fst not_None_eq)
  ultimately show ?thesis
    by (cases "rej_right_id x") (force simp: reject_reasons_def dict_getE_def)+
qed

lemma break_proposal_keys:
  "fst ` set (fold (break_proposal S reasons side) irs ps) = Pair side ` fst ` set irs \<union> fst ` set ps"
  "distinct (map fst ps) \<Longrightarrow> distinct (map fst (fold (break_proposal S reasons side) irs ps))"
proof (induction irs arbitrary: ps)
  case (Cons ir irs)
  {
    case 1
    have "fst ` set (break_proposal S reasons side ir ps) = insert (side, fst ir) (fst ` set ps)"
      by (auto simp: break_proposal_def map_of_eq_None_iff)
    with Cons.IH(1) show ?case by auto
  next
    case 2
    then have "distinct (map fst (break_proposal S reasons side ir ps))" by (simp add: break_proposal_def)
    with Cons.IH(2) show ?case by simp
  }
qed simp_all

lemma proposals_cover:
  assumes "engine (map snd lefts) (map snd rights) tol = Inr res"
    and "\<forall>ir \<in> set lefts. rec_id (snd ir) = fst ir" "\<forall>ir \<in> set rights. rec_id (snd ir) = fst ir"
  shows "\<exists>ps. block_proposals S lefts rights res = Inr ps \<and> distinct (map fst ps)
    \<and> fst ` set ps = Pair LEFT ` fst ` set lefts \<union> Pair RIGHT ` fst ` set rights"
proof -
  let ?K = "Pair LEFT ` fst ` set lefts \<union> Pair RIGHT ` fst ` set rights"
  have m: "left_id m \<in> fst ` set lefts" "set (right_ids m) \<subseteq> fst ` set rights" if "m \<in> set (matches res)" for m
    using match_ids [OF assms(1) that] unfolding keyed_ids [OF assms(2)] keyed_ids [OF assms(3)] by blast+
  have x: "rej_left_id x \<in> fst ` set lefts" "\<forall>i. rej_right_id x = Some i \<longrightarrow> i \<in> fst ` set rights"
    if "x \<in> set (rejects res)" for x
    using reject_ids [OF assms(1) that] unfolding keyed_ids [OF assms(2)] keyed_ids [OF assms(3)] by blast+
  have "\<exists>ps'. foldE (\<lambda>ps m. match_proposals S lefts rights m ps) ps ms = Inr ps'
      \<and> fst ` set ps' \<subseteq> ?K \<and> distinct (map fst ps')"
    if "set ms \<subseteq> set (matches res)" "fst ` set ps \<subseteq> ?K" "distinct (map fst ps)" for ms ps
    using that
  proof (induction ms arbitrary: ps)
    case (Cons y ms)
    then have y: "y \<in> set (matches res)" by simp
    obtain ps1 where "match_proposals S lefts rights y ps = Inr ps1"
      "fst ` set ps1 = insert (LEFT, left_id y) (Pair RIGHT ` set (right_ids y)) \<union> fst ` set ps"
      "distinct (map fst ps1)"
      using match_proposals_keys [OF m [OF y], of S ps] Cons.prems(3) by blast
    moreover from this have "fst ` set ps1 \<subseteq> ?K" using m [OF y] Cons.prems by auto
    ultimately show ?case using Cons.IH [of ps1] Cons.prems by auto
  qed simp
  from this [of "matches res" "[]"] obtain ps where
    ps: "foldE (\<lambda>ps m. match_proposals S lefts rights m ps) [] (matches res) = Inr ps"
      "fst ` set ps \<subseteq> ?K" "distinct (map fst ps)" by auto
  have "\<exists>d'. foldE (reject_reasons S lefts rights) d xs = Inr d'" if "set xs \<subseteq> set (rejects res)" for d xs
    using that
  proof (induction xs arbitrary: d)
    case (Cons y xs)
    then have "y \<in> set (rejects res)" by simp
    then obtain d1 where "reject_reasons S lefts rights d y = Inr d1"
      using reject_reasons_total [OF x] by blast
    with Cons show ?case by auto
  qed simp
  then obtain d where "foldE (reject_reasons S lefts rights) Map.empty (rejects res) = Inr d" by blast
  with ps show ?thesis by (auto simp: block_proposals_def break_proposal_keys)
qed

end

lemma left_rejects_right:
  "x \<in> set (left_rejects rights tol t oversized l) \<Longrightarrow> rej_right_id x = Some i \<Longrightarrow> i \<in> rec_id ` set rights"
  by (auto simp: left_rejects_def audit_left_def Let_def split: if_splits option.splits)

interpretation engine: reconciler "\<lambda>ls rs tol. reconcile H ls rs (Some tol)" for H
proof
  fix rs ls tol
  assume len: "length (rs :: Record list) \<le> 10 ^ 23"
  then show "\<exists>res. reconcile H ls rs (Some tol) = Inr res" by (rule reconcile_returns)
next
  fix ls rs tol res m
  assume run: "reconcile H ls rs (Some tol) = Inr res" and "m \<in> set (matches res)"
  then obtain k d where d: "block_run ls rs tol k = Inr d" "m \<in> set (acc_matches d)"
    unfolding reconcile_mem(1) [OF run] by (auto simp: tol_or_default_def)
  from justified_in_block [OF bspec [OF block_spec_of(1) [OF d(1)] d(2)]]
  show "left_id m \<in> rec_id ` set ls \<and> set (right_ids m) \<subseteq> rec_id ` set rs" by force
next
  fix ls rs tol res x
  assume run: "reconcile H ls rs (Some tol) = Inr res" and "x \<in> set (rejects res)"
  then obtain k d where d: "block_run ls rs tol k = Inr d" "x \<in> set (acc_rejects d)"
    unfolding reconcile_mem(2) [OF run] by (auto simp: tol_or_default_def)
  then obtain l where "l \<in> set ls" "x \<in> set (left_rejects (sorted_block k rs) tol (taken_by (acc_matches d))
      (oversized_block (in_block k rs) tol) l)"
    unfolding block_spec_of(4) [OF d(1)] by auto
  then show "rej_left_id x \<in> rec_id ` set ls \<and> (\<forall>i. rej_right_id x = Some i \<longrightarrow> i \<in> rec_id ` set rs)"
    using left_rejects_left left_rejects_right by fastforce
qed

end
