(* ===== verification/Stream_Settle.thy ===== *)
theory Stream_Settle
  imports Stream_Inv
begin

text \<open>
  Evaluation and finalisation of one block: they end without error, keep the history and
  the pools consistent, leave every other key alone, and every record that leaves the pool
  has become final.
\<close>

section \<open>A block\<close>

definition block_ok :: "BlockKey \<Rightarrow> Block \<Rightarrow> Replay \<Rightarrow> bool" where
  "block_ok k blk st \<longleftrightarrow> distinct_ids blk
     \<and> (\<forall>side \<in> set SIDES. \<forall>ir \<in> set (pool blk side).
          rec_id (snd ir) = fst ir \<and> blocking_key (snd ir) = k \<and> seen st (side, fst ir) = Some (snd ir))"

lemma block_ok_journal: "block_ok k blk st \<Longrightarrow> same_journal st st' \<Longrightarrow> block_ok k blk st'"
  by (simp add: block_ok_def same_journal_def)

text \<open>What a step on a block keeps outside of a set of keys.\<close>

definition only_touches :: "BusinessKey set \<Rightarrow> Replay \<Rightarrow> Replay \<Rightarrow> bool" where
  "only_touches K st st' \<longleftrightarrow> same_journal st st' \<and> (\<forall>key. key \<notin> K \<longrightarrow> current st' key = current st key)
     \<and> (\<exists>new. r_decisions st' = r_decisions st @ new)"

lemma only_touches_refl [simp]: "only_touches K st st"
  by (simp add: only_touches_def)

lemma only_touches_trans:
  "only_touches K a b \<Longrightarrow> only_touches K b c \<Longrightarrow> only_touches K a c"
  by (auto simp: only_touches_def intro: same_journal_trans)

lemma only_touches_mono: "only_touches K a b \<Longrightarrow> K \<subseteq> K' \<Longrightarrow> only_touches K' a b"
  by (auto simp: only_touches_def)

lemma only_touches_keys:
  assumes "only_touches K st st'" "key \<notin> K"
  shows "open_key st' key = open_key st key" "not_final st' key = not_final st key"
    "final_key st' key = final_key st key" "current st' key = current st key"
  using assms by (simp_all add: only_touches_def open_key_def not_final_def final_key_def)

lemma emit_touches: "only_touches {key} st (emit H S key p status frc st)"
  by (simp add: only_touches_def emit_def Let_def same_journal_def)

section \<open>Evaluation\<close>

lemma emit_changed_step:
  assumes "key \<in> fst ` set ps" "hist_inv st" "not_final st key"
  shows "\<exists>st'. emit_changed H S ps st key = Inr st' \<and> hist_inv st' \<and> open_key st' key
    \<and> only_touches {key} st st'"
proof -
  obtain p where p: "dict_getE ps key = Inr p"
    using assms(1) by (metis dict_getE_eq_Inr domIff dom_map_of_conv_image_fst not_None_eq)
  let ?st = "emit H S key p PROVISIONAL False st"
  show ?thesis
  proof (cases "case current st key of None \<Rightarrow> True
      | Some d \<Rightarrow> decision_fingerprint H d \<noteq> proposal_fingerprint H p")
    case True
    then have "emit_changed H S ps st key = Inr ?st" by (simp add: emit_changed_def p)
    moreover have "hist_inv ?st" using assms(2,3) by (rule emit_hist) simp
    ultimately show ?thesis
      by (intro exI [of _ ?st] conjI) (simp_all add: emit_status emit_touches)
  next
    case False
    then obtain d where d: "current st key = Some d" by (auto split: option.splits)
    then have "dstatus d \<noteq> SUPERSEDED" "dstatus d \<noteq> FINAL"
      using hist_current(2) [OF assms(2) d] assms(3) by (simp_all add: not_final_def)
    with d have "open_key st key" by (cases "dstatus d") (simp_all add: open_key_def)
    moreover have "emit_changed H S ps st key = Inr st" using False by (simp add: emit_changed_def p)
    ultimately show ?thesis using assms(2) by auto
  qed
qed

lemma emit_changed_fold:
  assumes "set keys \<subseteq> fst ` set ps" "hist_inv st" "\<forall>key \<in> set keys. not_final st key"
  shows "\<exists>st'. foldE (emit_changed H S ps) st keys = Inr st' \<and> hist_inv st'
    \<and> (\<forall>key \<in> set keys. open_key st' key) \<and> only_touches (set keys) st st'"
  using assms
proof (induction keys arbitrary: st)
  case (Cons key keys)
  have "key \<in> fst ` set ps" "not_final st key" using Cons.prems by auto
  then obtain st1 where st1: "emit_changed H S ps st key = Inr st1" "hist_inv st1" "open_key st1 key"
    "only_touches {key} st st1"
    using emit_changed_step [OF _ Cons.prems(2)] by blast
  have "not_final st1 k" if "k \<in> set keys" for k
    using only_touches_keys(2) [OF st1(4), of k] Cons.prems(3) that open_not_final [OF st1(3)]
    by (cases "k = key") auto
  then obtain st' where st': "foldE (emit_changed H S ps) st1 keys = Inr st'" "hist_inv st'"
    "\<forall>key \<in> set keys. open_key st' key" "only_touches (set keys) st1 st'"
    using Cons.IH [OF _ st1(2)] Cons.prems(1) by auto
  have "open_key st' key"
    using only_touches_keys(1) [OF st'(4), of key] st'(3) st1(3) by (cases "key \<in> set keys") auto
  moreover have "only_touches (set (key # keys)) st st'"
    using only_touches_mono [OF st1(4), of "set (key # keys)"]
      only_touches_mono [OF st'(4), of "set (key # keys)"] only_touches_trans
    by (metis insert_subset list.simps(15) set_subset_Cons empty_subsetI insertI1)
  ultimately show ?case using st1(1) st' by auto
qed simp

lemma pool_keys_sides:
  "pool_keys blk = Pair LEFT ` fst ` set (pool blk LEFT) \<union> Pair RIGHT ` fst ` set (pool blk RIGHT)"
  by (simp add: pool_keys_def SIDES_def)

lemma evaluate_spec:
  assumes "block_ok k blk st" "hist_inv st" "\<forall>key \<in> pool_keys blk. not_final st key"
    and "pool_size blk \<le> 10 ^ 23"
  shows "\<exists>st'. evaluate H S blk st = Inr st' \<and> hist_inv st'
    \<and> (\<forall>key \<in> pool_keys blk. open_key st' key) \<and> only_touches (pool_keys blk) st st'"
proof -
  let ?l = "pool blk LEFT" and ?r = "pool blk RIGHT"
  have "length (map snd ?r) \<le> 10 ^ 23" using assms(4) by (simp add: pool_size_def)
  then obtain res where res: "reconcile H (map snd ?l) (map snd ?r) (Some (s_tol S)) = Inr res"
    using engine.returns by blast
  have keyed: "\<forall>ir \<in> set ?l. rec_id (snd ir) = fst ir" "\<forall>ir \<in> set ?r. rec_id (snd ir) = fst ir"
    using assms(1) by (auto simp: block_ok_def SIDES_def)
  obtain ps where ps: "block_proposals S ?l ?r res = Inr ps" "fst ` set ps = pool_keys blk"
    using engine.proposals_cover [OF res keyed] by (metis pool_keys_sides)
  have keys: "set (sort (map fst ps)) = pool_keys blk" using ps(2) by simp
  show ?thesis
    using emit_changed_fold [of "sort (map fst ps)" ps st H S] assms(2,3) res ps
    unfolding keys by (auto simp: evaluate_def Let_def)
qed

section \<open>Closing\<close>

text \<open>What finalisation needs of the components: they are a partition of the open keys.\<close>

locale partitioner =
  fixes comps :: "Settings \<Rightarrow> Block \<Rightarrow> BusinessKey list list result"
  assumes partition: "distinct_ids blk \<Longrightarrow>
      \<exists>gs. comps S blk = Inr gs \<and> distinct (concat gs) \<and> set (concat gs) = pool_keys blk"
begin

lemma lookup_open:
  assumes "key \<in> pool_keys blk"
  shows "\<exists>r. (case key of (side, i) \<Rightarrow> dict_getE (pool blk side) i) = Inr r"
proof -
  obtain side i where key: "key = (side, i)" "i \<in> fst ` set (pool blk side)"
    using assms by (auto simp: pool_keys_def)
  then obtain r where "map_of (pool blk side) i = Some r"
    by (metis domIff dom_map_of_conv_image_fst not_None_eq)
  with key(1) show ?thesis by (simp add: dict_getE_def)
qed

lemma close_component_spec:
  assumes "set keys \<subseteq> pool_keys blk" "hist_inv st" "\<forall>key \<in> set keys. open_key st key"
  shows "\<exists>ds. close_component S st blk w keys = Inr ds
    \<and> subseq (map (\<lambda>x. business_key (fst x)) ds) keys
    \<and> (\<forall>x \<in> set ds. current st (business_key (fst x)) = Some (fst x))"
proof -
  have "\<forall>key \<in> set keys. \<exists>r. (case key of (side, i) \<Rightarrow> dict_getE (pool blk side) i) = Inr r"
    using lookup_open assms(1) by blast
  then obtain g where "\<forall>key \<in> set keys. (case key of (side, i) \<Rightarrow> dict_getE (pool blk side) i) = Inr (g key)"
    by metis
  then have recs: "mapE (\<lambda>(side, i). dict_getE (pool blk side) i) keys = Inr (map g keys)"
    by (intro mapE_total) blast
  have cur: "current st key = Some (the (current st key))" "business_key (the (current st key)) = key"
    if key: "key \<in> set keys" for key
  proof -
    obtain d where d: "current st key = Some d" using assms(3) key by (auto simp: open_key_def)
    then show "current st key = Some (the (current st key))" "business_key (the (current st key)) = key"
      using hist_current(1) [OF assms(2) d] by simp_all
  qed
  let ?cur = "\<lambda>key. the (current st key)"
  have curs: "mapE (\<lambda>k. case current st k of None \<Rightarrow> Inl KeyError | Some d \<Rightarrow> Inr d) keys = Inr (map ?cur keys)"
    using cur(1) by (intro mapE_total) (metis option.simps(5))
  let ?form = "\<lambda>b P. close_component S st blk w keys = Inr (map (\<lambda>d. (d, b)) (filter P (map ?cur keys)))"
  have "?form False (\<lambda>_. True) \<or> ?form True (\<lambda>d. window_end d < w) \<or> ?form False (\<lambda>_. False)"
    unfolding close_component_def recs curs by simp
  then obtain b P where form: "?form b P" by blast
  have "map (\<lambda>x. business_key (fst x)) (map (\<lambda>d. (d, b)) (filter P (map ?cur keys)))
      = filter (\<lambda>key. P (?cur key)) keys"
    using cur(2) by (induction keys) auto
  then have "subseq (map (\<lambda>x. business_key (fst x)) (map (\<lambda>d. (d, b)) (filter P (map ?cur keys)))) keys"
    by (simp only: subseq_filter_left)
  moreover have "current st (business_key (fst x)) = Some (fst x)"
    if "x \<in> set (map (\<lambda>d. (d, b)) (filter P (map ?cur keys)))" for x
    using that cur by auto
  ultimately show ?thesis using form by blast
qed

lemma closing_components:
  assumes "set (concat gs) \<subseteq> pool_keys blk" "hist_inv st" "\<forall>key \<in> pool_keys blk. open_key st key"
  shows "\<exists>ds. collectE (close_component S st blk w) gs = Inr ds
    \<and> subseq (map (\<lambda>x. business_key (fst x)) ds) (concat gs)
    \<and> (\<forall>x \<in> set ds. current st (business_key (fst x)) = Some (fst x))"
  using assms(1)
proof (induction gs)
  case (Cons g gs)
  have "set g \<subseteq> pool_keys blk" "\<forall>key \<in> set g. open_key st key" using Cons.prems assms(3) by auto
  then obtain ds where "close_component S st blk w g = Inr ds"
    "subseq (map (\<lambda>x. business_key (fst x)) ds) g" "\<forall>x \<in> set ds. current st (business_key (fst x)) = Some (fst x)"
    using close_component_spec [OF _ assms(2)] by blast
  moreover obtain es where "collectE (close_component S st blk w) gs = Inr es"
    "subseq (map (\<lambda>x. business_key (fst x)) es) (concat gs)"
    "\<forall>x \<in> set es. current st (business_key (fst x)) = Some (fst x)"
    using Cons by auto
  ultimately show ?case by (auto intro!: list_emb_append_mono)
qed simp

lemma closing_total:
  assumes "distinct_ids blk" "hist_inv st" "\<forall>key \<in> pool_keys blk. open_key st key"
  shows "\<exists>ds. bindE (comps S blk) (collectE (close_component S st blk w)) = Inr ds
    \<and> distinct (map (\<lambda>x. business_key (fst x)) ds)
    \<and> (\<forall>x \<in> set ds. business_key (fst x) \<in> pool_keys blk
        \<and> current st (business_key (fst x)) = Some (fst x))"
proof -
  obtain gs where gs: "comps S blk = Inr gs" "distinct (concat gs)" "set (concat gs) = pool_keys blk"
    using partition [OF assms(1)] by blast
  obtain ds where ds: "collectE (close_component S st blk w) gs = Inr ds"
    "subseq (map (\<lambda>x. business_key (fst x)) ds) (concat gs)"
    "\<forall>x \<in> set ds. current st (business_key (fst x)) = Some (fst x)"
    using closing_components [OF _ assms(2,3)] gs(3) by blast
  then have "distinct (map (\<lambda>x. business_key (fst x)) ds)" using gs(2) subseq_distinct by blast
  moreover have "set (map (\<lambda>x. business_key (fst x)) ds) \<subseteq> pool_keys blk"
    using subseq_set [OF ds(2)] gs(3) by blast
  ultimately show ?thesis using gs(1) ds by auto
qed

end

interpretation comps: partitioner components
proof
  fix blk :: Block and S
  assume "distinct_ids blk"
  then obtain gs where gs: "components S blk = Inr gs" "distinct (concat gs)"
    "set gs = (\<lambda>k. filter (\<lambda>x. (k, x) \<in> conn (links S blk)) (sorted_list_of_set (pool_keys blk))) ` pool_keys blk"
    using components_spec by blast
  have "finite (pool_keys blk)" by (simp add: pool_keys_def)
  then have "set (concat gs) = pool_keys blk" using gs(3) by auto
  with gs show "\<exists>gs. components S blk = Inr gs \<and> distinct (concat gs) \<and> set (concat gs) = pool_keys blk"
    by blast
qed

lemma closing_spec:
  assumes "distinct_ids blk" "hist_inv st" "\<forall>key \<in> pool_keys blk. open_key st key"
  shows "\<exists>ds. closing S st blk = Inr ds \<and> distinct (map (\<lambda>x. business_key (fst x)) ds)
    \<and> (\<forall>x \<in> set ds. business_key (fst x) \<in> pool_keys blk
        \<and> current st (business_key (fst x)) = Some (fst x))"
  using comps.closing_total [OF assms] by (cases "watermark S st blk") (auto simp: closing_def)

section \<open>Finalising\<close>

definition same_clocks :: "Block \<Rightarrow> Block \<Rightarrow> bool" where
  "same_clocks blk blk' \<longleftrightarrow> latest blk' = latest blk \<and> (\<forall>side. final_references blk side \<subseteq> final_references blk' side)"

lemma same_clocks_refl [simp]: "same_clocks blk blk"
  by (simp add: same_clocks_def)

lemma same_clocks_trans: "same_clocks a b \<Longrightarrow> same_clocks b c \<Longrightarrow> same_clocks a c"
  by (auto simp: same_clocks_def)

text \<open>The state of one block while it settles, from where it started.\<close>

definition settling :: "BlockKey \<Rightarrow> Block \<times> Replay \<Rightarrow> Block \<times> Replay \<Rightarrow> bool" where
  "settling k b0 b1 \<longleftrightarrow> (case b0 of (blk, st) \<Rightarrow> case b1 of (blk', st') \<Rightarrow>
     block_ok k blk' st' \<and> hist_inv st' \<and> same_clocks blk blk' \<and> only_touches (pool_keys blk) st st'
     \<and> pool_keys blk' \<subseteq> pool_keys blk \<and> (\<forall>key \<in> pool_keys blk - pool_keys blk'. final_key st' key)
     \<and> pool_size blk' \<le> pool_size blk)"

lemma settling_refl: "block_ok k blk st \<Longrightarrow> hist_inv st \<Longrightarrow> settling k (blk, st) (blk, st)"
  by (simp add: settling_def)

lemma settling_trans:
  assumes "settling k a b" "settling k b c"
  shows "settling k a c"
proof -
  obtain blk0 st0 blk1 st1 blk2 st2 where abc: "a = (blk0, st0)" "b = (blk1, st1)" "c = (blk2, st2)"
    by (cases a; cases b; cases c) blast
  have t: "only_touches (pool_keys blk1) st1 st2" "pool_keys blk1 \<subseteq> pool_keys blk0"
    using assms abc by (auto simp: settling_def)
  have "final_key st2 key" if "key \<in> pool_keys blk0 - pool_keys blk2" for key
    using that assms abc only_touches_keys(3) [OF t(1), of key]
    by (cases "key \<in> pool_keys blk1") (auto simp: settling_def)
  then show ?thesis
    using assms abc only_touches_trans [OF _ only_touches_mono [OF t]]
    by (auto simp: settling_def intro: same_clocks_trans)
qed

definition pool_pop :: "string \<Rightarrow> string \<Rightarrow> Block \<Rightarrow> Block" where
  "pool_pop side i blk = blk\<lparr>pool := (pool blk)(side := dict_del i (pool blk side))\<rparr>"

lemma pool_pop_ids:
  "fst ` set (pool (pool_pop side i blk) s) = fst ` set (pool blk s) - (if s = side then {i} else {})"
  by (cases "s = side") (simp_all add: pool_pop_def)

lemma pool_del:
  assumes "distinct_ids blk" "side \<in> set SIDES" "i \<in> fst ` set (pool blk side)"
    and blk': "blk' = pool_pop side i blk"
  shows "pool_keys blk' = pool_keys blk - {(side, i)}" "distinct_ids blk'" "pool_size blk' < pool_size blk"
    "set (pool blk' s) \<subseteq> set (pool blk s)"
proof -
  have "Pair s ` fst ` set (pool blk' s) = Pair s ` fst ` set (pool blk s) - {(side, i)}" for s
    unfolding blk' pool_pop_ids by auto
  then show "pool_keys blk' = pool_keys blk - {(side, i)}" by (simp only: pool_keys_def UN_simps)
  show "distinct_ids blk'" using assms(1) by (simp add: distinct_ids_def blk' pool_pop_def)
  show "pool_size blk' < pool_size blk"
    using assms(2) length_dict_del_less [OF assms(3)] by (auto simp: pool_size_def blk' pool_pop_def SIDES_def)
  show "set (pool blk' s) \<subseteq> set (pool blk s)" by (simp add: blk' pool_pop_def dict_del_def)
qed

lemma finalise_step:
  assumes "block_ok k blk st" "hist_inv st" "business_key d \<in> pool_keys blk"
    and "not_final st (business_key d)"
  shows "\<exists>blk' st'. finalise H S (blk, st) (d, frc) = Inr (blk', st') \<and> settling k (blk, st) (blk', st')
    \<and> pool_keys blk' = pool_keys blk - {business_key d} \<and> pool_size blk' < pool_size blk
    \<and> only_touches {business_key d} st st'"
proof -
  obtain side i where key: "business_key d = (side, i)" by fastforce
  then have side: "side \<in> set SIDES" "i \<in> fst ` set (pool blk side)"
    using assms(3) by (auto simp: pool_keys_def)
  then obtain r where r: "map_of (pool blk side) i = Some r"
    by (metis domIff dom_map_of_conv_image_fst not_None_eq)
  let ?blk1 = "pool_pop side i blk"
  let ?p = "\<lparr>p_type = decision_type d, p_inputs = input_ids d, p_reason = dreason d,
               p_window_end = window_end d\<rparr>"
  let ?st = "emit H S (side, i) ?p FINAL frc st"
  define blk' where "blk' = (if truthy (reference r)
                  then ?blk1\<lparr>final_references := (final_references ?blk1)
                         (side := insert (the (reference r)) (final_references ?blk1 side))\<rparr>
                  else ?blk1)"
  have step: "finalise H S (blk, st) (d, frc) = Inr (blk', ?st)"
    unfolding finalise_def blk'_def pool_pop_def by (simp add: key r Let_def dict_getE_def)
  have pool: "pool blk' = pool ?blk1" by (simp add: blk'_def)
  have dist: "distinct_ids blk" using assms(1) by (simp add: block_ok_def)
  have keys: "pool_keys blk' = pool_keys blk - {(side, i)}" "distinct_ids blk'" "pool_size blk' < pool_size blk"
    "set (pool blk' s) \<subseteq> set (pool blk s)" for s
    using pool_del [OF dist side refl] pool by (simp_all add: pool_keys_def distinct_ids_def pool_size_def)
  have touches: "only_touches {(side, i)} st ?st" by (rule emit_touches)
  have "block_ok k blk' st" using assms(1) keys(2,4) unfolding block_ok_def by blast
  then have ok: "block_ok k blk' ?st" using emit_frame(1) by (rule block_ok_journal)
  have hist: "hist_inv ?st" using assms(2,4) key by (intro emit_hist) auto
  have "final_key ?st (side, i)" by (rule emit_status(2)) simp
  moreover have "same_clocks blk blk'" by (auto simp: same_clocks_def blk'_def pool_pop_def)
  ultimately have "settling k (blk, st) (blk', ?st)"
    using ok hist keys only_touches_mono [OF touches, of "pool_keys blk"] assms(3) key
    by (auto simp: settling_def)
  with step keys touches key show ?thesis by auto
qed

lemma finalise_fold:
  assumes "block_ok k blk st" "hist_inv st" "distinct (map (\<lambda>x. business_key (fst x)) ds)"
    and "\<forall>x \<in> set ds. business_key (fst x) \<in> pool_keys blk \<and> not_final st (business_key (fst x))"
  shows "\<exists>blk' st'. foldE (finalise H S) (blk, st) ds = Inr (blk', st') \<and> settling k (blk, st) (blk', st')
    \<and> (ds \<noteq> [] \<longrightarrow> pool_size blk' < pool_size blk)
    \<and> (\<forall>key. key \<notin> (\<lambda>x. business_key (fst x)) ` set ds \<longrightarrow> current st' key = current st key)
    \<and> pool_keys blk' = pool_keys blk - (\<lambda>x. business_key (fst x)) ` set ds"
  using assms
proof (induction ds arbitrary: blk st)
  case Nil
  then show ?case by (auto intro: settling_refl)
next
  case (Cons x ds)
  obtain d frc where x: "x = (d, frc)" by fastforce
  obtain blk1 st1 where b1: "finalise H S (blk, st) x = Inr (blk1, st1)" "settling k (blk, st) (blk1, st1)"
    "pool_keys blk1 = pool_keys blk - {business_key d}" "pool_size blk1 < pool_size blk"
    "only_touches {business_key d} st st1"
    using finalise_step [OF Cons.prems(1,2), of d H S frc] Cons.prems(4) x by auto
  have rest: "business_key (fst y) \<in> pool_keys blk1 \<and> not_final st1 (business_key (fst y))" if "y \<in> set ds" for y
  proof -
    have "business_key (fst y) \<noteq> business_key d"
      using Cons.prems(3) that x by (simp add: image_iff) (metis (lifting) fst_conv)
    then show ?thesis
      using Cons.prems(4) that b1(3) only_touches_keys(2) [OF b1(5)] by auto
  qed
  have "block_ok k blk1 st1" "hist_inv st1" using b1(2) by (auto simp: settling_def)
  then obtain blk' st' where b': "foldE (finalise H S) (blk1, st1) ds = Inr (blk', st')"
    "settling k (blk1, st1) (blk', st')"
    "\<forall>key. key \<notin> (\<lambda>x. business_key (fst x)) ` set ds \<longrightarrow> current st' key = current st1 key"
    "pool_keys blk' = pool_keys blk1 - (\<lambda>x. business_key (fst x)) ` set ds"
    using Cons.IH [of blk1 st1] Cons.prems(3) rest by auto
  have "pool_size blk' < pool_size blk" using b1(4) b'(2) by (auto simp: settling_def)
  moreover have "current st' key = current st key"
    if "key \<notin> (\<lambda>x. business_key (fst x)) ` set (x # ds)" for key
    using that b'(3) only_touches_keys(4) [OF b1(5), of key] x by auto
  ultimately show ?case
    using b1(1,3) b' settling_trans [OF b1(2) b'(2)] x by auto
qed

section \<open>Settling\<close>

lemma settle_spec:
  assumes "block_ok k blk st" "hist_inv st" "\<forall>key \<in> pool_keys blk. open_key st key"
    and "pool_size blk \<le> n" "pool_size blk \<le> 10 ^ 23"
  shows "\<exists>blk' st'. settle n H S (blk, st) = Inr (blk', st') \<and> settling k (blk, st) (blk', st')
    \<and> (\<forall>key \<in> pool_keys blk'. open_key st' key) \<and> closing S st' blk' = Inr []"
  using assms
proof (induction n arbitrary: blk st rule: less_induct)
  case (less n)
  have dist: "distinct_ids blk" using less.prems(1) by (simp add: block_ok_def)
  obtain ds where ds: "closing S st blk = Inr ds" "distinct (map (\<lambda>x. business_key (fst x)) ds)"
    "\<forall>x \<in> set ds. business_key (fst x) \<in> pool_keys blk \<and> current st (business_key (fst x)) = Some (fst x)"
    using closing_spec [OF dist less.prems(2,3)] by blast
  show ?case
  proof (cases "ds = []")
    case True
    with ds(1) less.prems show ?thesis
      by (intro exI [of _ blk] exI [of _ st]) (simp add: settling_refl)
  next
    case False
    then have pos: "0 < pool_size blk"
      using ds(3) by (cases ds) (auto simp: pool_keys_sides pool_size_def)
    then obtain m where m: "n = Suc m" using less.prems(4) by (cases n) auto
    have "\<forall>x \<in> set ds. business_key (fst x) \<in> pool_keys blk \<and> not_final st (business_key (fst x))"
      using ds(3) less.prems(3) open_not_final by blast
    then obtain blk1 st1 where b1: "foldE (finalise H S) (blk, st) ds = Inr (blk1, st1)"
      "settling k (blk, st) (blk1, st1)" "pool_size blk1 < pool_size blk"
      "\<forall>key. key \<notin> (\<lambda>x. business_key (fst x)) ` set ds \<longrightarrow> current st1 key = current st key"
      "pool_keys blk1 = pool_keys blk - (\<lambda>x. business_key (fst x)) ` set ds"
      using finalise_fold [OF less.prems(1,2) ds(2)] False by blast
    have ok1: "block_ok k blk1 st1" "hist_inv st1" using b1(2) by (auto simp: settling_def)
    have open1: "\<forall>key \<in> pool_keys blk1. open_key st1 key"
      using b1(4,5) less.prems(3) by (auto simp: open_key_def)
    have size1: "pool_size blk1 \<le> 10 ^ 23" "pool_size blk1 \<le> m" using b1(3) less.prems(4,5) m by auto
    let ?again = "pool blk1 LEFT \<noteq> [] \<or> pool blk1 RIGHT \<noteq> []"
    obtain st2 where st2: "(if ?again then evaluate H S blk1 st1 else Inr st1) = Inr st2" "hist_inv st2"
      "\<forall>key \<in> pool_keys blk1. open_key st2 key" "only_touches (pool_keys blk1) st1 st2"
      using evaluate_spec [OF ok1 _ size1(1), of H S] open1 open_not_final ok1(2) by (cases ?again) auto
    have ok2: "block_ok k blk1 st2"
      using ok1(1) st2(4) by (auto simp: only_touches_def intro: block_ok_journal)
    have s12: "settling k (blk1, st1) (blk1, st2)" using ok2 st2 by (auto simp: settling_def)
    obtain blk' st' where b': "settle m H S (blk1, st2) = Inr (blk', st')" "settling k (blk1, st2) (blk', st')"
      "\<forall>key \<in> pool_keys blk'. open_key st' key" "closing S st' blk' = Inr []"
      using less.IH [of m, OF _ ok2 st2(2,3)] size1 m by auto
    have "settle n H S (blk, st) = Inr (blk', st')"
      using ds(1) False b1(1) st2(1) b'(1) m by (cases ?again) simp_all
    with b' settling_trans [OF settling_trans [OF b1(2) s12] b'(2)] show ?thesis by blast
  qed
qed

end
