(* ===== verification/Stream_Replay.thy ===== *)
theory Stream_Replay
  imports Stream_Settle
begin

text \<open>
  The invariant of a replay, kept by every journal entry: each record seen is open in the
  pool of its block with a provisional decision, or final and withdrawn.
\<close>

section \<open>The invariant\<close>

definition pooled :: "Replay \<Rightarrow> BlockKey \<Rightarrow> Block \<Rightarrow> bool" where
  "pooled st k blk \<longleftrightarrow> block_ok k blk st \<and> (\<forall>key \<in> pool_keys blk. open_key st key)
     \<and> int (pool_size blk) \<le> position st + 1"

definition replay_inv :: "Replay \<Rightarrow> bool" where
  "replay_inv st \<longleftrightarrow> hist_inv st \<and> distinct (map fst (r_blocks st)) \<and> -1 \<le> position st
     \<and> (\<forall>k blk. map_of (r_blocks st) k = Some blk \<longrightarrow> pooled st k blk)
     \<and> (\<forall>key. seen st key = None \<longrightarrow> current st key = None)
     \<and> (\<forall>key r. seen st key = Some r \<longrightarrow> fst key \<in> set SIDES \<and> rec_id r = snd key
          \<and> (final_key st key
             \<or> (\<exists>blk. map_of (r_blocks st) (blocking_key r) = Some blk \<and> key \<in> pool_keys blk)))"

lemma replay_invD:
  assumes "replay_inv st"
  shows "hist_inv st" "distinct (map fst (r_blocks st))" "-1 \<le> position st"
    "map_of (r_blocks st) k = Some blk \<Longrightarrow> pooled st k blk"
    "seen st key = None \<Longrightarrow> current st key = None"
    "seen st key = Some r \<Longrightarrow> fst key \<in> set SIDES \<and> rec_id r = snd key"
    "seen st key = Some r \<Longrightarrow> final_key st key
      \<or> (\<exists>blk. map_of (r_blocks st) (blocking_key r) = Some blk \<and> key \<in> pool_keys blk)"
  using assms unfolding replay_inv_def by blast+

lemma init_replay_inv: "replay_inv init_replay"
  by (simp add: replay_inv_def init_replay_def hist_inv_def last_opt_def)

text \<open>A key is open in one block only: the one its record belongs to.\<close>

lemma block_ok_seen:
  assumes "block_ok k blk st" "key \<in> pool_keys blk"
  shows "\<exists>r. seen st key = Some r \<and> blocking_key r = k"
  using assms unfolding block_ok_def pool_keys_def by fastforce

lemma pools_apart:
  assumes "block_ok k blk st" "block_ok k' blk' st" "k \<noteq> k'"
  shows "pool_keys blk \<inter> pool_keys blk' = {}"
proof (rule ccontr)
  assume "pool_keys blk \<inter> pool_keys blk' \<noteq> {}"
  then obtain key where "key \<in> pool_keys blk" "key \<in> pool_keys blk'" by blast
  then show False using block_ok_seen [OF assms(1)] block_ok_seen [OF assms(2)] assms(3) by fastforce
qed

section \<open>One block of the replay\<close>

text \<open>
  A block that was worked on is put back: if the work settles it, from a state where the
  other blocks are consistent, the whole replay is consistent again.
\<close>

lemma put_block:
  assumes inv: "replay_inv st" and blk: "map_of (r_blocks st) k = Some blk"
    and s: "settling k (blk, st) (blk', st')" "\<forall>key \<in> pool_keys blk'. open_key st' key"
  shows "replay_inv (st'\<lparr>r_blocks := dict_put k blk' (r_blocks st')\<rparr>)"
proof -
  let ?st = "st'\<lparr>r_blocks := dict_put k blk' (r_blocks st')\<rparr>"
  have touch: "only_touches (pool_keys blk) st st'" and sub: "pool_keys blk' \<subseteq> pool_keys blk"
    and ok': "block_ok k blk' st'" and hist': "hist_inv st'" and size: "pool_size blk' \<le> pool_size blk"
    and fin: "\<forall>key \<in> pool_keys blk - pool_keys blk'. final_key st' key"
    using s(1) by (auto simp: settling_def)
  have j: "seen st' = seen st" "position st' = position st" "r_blocks st' = r_blocks st"
    using touch by (simp_all add: only_touches_def same_journal_def)
  have pk: "pooled st k blk" using replay_invD(4) [OF inv blk] .
  then have ok: "block_ok k blk st" by (simp add: pooled_def)
  have "pooled ?st k2 blk2" if "map_of (r_blocks ?st) k2 = Some blk2" for k2 blk2
  proof (cases "k2 = k")
    case True
    then show ?thesis
      using that ok' s(2) size pk j(2) by (simp add: pooled_def block_ok_def open_key_def)
  next
    case False
    then have p2: "pooled st k2 blk2" using that replay_invD(4) [OF inv] by (simp add: j(3))
    then have "pool_keys blk2 \<inter> pool_keys blk = {}"
      using pools_apart [OF _ ok False] by (simp add: pooled_def)
    then have "\<forall>key \<in> pool_keys blk2. open_key st' key"
      using p2 only_touches_keys(1) [OF touch] by (auto simp: pooled_def)
    with p2 show ?thesis by (simp add: pooled_def block_ok_def open_key_def j)
  qed
  moreover have "current st' key = None" if "seen st key = None" for key
  proof -
    have "key \<notin> pool_keys blk" using block_ok_seen [OF ok] that by fastforce
    then show ?thesis using only_touches_keys(4) [OF touch] replay_invD(5) [OF inv that] by simp
  qed
  moreover have "final_key st' key \<or> (\<exists>b. map_of (r_blocks ?st) (blocking_key r) = Some b \<and> key \<in> pool_keys b)"
    if r: "seen st key = Some r" for key r
  proof (cases "key \<in> pool_keys blk")
    case True
    then have "blocking_key r = k" using block_ok_seen [OF ok] r by fastforce
    with True fin show ?thesis by (cases "key \<in> pool_keys blk'") auto
  next
    case False
    with replay_invD(7) [OF inv r] show ?thesis
      using only_touches_keys(3) [OF touch False] blk by (auto simp: j(3))
  qed
  ultimately show ?thesis
    using hist' replay_invD(2,3,6) [OF inv] j unfolding replay_inv_def
    by (simp add: hist_inv_def final_key_def)
qed

text \<open>What a step on one block leaves alone.\<close>

definition block_step :: "Replay \<Rightarrow> Replay \<Rightarrow> bool" where
  "block_step st st' \<longleftrightarrow> seen st' = seen st \<and> r_duplicates st' = r_duplicates st
     \<and> progress st' = progress st \<and> position st' = position st
     \<and> fst ` set (r_blocks st') = fst ` set (r_blocks st)
     \<and> (\<exists>new. r_decisions st' = r_decisions st @ new)"

lemma block_step_trans: "block_step a b \<Longrightarrow> block_step b c \<Longrightarrow> block_step a c"
  unfolding block_step_def by (metis append.assoc)

lemma pooled_size: "pooled st k blk \<Longrightarrow> position st < 10 ^ 23 \<Longrightarrow> pool_size blk \<le> 10 ^ 23"
proof -
  assume "pooled st k blk" "position st < 10 ^ 23"
  then have "int (pool_size blk) \<le> int (10 ^ 23)" by (simp add: pooled_def)
  then show ?thesis by (simp only: of_nat_le_iff)
qed

lemma settle_block_spec:
  assumes "replay_inv st" "k \<in> fst ` set (r_blocks st)" "position st < 10 ^ 23"
  shows "\<exists>st'. settle_block H S k st = Inr st' \<and> replay_inv st' \<and> block_step st st'"
proof -
  obtain blk where blk: "map_of (r_blocks st) k = Some blk"
    using assms(2) by (metis domIff dom_map_of_conv_image_fst not_None_eq)
  have p: "pooled st k blk" using replay_invD(4) [OF assms(1) blk] .
  then have size: "pool_size blk \<le> 10 ^ 23" using assms(3) pooled_size by blast
  obtain blk' st' where b: "settle (pool_size blk) H S (blk, st) = Inr (blk', st')"
    "settling k (blk, st) (blk', st')" "\<forall>key \<in> pool_keys blk'. open_key st' key"
    using settle_spec [OF _ replay_invD(1) [OF assms(1)] _ le_refl size] p
    unfolding pooled_def by blast
  have "only_touches (pool_keys blk) st st'" using b(2) by (simp add: settling_def)
  then have "block_step st (st'\<lparr>r_blocks := dict_put k blk' (r_blocks st')\<rparr>)"
    using assms(2) by (auto simp: block_step_def only_touches_def same_journal_def)
  with put_block [OF assms(1) blk b(2,3)] show ?thesis
    by (simp add: settle_block_def blk b(1) del: settle.simps)
qed

lemma settle_blocks_spec:
  assumes "set ks \<subseteq> fst ` set (r_blocks st)" "replay_inv st" "position st < 10 ^ 23"
  shows "\<exists>st'. foldE (\<lambda>s k. settle_block H S k s) st ks = Inr st' \<and> replay_inv st' \<and> block_step st st'"
  using assms
proof (induction ks arbitrary: st)
  case (Cons k ks)
  then obtain st1 where st1: "settle_block H S k st = Inr st1" "replay_inv st1" "block_step st st1"
    using settle_block_spec [of st k H S] by auto
  then obtain st' where "foldE (\<lambda>s k. settle_block H S k s) st1 ks = Inr st'" "replay_inv st'" "block_step st1 st'"
    using Cons.IH [of st1] Cons.prems by (auto simp: block_step_def)
  with st1 show ?case using block_step_trans by auto
qed (simp add: block_step_def)

section \<open>Journal entries\<close>

lemma empty_block_pooled: "-1 \<le> position st \<Longrightarrow> pooled st k empty_block"
  by (simp add: pooled_def empty_block_def block_ok_def distinct_ids_def pool_keys_def pool_size_def)

text \<open>The state of an arrival that was not seen before, when its block has been looked up.\<close>

definition noted :: "string \<Rightarrow> Record \<Rightarrow> Replay \<Rightarrow> Block \<Rightarrow> Replay" where
  "noted side r st blk =
     st\<lparr>seen := (seen st)((side, rec_id r) \<mapsto> r), position := position st + 1,
        r_blocks := dict_put (blocking_key r) blk (r_blocks st)\<rparr>"

definition block_for :: "Replay \<Rightarrow> Record \<Rightarrow> Block" where
  "block_for st r = (case map_of (r_blocks st) (blocking_key r) of None \<Rightarrow> empty_block | Some b \<Rightarrow> b)"

lemma noted_sel [simp]:
  "seen (noted side r st blk) = (seen st)((side, rec_id r) \<mapsto> r)"
  "position (noted side r st blk) = position st + 1"
  "map_of (r_blocks (noted side r st blk)) = (map_of (r_blocks st))(blocking_key r \<mapsto> blk)"
  "current (noted side r st blk) = current st" "r_decisions (noted side r st blk) = r_decisions st"
  "r_duplicates (noted side r st blk) = r_duplicates st" "progress (noted side r st blk) = progress st"
  by (simp_all add: noted_def)

lemma noted_hist: "hist_inv st \<Longrightarrow> hist_inv (noted side r st blk)"
  by (auto simp: hist_inv_def)

lemma noted_keys [simp]:
  "open_key (noted side r st blk) = open_key st" "final_key (noted side r st blk) = final_key st"
  "not_final (noted side r st blk) = not_final st"
  by (simp_all add: fun_eq_iff open_key_def final_key_def not_final_def)

lemma noted_pooled:
  assumes "pooled st k b" "seen st (side, rec_id r) = None"
  shows "pooled (noted side r st blk) k b" "(side, rec_id r) \<notin> pool_keys b"
proof -
  have ok: "block_ok k b st" using assms(1) by (simp add: pooled_def)
  show nk: "(side, rec_id r) \<notin> pool_keys b" using block_ok_seen [OF ok] assms(2) by fastforce
  have "block_ok k b (noted side r st blk)"
    using ok assms(2) unfolding block_ok_def by fastforce
  then show "pooled (noted side r st blk) k b" using assms(1) by (simp add: pooled_def)
qed

lemma block_for_pooled: "replay_inv st \<Longrightarrow> pooled st (blocking_key r) (block_for st r)"
  using replay_invD(3,4) empty_block_pooled by (auto simp: block_for_def split: option.splits)

lemma noted_invariant:
  assumes inv: "replay_inv st" and fresh: "seen st (side, rec_id r) = None" and side: "side \<in> set SIDES"
    and okb: "block_ok (blocking_key r) blk (noted side r st blk)"
    and size: "int (pool_size blk) \<le> position st + 2"
    and grows: "pool_keys (block_for st r) \<subseteq> pool_keys blk"
    and new: "final_key st' (side, rec_id r) \<or> (side, rec_id r) \<in> pool_keys blk"
    and st': "hist_inv st'" "only_touches ({(side, rec_id r)} \<union> pool_keys blk) (noted side r st blk) st'"
    and opn: "\<forall>key \<in> pool_keys blk. open_key st' key"
  shows "replay_inv st'"
proof -
  let ?key = "(side, rec_id r)" and ?st1 = "noted side r st blk"
  have j: "seen st' = seen ?st1" "position st' = position ?st1" "r_blocks st' = r_blocks ?st1"
    using st'(2) by (simp_all add: only_touches_def same_journal_def)
  have "pooled st' k b" if b: "map_of (r_blocks st') k = Some b" for k b
  proof (cases "k = blocking_key r")
    case True
    then show ?thesis using b okb size opn by (simp add: pooled_def block_ok_def j)
  next
    case False
    then have "pooled st k b" using b replay_invD(4) [OF inv] by (simp add: j)
    note b1 = noted_pooled(1) [OF this fresh, of blk] noted_pooled(2) [OF this fresh]
    have "pool_keys b \<inter> pool_keys blk = {}"
      using pools_apart [OF _ okb False] b1(1) by (simp add: pooled_def)
    then have "open_key st' key" if "key \<in> pool_keys b" for key
      using that b1 only_touches_keys(1) [OF st'(2), of key] by (auto simp: pooled_def)
    with b1(1) show ?thesis by (simp add: pooled_def block_ok_def j)
  qed
  moreover have "current st' key = None" if "seen st' key = None" for key
  proof -
    have k: "seen st key = None" "key \<noteq> ?key" using that j(1) by (auto split: if_splits)
    have "seen ?st1 key = None" using that j(1) by simp
    then have "key \<notin> pool_keys blk" using block_ok_seen [OF okb] by fastforce
    then show ?thesis using only_touches_keys(4) [OF st'(2)] replay_invD(5) [OF inv k(1)] k(2) by simp
  qed
  moreover have "fst key \<in> set SIDES \<and> rec_id x = snd key \<and> (final_key st' key
        \<or> (\<exists>b. map_of (r_blocks st') (blocking_key x) = Some b \<and> key \<in> pool_keys b))"
    if x: "seen st' key = Some x" for key x
  proof (cases "key = ?key")
    case True
    then show ?thesis using x new side by (auto simp: j)
  next
    case False
    then have sx: "seen st key = Some x" using x j(1) by simp
    show ?thesis
    proof (cases "key \<in> pool_keys blk")
      case True
      then have "blocking_key x = blocking_key r" using block_ok_seen [OF okb] sx False by fastforce
      with True replay_invD(6) [OF inv sx] show ?thesis by (simp add: j)
    next
      case nk: False
      then have f: "final_key st' key = final_key st key"
        using only_touches_keys(3) [OF st'(2), of key] False by simp
      from replay_invD(7) [OF inv sx] show ?thesis
      proof
        assume "\<exists>b. map_of (r_blocks st) (blocking_key x) = Some b \<and> key \<in> pool_keys b"
        then obtain b where b: "map_of (r_blocks st) (blocking_key x) = Some b" "key \<in> pool_keys b" by blast
        moreover have "blocking_key x \<noteq> blocking_key r"
          using b nk grows by (auto simp: block_for_def)
        ultimately show ?thesis using replay_invD(6) [OF inv sx] by (simp add: j)
      qed (use f replay_invD(6) [OF inv sx] in simp)
    qed
  qed
  moreover have "distinct (map fst (r_blocks st'))" using replay_invD(2) [OF inv] by (simp add: j noted_def)
  ultimately show ?thesis
    using st'(1) replay_invD(3) [OF inv] j(2) unfolding replay_inv_def by simp
qed

lemma admit_pool_keys: "side \<in> set SIDES \<Longrightarrow> pool_keys (admit side r blk) = insert (side, rec_id r) (pool_keys blk)"
  by (auto simp: pool_keys_sides admit_def SIDES_def)

lemma length_dict_put: "k \<notin> fst ` set d \<Longrightarrow> length (dict_put k v d) = Suc (length d)"
  by (induction d) (auto split: if_splits)

lemma dict_put_new: "k \<notin> fst ` set d \<Longrightarrow> set (dict_put k v d) = insert (k, v) (set d)"
  by (induction d) auto

lemma admit_ok:
  assumes "block_ok (blocking_key r) blk st" "seen st (side, rec_id r) = Some r"
    "rec_id r \<notin> fst ` set (pool blk side)"
  shows "block_ok (blocking_key r) (admit side r blk) st"
  using assms(1,2) by (simp add: block_ok_def distinct_ids_def admit_def dict_put_new [OF assms(3)])

lemma admit_pooled:
  assumes "pooled st (blocking_key r) blk" "seen st (side, rec_id r) = None" "side \<in> set SIDES"
  shows "block_ok (blocking_key r) (admit side r blk) (noted side r st blk')"
    "int (pool_size (admit side r blk)) \<le> position st + 2"
proof -
  have new: "rec_id r \<notin> fst ` set (pool blk side)"
    using noted_pooled(2) [OF assms(1,2)] assms(3) by (auto simp: pool_keys_def)
  have "block_ok (blocking_key r) blk (noted side r st blk')"
    using noted_pooled(1) [OF assms(1,2)] by (simp add: pooled_def)
  then show "block_ok (blocking_key r) (admit side r blk) (noted side r st blk')"
    by (rule admit_ok [OF _ _ new]) simp
  show "int (pool_size (admit side r blk)) \<le> position st + 2"
    using assms(1,3) length_dict_put [OF new]
    by (auto simp: pool_size_def admit_def pooled_def SIDES_def)
qed

lemma dict_put_put: "dict_put k v (dict_put k w d) = dict_put k v d"
  by (induction d) auto

lemma noted_again: "(noted side r st blk)\<lparr>r_blocks := dict_put (blocking_key r) blk' (r_blocks (noted side r st blk))\<rparr>
    = noted side r st blk'"
  by (simp add: noted_def dict_put_put)

text \<open>What a journal entry does to the clocks.\<close>

definition entry_step :: "Replay \<Rightarrow> Replay \<Rightarrow> bool" where
  "entry_step st st' \<longleftrightarrow> position st \<le> position st' \<and> position st' \<le> position st + 1
     \<and> (\<exists>new. r_decisions st' = r_decisions st @ new)
     \<and> (\<forall>key r. seen st key = Some r \<longrightarrow> seen st' key = Some r)"

lemma arrival_fresh:
  assumes inv: "replay_inv st" and pos: "position st + 1 < 10 ^ 23" and side: "arr_side a \<in> set SIDES"
    and fresh: "seen st (arr_side a, rec_id (arr_record a)) = None"
  shows "\<exists>st'. arrival H S a st = Inr st' \<and> replay_inv st' \<and> entry_step st st'
    \<and> seen st' = (seen st)((arr_side a, rec_id (arr_record a)) \<mapsto> arr_record a)
    \<and> r_duplicates st' = r_duplicates st"
proof -
  define side r where "side = arr_side a" and "r = arr_record a"
  note sr = side_def r_def
  let ?key = "(side, rec_id r)" and ?blk = "block_for st r"
  let ?st1 = "noted side r st ?blk"
  have fr: "seen st ?key = None" and sd: "side \<in> set SIDES" using fresh side by (simp_all add: sr)
  have p: "pooled st (blocking_key r) ?blk" using inv by (rule block_for_pooled)
  note p1 = noted_pooled [OF p fr]
  show ?thesis
  proof (cases "refusal_reason S ?st1 ?blk side r")
    case (Some why)
    let ?st' = "emit H S ?key \<lparr>p_type = BREAK, p_inputs = [rec_id r], p_reason = why,
                  p_window_end = horizon S r\<rparr> FINAL False ?st1"
    have run: "arrival H S a st = Inr ?st'"
      using side fr Some
      by (simp add: arrival_def check_side_def checkE_def Let_def noted_def block_for_def flip: sr)
    have nf: "not_final ?st1 ?key" using replay_invD(5) [OF inv fr] by (simp add: not_final_def)
    have touch: "only_touches {?key} ?st1 ?st'" by (rule emit_touches)
    have "replay_inv ?st'"
    proof (rule noted_invariant [OF inv fr sd _ _ subset_refl])
      show "block_ok (blocking_key r) ?blk ?st1" using p1(1) [of ?blk] by (simp add: pooled_def)
      show "int (pool_size ?blk) \<le> position st + 2" using p by (simp add: pooled_def)
      show "final_key ?st' ?key \<or> ?key \<in> pool_keys ?blk" by (simp add: emit_status)
      show "hist_inv ?st'" using noted_hist [OF replay_invD(1) [OF inv]] nf by (rule emit_hist) simp
      show "only_touches ({?key} \<union> pool_keys ?blk) ?st1 ?st'" by (rule only_touches_mono [OF touch]) simp
      show "\<forall>key \<in> pool_keys ?blk. open_key ?st' key"
      proof
        fix key
        assume k: "key \<in> pool_keys ?blk"
        then have "key \<noteq> ?key" using p1(2) by blast
        then have "open_key ?st' key = open_key ?st1 key" using only_touches_keys(1) [OF touch] by simp
        with p k show "open_key ?st' key" by (simp add: pooled_def)
      qed
    qed
    moreover have "same_journal ?st1 ?st'" "\<exists>new. r_decisions ?st' = r_decisions ?st1 @ new"
      using touch by (simp_all add: only_touches_def)
    ultimately show ?thesis
      using run fr by (auto simp: entry_step_def same_journal_def simp flip: sr)
  next
    case None
    let ?blk' = "admit side r ?blk"
    let ?st2 = "noted side r st ?blk'"
    have keys: "pool_keys ?blk' = insert ?key (pool_keys ?blk)" using sd by (rule admit_pool_keys)
    note adm = admit_pooled(1) [OF p fr sd, of ?blk'] admit_pooled(2) [OF p fr sd]
    have hist: "hist_inv ?st2" by (rule noted_hist [OF replay_invD(1) [OF inv]])
    have nf: "\<forall>key \<in> pool_keys ?blk'. not_final ?st2 key"
      unfolding keys using p replay_invD(5) [OF inv fr] open_not_final
      by (auto simp: pooled_def not_final_def open_key_def)
    have "int (pool_size ?blk') \<le> int (10 ^ 23)" using adm(2) pos by simp
    then have size: "pool_size ?blk' \<le> 10 ^ 23" by (simp only: of_nat_le_iff)
    obtain st3 where st3: "evaluate H S ?blk' ?st2 = Inr st3" "hist_inv st3"
      "\<forall>key \<in> pool_keys ?blk'. open_key st3 key" "only_touches (pool_keys ?blk') ?st2 st3"
      using evaluate_spec [OF adm(1) hist nf size] by blast
    have "pool_keys ?blk \<subseteq> pool_keys ?blk'" using keys by blast
    from noted_invariant [OF inv fr sd adm this _ st3(2) only_touches_mono [OF st3(4)] st3(3)]
    have inv3: "replay_inv st3" using keys by blast
    have j: "seen st3 = seen ?st2" "position st3 = position ?st2" "r_blocks st3 = r_blocks ?st2"
      "r_duplicates st3 = r_duplicates ?st2" "\<exists>new. r_decisions st3 = r_decisions ?st2 @ new"
      using st3(4) by (simp_all add: only_touches_def same_journal_def)
    have "map_of (r_blocks st3) (blocking_key r) = Some ?blk'" by (simp add: j)
    then have "blocking_key r \<in> fst ` set (r_blocks st3)" by (force dest: map_of_SomeD)
    moreover have "position st3 < 10 ^ 23" using pos j(2) by simp
    ultimately obtain st' where st': "settle_block H S (blocking_key r) st3 = Inr st'" "replay_inv st'"
      "block_step st3 st'"
      using settle_block_spec [OF inv3] by blast
    have "arrival H S a st = bindE (evaluate H S ?blk' (?st1\<lparr>r_blocks :=
          dict_put (blocking_key r) ?blk' (r_blocks ?st1)\<rparr>)) (settle_block H S (blocking_key r))"
      using side fr None
      by (simp add: arrival_def check_side_def checkE_def Let_def noted_def block_for_def flip: sr)
    then have "arrival H S a st = Inr st'" using st3(1) st'(1) by (simp add: noted_again)
    with st'(2,3) j fr show ?thesis by (auto simp: entry_step_def block_step_def simp flip: sr)
  qed
qed

lemma arrival_seen:
  assumes "arr_side a \<in> set SIDES" "seen st (arr_side a, rec_id (arr_record a)) = Some old"
  shows "arrival H S a st = (if record_eq old (arr_record a)
    then Inr (st\<lparr>r_duplicates := r_duplicates st + 1\<rparr>)
    else Inl (ValueError ''delivered with different content''))"
  using assms by (simp add: arrival_def check_side_def checkE_def Let_def)

lemma duplicates_inv: "replay_inv (st\<lparr>r_duplicates := n\<rparr>) = replay_inv st"
  by (simp add: replay_inv_def hist_inv_def pooled_def block_ok_def open_key_def final_key_def)

lemma progress_feed:
  assumes inv: "replay_inv st" and pos: "position st + 1 < 10 ^ 23" and side: "prog_side p \<in> set SIDES"
  shows "\<exists>st'. feed H S st (EProgress p) = Inr st' \<and> replay_inv st' \<and> entry_step st st'
    \<and> seen st' = seen st \<and> r_duplicates st' = r_duplicates st"
proof -
  let ?st1 = "st\<lparr>position := position st + 1,
                 progress := (progress st)(prog_side p := Some (case progress st (prog_side p) of
                   None \<Rightarrow> until p | Some x \<Rightarrow> max x (until p)))\<rparr>"
  have inv1: "replay_inv ?st1"
  proof -
    have "hist_inv ?st1" using replay_invD(1) [OF inv] unfolding hist_inv_def by fastforce
    moreover have "pooled ?st1 k blk" if "map_of (r_blocks st) k = Some blk" for k blk
      using replay_invD(4) [OF inv that] by (simp add: pooled_def block_ok_def open_key_def)
    ultimately show ?thesis
      using replay_invD(2,3,5,6,7) [OF inv] by (simp add: replay_inv_def final_key_def)
  qed
  obtain st' where "foldE (\<lambda>s k. settle_block H S k s) ?st1 (sort (map fst (r_blocks ?st1))) = Inr st'"
    "replay_inv st'" "block_step ?st1 st'"
    using settle_blocks_spec [OF _ inv1, of "sort (map fst (r_blocks ?st1))" H S] pos by auto
  then show ?thesis
    using side by (auto simp: feed_def check_side_def checkE_def Let_def entry_step_def block_step_def)
qed

end
