(* ===== verification/Stream_Props.thy ===== *)
theory Stream_Props
  imports Stream_Replay
begin

text \<open>
  What a replay promises: which journals it accepts, the chains of decisions it returns,
  that a record delivered twice changes nothing, and what its effective state is.
\<close>

section \<open>Which journals are accepted\<close>

definition valid_config :: "StreamConfig \<Rightarrow> bool" where
  "valid_config cfg \<longleftrightarrow> 0 \<le> lateness_days cfg
     \<and> (\<forall>d. reference_horizon_days cfg = Some d \<longrightarrow> date_days (tolerance cfg) \<le> d)
     \<and> (\<forall>d. max_component_days cfg = Some d \<longrightarrow> 0 \<le> d)"

fun entry_ok :: "Entry \<Rightarrow> bool" where
  "entry_ok (EArrival a) \<longleftrightarrow> arr_side a \<in> set SIDES"
| "entry_ok (EProgress p) \<longleftrightarrow> prog_side p \<in> set SIDES"
| "entry_ok EOther \<longleftrightarrow> False"

definition arrival_key :: "Arrival \<Rightarrow> BusinessKey" where
  "arrival_key a = (arr_side a, rec_id (arr_record a))"

text \<open>Every entry is one, on a side that exists, and a record delivered again has the same content.\<close>

definition well_formed :: "Entry list \<Rightarrow> bool" where
  "well_formed journal \<longleftrightarrow> (\<forall>e \<in> set journal. entry_ok e)
     \<and> (\<forall>a b. EArrival a \<in> set journal \<and> EArrival b \<in> set journal \<and> arrival_key a = arrival_key b
          \<longrightarrow> record_eq (arr_record a) (arr_record b))"

lemma record_eq_refl [simp]: "record_eq r r"
  by (simp add: record_eq_def dec_cmp)

lemma record_eq_sym: "record_eq a b \<Longrightarrow> record_eq b a"
  by (simp add: record_eq_def dec_cmp)

lemma record_eq_trans: "record_eq a b \<Longrightarrow> record_eq b c \<Longrightarrow> record_eq a c"
  by (simp add: record_eq_def dec_cmp)

text \<open>The same, entry by entry, from the records seen so far.\<close>

fun accepted :: "(BusinessKey \<rightharpoonup> Record) \<Rightarrow> Entry list \<Rightarrow> bool" where
  "accepted sn [] \<longleftrightarrow> True"
| "accepted sn (EArrival a # es) \<longleftrightarrow> arr_side a \<in> set SIDES
     \<and> (case sn (arrival_key a) of None \<Rightarrow> accepted (sn(arrival_key a \<mapsto> arr_record a)) es
        | Some old \<Rightarrow> record_eq old (arr_record a) \<and> accepted sn es)"
| "accepted sn (EProgress p # es) \<longleftrightarrow> prog_side p \<in> set SIDES \<and> accepted sn es"
| "accepted sn (EOther # es) \<longleftrightarrow> False"

definition delivered :: "Entry list \<Rightarrow> BusinessKey \<Rightarrow> Record set" where
  "delivered es k = {arr_record a | a. EArrival a \<in> set es \<and> arrival_key a = k}"

definition agree :: "(BusinessKey \<rightharpoonup> Record) \<Rightarrow> Entry list \<Rightarrow> BusinessKey \<Rightarrow> bool" where
  "agree sn es k \<longleftrightarrow>
     (\<forall>r r'. (sn k = Some r \<or> r \<in> delivered es k) \<and> r' \<in> delivered es k \<longrightarrow> record_eq r r')"

lemma delivered_Cons:
  "delivered (EArrival a # es) k = (if k = arrival_key a then insert (arr_record a) (delivered es k) else delivered es k)"
  "delivered (EProgress p # es) k = delivered es k" "delivered (EOther # es) k = delivered es k"
  by (auto simp: delivered_def)

lemma agree_fresh:
  assumes "sn (arrival_key a) = None"
  shows "agree (sn(arrival_key a \<mapsto> arr_record a)) es k \<longleftrightarrow> agree sn (EArrival a # es) k"
proof (cases "k = arrival_key a")
  case True
  then show ?thesis
    using assms record_eq_refl record_eq_sym unfolding agree_def delivered_Cons by auto
qed (simp add: agree_def delivered_Cons)

lemma agree_again:
  assumes "sn (arrival_key a) = Some old"
  shows "(record_eq old (arr_record a) \<and> (\<forall>k. agree sn es k)) \<longleftrightarrow> (\<forall>k. agree sn (EArrival a # es) k)"
proof -
  have other: "agree sn (EArrival a # es) k \<longleftrightarrow> agree sn es k" if "k \<noteq> arrival_key a" for k
    using that by (simp add: agree_def delivered_Cons)
  have own: "record_eq old (arr_record a) \<and> agree sn es (arrival_key a) \<longleftrightarrow> agree sn (EArrival a # es) (arrival_key a)"
  proof
    assume l: "record_eq old (arr_record a) \<and> agree sn es (arrival_key a)"
    have "record_eq old r" if "sn (arrival_key a) = Some r \<or> r \<in> delivered (EArrival a # es) (arrival_key a)" for r
      using that l assms by (auto simp: agree_def delivered_Cons)
    then show "agree sn (EArrival a # es) (arrival_key a)"
      unfolding agree_def by (meson record_eq_sym record_eq_trans)
  next
    assume "agree sn (EArrival a # es) (arrival_key a)"
    then show "record_eq old (arr_record a) \<and> agree sn es (arrival_key a)"
      using assms unfolding agree_def delivered_Cons by auto
  qed
  show ?thesis using other own by metis
qed

lemma accepted_iff: "accepted sn es \<longleftrightarrow> (\<forall>e \<in> set es. entry_ok e) \<and> (\<forall>k. agree sn es k)"
proof (induction sn es rule: accepted.induct)
  case (1 sn)
  show ?case by (simp add: agree_def delivered_def)
next
  case (2 sn a es)
  show ?case
  proof (cases "sn (arrival_key a)")
    case None
    show ?thesis
      unfolding accepted.simps None option.simps 2(1) [OF None] agree_fresh [of sn a es, OF None] by simp
  next
    case (Some old)
    show ?thesis
      unfolding accepted.simps Some option.simps 2(2) [OF Some] agree_again [of sn a old es, OF Some, symmetric]
      by auto
  qed
qed (auto simp: agree_def delivered_Cons)

lemma accepted_well_formed: "accepted Map.empty journal \<longleftrightarrow> well_formed journal"
proof -
  have "(\<forall>k. agree Map.empty journal k) \<longleftrightarrow>
      (\<forall>a b. EArrival a \<in> set journal \<and> EArrival b \<in> set journal \<and> arrival_key a = arrival_key b
          \<longrightarrow> record_eq (arr_record a) (arr_record b))"
    unfolding agree_def delivered_def by auto
  then show ?thesis unfolding accepted_iff well_formed_def by simp
qed

lemma init_settings_ok:
  "(\<exists>S. init_settings H V cfg = Inr S) \<longleftrightarrow> valid_config cfg"
  "init_settings H V cfg = Inl e \<Longrightarrow> \<exists>m. e = ValueError m"
  by (auto simp: init_settings_def valid_config_def check_days_def checkE_def Let_def bindE_eq_Inl
      split: option.splits if_splits)

lemma feed_spec:
  assumes inv: "replay_inv st" and pos: "position st + 1 < 10 ^ 23"
  shows "accepted (seen st) (e # es) \<Longrightarrow> \<exists>st'. feed H S st e = Inr st' \<and> replay_inv st' \<and> entry_step st st'
      \<and> accepted (seen st') es"
    and "\<not> accepted (seen st) (e # es) \<Longrightarrow> (\<exists>m. feed H S st e = Inl (ValueError m))
      \<or> (\<exists>st'. feed H S st e = Inr st' \<and> replay_inv st' \<and> entry_step st st' \<and> \<not> accepted (seen st') es)"
proof -
  have "(if accepted (seen st) (e # es) then \<exists>st'. feed H S st e = Inr st' \<and> replay_inv st' \<and> entry_step st st'
      \<and> accepted (seen st') es
    else (\<exists>m. feed H S st e = Inl (ValueError m))
      \<or> (\<exists>st'. feed H S st e = Inr st' \<and> replay_inv st' \<and> entry_step st st' \<and> \<not> accepted (seen st') es))"
  proof (cases e)
    case (EArrival a)
    show ?thesis
    proof (cases "arr_side a \<in> set SIDES")
      case False
      then show ?thesis by (simp add: EArrival feed_def arrival_def check_side_def checkE_def)
    next
      case side: True
      show ?thesis
      proof (cases "seen st (arrival_key a)")
        case None
        then obtain st' where "feed H S st e = Inr st'" "replay_inv st'" "entry_step st st'"
          "seen st' = (seen st)(arrival_key a \<mapsto> arr_record a)"
          using arrival_fresh [OF inv pos side, of H S] by (auto simp: EArrival feed_def arrival_key_def)
        then show ?thesis using None by (simp add: EArrival side)
      next
        case (Some old)
        then have "feed H S st e = (if record_eq old (arr_record a)
            then Inr (st\<lparr>r_duplicates := r_duplicates st + 1\<rparr>)
            else Inl (ValueError ''delivered with different content''))"
          using arrival_seen [OF side] by (simp add: EArrival feed_def arrival_key_def)
        then show ?thesis
          using inv Some side by (auto simp: EArrival duplicates_inv entry_step_def)
      qed
    qed
  next
    case (EProgress p)
    show ?thesis
    proof (cases "prog_side p \<in> set SIDES")
      case True
      with progress_feed [OF inv pos True, of H S] show ?thesis by (auto simp: EProgress)
    qed (simp add: EProgress feed_def check_side_def checkE_def)
  qed (simp add: feed_def)
  then show "accepted (seen st) (e # es) \<Longrightarrow> \<exists>st'. feed H S st e = Inr st' \<and> replay_inv st' \<and> entry_step st st'
      \<and> accepted (seen st') es"
    and "\<not> accepted (seen st) (e # es) \<Longrightarrow> (\<exists>m. feed H S st e = Inl (ValueError m))
      \<or> (\<exists>st'. feed H S st e = Inr st' \<and> replay_inv st' \<and> entry_step st st' \<and> \<not> accepted (seen st') es)"
    by (auto split: if_splits)
qed

lemma entry_bound:
  "entry_step st st' \<Longrightarrow> position st + int (length (e # es)) < 10 ^ 23 \<Longrightarrow> position st' + int (length es) < 10 ^ 23"
  by (auto simp: entry_step_def)

lemma feed_all:
  assumes "replay_inv st" "position st + int (length es) < 10 ^ 23"
  shows "accepted (seen st) es \<Longrightarrow> \<exists>st'. foldE (feed H S) st es = Inr st' \<and> replay_inv st'"
    and "\<not> accepted (seen st) es \<Longrightarrow> \<exists>m. foldE (feed H S) st es = Inl (ValueError m)"
  using assms
proof (induction es arbitrary: st)
  case (Cons e es)
  {
    case 1
    then have "position st + 1 < 10 ^ 23" by simp
    then obtain st' where "feed H S st e = Inr st'" "replay_inv st'" "entry_step st st'" "accepted (seen st') es"
      using feed_spec(1) [OF 1(2) _ 1(1), of H S] by blast
    moreover from this(3) 1(3) have "position st' + int (length es) < 10 ^ 23" by (rule entry_bound)
    ultimately show ?case using Cons.IH(1) by simp
  next
    case 2
    then have pos: "position st + 1 < 10 ^ 23" by simp
    from feed_spec(2) [OF 2(2) pos 2(1), of H S] show ?case
    proof
      assume "\<exists>m. feed H S st e = Inl (ValueError m)"
      then show ?thesis by auto
    next
      assume "\<exists>st'. feed H S st e = Inr st' \<and> replay_inv st' \<and> entry_step st st' \<and> \<not> accepted (seen st') es"
      then obtain st' where st': "feed H S st e = Inr st'" "replay_inv st'" "entry_step st st'"
        "\<not> accepted (seen st') es" by blast
      from st'(3) 2(3) have "position st' + int (length es) < 10 ^ 23" by (rule entry_bound)
      with st' show ?thesis using Cons.IH(2) by simp
    qed
  }
qed simp_all

lemma replay_returns_iff:
  assumes "length journal \<le> 10 ^ 22"
  shows "(\<exists>res. replay H V journal cfg = Inr res) \<longleftrightarrow> valid_config cfg \<and> well_formed journal"
    and "replay H V journal cfg = Inl e \<Longrightarrow> \<exists>m. e = ValueError m"
    and "init_settings H V cfg = Inr S \<Longrightarrow> foldE (feed H S) init_replay journal = Inr st \<Longrightarrow> replay_inv st"
proof -
  have "int (length journal) \<le> int (10 ^ 22)" using assms by (simp only: of_nat_le_iff)
  then have pos: "position init_replay + int (length journal) < 10 ^ 23" by (simp add: init_replay_def)
  have sn: "seen init_replay = Map.empty" by (simp add: init_replay_def)
  note all = feed_all [OF init_replay_inv pos, unfolded sn accepted_well_formed]
  have "((\<exists>res. replay H V journal cfg = Inr res) \<longleftrightarrow> valid_config cfg \<and> well_formed journal)
      \<and> (\<forall>e. replay H V journal cfg = Inl e \<longrightarrow> (\<exists>m. e = ValueError m))"
  proof (cases "init_settings H V cfg")
    case (Inl e)
    then show ?thesis
      using init_settings_ok(1) [of H V cfg] init_settings_ok(2) [OF Inl] by (auto simp: replay_def)
  next
    case (Inr S)
    then have "valid_config cfg" using init_settings_ok(1) by blast
    with all [of H S] Inr show ?thesis by (cases "well_formed journal") (auto simp: replay_def)
  qed
  then show "(\<exists>res. replay H V journal cfg = Inr res) \<longleftrightarrow> valid_config cfg \<and> well_formed journal"
    "replay H V journal cfg = Inl e \<Longrightarrow> \<exists>m. e = ValueError m" by blast+
  show "foldE (feed H S) init_replay journal = Inr st \<Longrightarrow> replay_inv st"
    using all [of H S] by (cases "well_formed journal") auto
qed


lemma replay_final_state:
  assumes "replay H V journal cfg = Inr res" "length journal \<le> 10 ^ 22"
  shows "\<exists>st. replay_inv st \<and> decisions res = r_decisions st \<and> duplicates res = r_duplicates st"
  using assms(1) replay_returns_iff(3) [OF assms(2)] by (fastforce simp: replay_def)

section \<open>The history\<close>

text \<open>
  C12 The decisions of a replay are append-only chains: for each business key they are
  numbered from 1, each but the first supersedes the one before it, only the last can be
  final, and a decision says it is final exactly when it carries the position where it
  became so.  Over all keys the positions never go back.
\<close>

theorem history_is_chains:
  assumes "replay H V journal cfg = Inr res" "length journal \<le> 10 ^ 22"
    and "ds = filter (\<lambda>d. business_key d = key) (decisions res)" "i < length ds"
  shows "chain_version (ds ! i) = int i + 1
    \<and> supersedes (ds ! i) = (if i = 0 then None else Some (decision_id (ds ! (i - 1))))
    \<and> (dstatus (ds ! i) = FINAL \<longrightarrow> Suc i = length ds)
    \<and> final_at (ds ! i) = (if dstatus (ds ! i) = FINAL then Some (decided_at (ds ! i)) else None)
    \<and> sorted (map decided_at (decisions res))"
proof -
  obtain st where st: "replay_inv st" "decisions res = r_decisions st"
    using replay_final_state [OF assms(1,2)] by blast
  then have "hist_inv st" by (simp add: replay_inv_def)
  then have "chain ds" "sorted (map decided_at (decisions res))"
    using st(2) assms(3) by (simp_all add: hist_inv_def)
  with assms(4) show ?thesis by (simp add: chain_def)
qed

lemma effective_fold:
  "map_of (fold (\<lambda>d st. if P d then dict_put (business_key d) d st else st) ds s) key =
     (case last_opt (filter (\<lambda>d. business_key d = key \<and> P d) ds) of None \<Rightarrow> map_of s key | Some d \<Rightarrow> Some d)"
  by (induction ds arbitrary: s) (auto simp: last_opt_def)

text \<open>
  C15 The effective state after a position is, for each business key, the last decision made
  by then.
\<close>

theorem effective_is_last:
  "map_of (effective res u) key = last_opt (filter (\<lambda>d. business_key d = key
     \<and> (case u of None \<Rightarrow> True | Some p \<Rightarrow> decided_at d \<le> p)) (decisions res))"
  unfolding effective_def effective_fold by (simp split: option.splits)

section \<open>Duplicates\<close>

text \<open>Nothing but \<open>arrival\<close> reads or writes the count of duplicates.\<close>

definition add_dup :: "int \<Rightarrow> Replay \<Rightarrow> Replay" where
  "add_dup n st = st\<lparr>r_duplicates := r_duplicates st + n\<rparr>"

lemma add_dup_sel [simp]:
  "seen (add_dup n st) = seen st" "progress (add_dup n st) = progress st"
  "r_blocks (add_dup n st) = r_blocks st" "current (add_dup n st) = current st"
  "r_decisions (add_dup n st) = r_decisions st" "position (add_dup n st) = position st"
  "r_duplicates (add_dup n st) = r_duplicates st + n"
  by (simp_all add: add_dup_def)

abbreviation liftd :: "('a \<Rightarrow> 'a) \<Rightarrow> 'a result \<Rightarrow> 'a result" where
  "liftd f \<equiv> map_sum id f"

lemma liftd_bind: "liftd f (bindE m g) = bindE m (\<lambda>x. liftd f (g x))"
  by (cases m) simp_all

lemma bind_liftd: "bindE (liftd f m) g = bindE m (\<lambda>x. g (f x))"
  by (cases m) simp_all

lemma foldE_liftd:
  "(\<And>s x. f (d s) x = liftd d (f s x)) \<Longrightarrow> foldE f (d s) xs = liftd d (foldE f s xs)"
  by (induction xs arbitrary: s) (simp_all add: liftd_bind bind_liftd)

lemma emit_dup: "emit H S key p status frc (add_dup n st) = add_dup n (emit H S key p status frc st)"
  by (simp add: emit_def Let_def add_dup_def)

lemma emit_changed_dup: "emit_changed H S ps (add_dup n st) key = liftd (add_dup n) (emit_changed H S ps st key)"
  by (cases "map_of ps key") (simp_all add: emit_changed_def dict_getE_def emit_dup)

lemma evaluate_dup: "evaluate H S blk (add_dup n st) = liftd (add_dup n) (evaluate H S blk st)"
  by (simp add: evaluate_def Let_def liftd_bind foldE_liftd emit_changed_dup)

lemma watermark_dup: "watermark S (add_dup n st) blk = watermark S st blk"
proof -
  have "side_progress (add_dup n st) = side_progress st" by (simp add: fun_eq_iff side_progress_def)
  then show ?thesis unfolding watermark_def by (rule arg_cong)
qed

lemma closing_dup: "closing S (add_dup n st) blk = closing S st blk"
proof -
  have "close_component S (add_dup n st) blk w = close_component S st blk w" for w
    by (simp add: close_component_def fun_eq_iff)
  then show ?thesis unfolding closing_def watermark_dup by presburger
qed

lemma finalise_dup: "finalise H S (map_prod id (add_dup n) bs) df = liftd (map_prod id (add_dup n)) (finalise H S bs df)"
  by (cases bs; cases df; cases "business_key (fst df)")
    (simp add: finalise_def Let_def liftd_bind emit_dup)

declare settle.simps [simp del]

lemma settle_0: "settle 0 H S (blk, st) =
    bindE (closing S st blk) (\<lambda>ds. if ds = [] then Inr (blk, st) else Inl OutOfFuel)"
  by (subst settle.simps) (simp only: nat.case)

lemma settle_Suc: "settle (Suc m) H S (blk, st) =
    bindE (closing S st blk) (\<lambda>ds. if ds = [] then Inr (blk, st)
      else bindE (foldE (finalise H S) (blk, st) ds) (\<lambda>(blk', st').
        if pool blk' LEFT \<noteq> [] \<or> pool blk' RIGHT \<noteq> []
        then bindE (evaluate H S blk' st') (\<lambda>st''. settle m H S (blk', st''))
        else settle m H S (blk', st')))"
  by (subst settle.simps) (simp only: nat.case)

lemma settle_dup: "settle m H S (blk, add_dup n st) = liftd (map_prod id (add_dup n)) (settle m H S (blk, st))"
proof (induction m arbitrary: blk st)
  case 0
  show ?case by (cases "closing S st blk") (simp_all add: settle_0 closing_dup)
next
  case (Suc m)
  have fold: "foldE (finalise H S) (blk, add_dup n st) ds = liftd (map_prod id (add_dup n)) (foldE (finalise H S) (blk, st) ds)" for ds
    using foldE_liftd [of "finalise H S" "map_prod id (add_dup n)" "(blk, st)" ds] finalise_dup by simp
  show ?case
  proof (cases "closing S st blk")
    case (Inr ds)
    show ?thesis
    proof (cases "foldE (finalise H S) (blk, st) ds")
      case (Inr bs)
      obtain blk' st' where bs: "bs = (blk', st')" by fastforce
      show ?thesis
        by (cases "evaluate H S blk' st'")
          (simp_all add: settle_Suc closing_dup fold \<open>closing S st blk = Inr ds\<close> Inr bs evaluate_dup Suc.IH)
    qed (use Inr in \<open>simp add: settle_Suc closing_dup fold\<close>)
  qed (simp add: settle_Suc closing_dup)
qed

lemma add_dup_upd:
  "(add_dup n st)\<lparr>r_blocks := b\<rparr> = add_dup n (st\<lparr>r_blocks := b\<rparr>)"
  "(add_dup n st)\<lparr>seen := sn, position := q, r_blocks := b\<rparr> = add_dup n (st\<lparr>seen := sn, position := q, r_blocks := b\<rparr>)"
  "(add_dup n st)\<lparr>position := q, progress := pr\<rparr> = add_dup n (st\<lparr>position := q, progress := pr\<rparr>)"
  "(add_dup n st)\<lparr>r_duplicates := r_duplicates st + n + 1\<rparr> = add_dup n (st\<lparr>r_duplicates := r_duplicates st + 1\<rparr>)"
  by (simp_all add: add_dup_def)

lemma settle_block_dup: "settle_block H S k (add_dup n st) = liftd (add_dup n) (settle_block H S k st)"
proof (cases "map_of (r_blocks st) k")
  case (Some blk)
  show ?thesis
  proof (cases "settle (pool_size blk) H S (blk, st)")
    case (Inr bs)
    obtain blk' st' where "bs = (blk', st')" by fastforce
    with Inr Some show ?thesis by (simp add: settle_block_def settle_dup add_dup_upd)
  qed (simp add: settle_block_def settle_dup Some)
qed (simp add: settle_block_def)

lemma refusal_dup: "refusal_reason S (add_dup n st) blk side r = refusal_reason S st blk side r"
proof -
  show ?thesis unfolding refusal_reason_def watermark_dup ..
qed

lemma arrival_dup: "arrival H S a (add_dup n st) = liftd (add_dup n) (arrival H S a st)"
  by (simp add: arrival_def liftd_bind Let_def add_dup_upd refusal_dup emit_dup evaluate_dup bind_liftd
      settle_block_dup split: option.splits)

lemma feed_dup: "feed H S (add_dup n st) e = liftd (add_dup n) (feed H S st e)"
  by (cases e) (simp_all add: feed_def arrival_dup liftd_bind Let_def add_dup_upd foldE_liftd settle_block_dup)

lemma feed_all_dup: "foldE (feed H S) (add_dup n st) es = liftd (add_dup n) (foldE (feed H S) st es)"
  by (rule foldE_liftd) (rule feed_dup)

lemma feed_kept:
  assumes "foldE (feed H S) st es = Inr st'" "replay_inv st" "position st + int (length es) < 10 ^ 23"
  shows "replay_inv st'" "position st' \<le> position st + int (length es)"
    "seen st key = Some r \<Longrightarrow> seen st' key = Some r"
proof -
  have "replay_inv st' \<and> position st' \<le> position st + int (length es)
      \<and> (\<forall>key r. seen st key = Some r \<longrightarrow> seen st' key = Some r)"
    using assms
  proof (induction es arbitrary: st)
    case (Cons e es)
    from Cons.prems(1) obtain st1 where st1: "feed H S st e = Inr st1" "foldE (feed H S) st1 es = Inr st'" by auto
    have "position st + 1 < 10 ^ 23" using Cons.prems(3) by simp
    then have one: "replay_inv st1" "entry_step st st1"
      using feed_spec [OF Cons.prems(2), where e = e and es = es and H = H and S = S] st1(1) by fastforce+
    from Cons.IH [OF st1(2) one(1) entry_bound [OF one(2) Cons.prems(3)]] one(2) show ?case
      by (auto simp: entry_step_def)
  qed simp
  then show "replay_inv st'" "position st' \<le> position st + int (length es)"
    "seen st key = Some r \<Longrightarrow> seen st' key = Some r" by blast+
qed

lemma arrival_sees:
  assumes "feed H S st (EArrival a) = Inr st'" "replay_inv st" "position st + 1 < 10 ^ 23"
  shows "\<exists>r. seen st' (arrival_key a) = Some r"
proof -
  have side: "arr_side a \<in> set SIDES"
    using assms(1) by (auto simp: feed_def arrival_def check_side_def)
  show ?thesis
  proof (cases "seen st (arrival_key a)")
    case None
    with arrival_fresh [OF assms(2,3) side, of H S] assms(1) show ?thesis
      by (auto simp: feed_def arrival_key_def)
  next
    case (Some r)
    with arrival_seen [OF side, of st r H S] assms(1) show ?thesis
      by (auto simp: feed_def arrival_key_def split: if_splits)
  qed
qed

text \<open>
  C13 Delivering a record again changes nothing but the count of duplicates: take a journal
  that delivers a record, and later delivers it again; dropping the second delivery leaves
  every decision as it was.
\<close>

theorem redelivery_is_ignored:
  assumes "replay H V (j1 @ EArrival a # j2 @ EArrival b # j3) cfg = Inr res"
    and "arrival_key b = arrival_key a" "length (j1 @ EArrival a # j2 @ EArrival b # j3) \<le> 10 ^ 22"
  shows "replay H V (j1 @ EArrival a # j2 @ j3) cfg = Inr (res\<lparr>duplicates := duplicates res - 1\<rparr>)"
proof -
  let ?pre = "j1 @ EArrival a # j2"
  obtain S st where S: "init_settings H V cfg = Inr S"
    and st: "foldE (feed H S) init_replay (?pre @ EArrival b # j3) = Inr st"
    and res: "res = \<lparr>decisions = r_decisions st, duplicates = r_duplicates st\<rparr>"
    using assms(1) by (auto simp: replay_def)
  from st obtain st2 where st2: "foldE (feed H S) init_replay ?pre = Inr st2"
    "foldE (feed H S) st2 (EArrival b # j3) = Inr st" unfolding foldE_append by auto
  obtain st0 st1 where st1: "foldE (feed H S) init_replay j1 = Inr st0" "feed H S st0 (EArrival a) = Inr st1"
    "foldE (feed H S) st1 j2 = Inr st2"
    using st2(1) unfolding foldE_append by auto
  have "int (length ?pre + 1) \<le> int (10 ^ 22)" using assms(3) by (intro of_nat_mono) simp
  then have len: "int (length j1) + int (length j2) + 2 \<le> 10 ^ 22" by simp
  have pos0: "position init_replay = -1" by (simp add: init_replay_def)
  have k0: "replay_inv st0" "position st0 \<le> int (length j1) - 1"
    using feed_kept [OF st1(1) init_replay_inv] len pos0 by auto
  have k1: "foldE (feed H S) st0 [EArrival a] = Inr st1" using st1(2) by simp
  have inv1: "replay_inv st1" "position st1 \<le> int (length j1)"
    using feed_kept(1,2) [OF k1 k0(1)] k0(2) len by auto
  have "position st0 + 1 < 10 ^ 23" using k0(2) len by simp
  then have "\<exists>r. seen st1 (arrival_key a) = Some r"
    using arrival_sees [OF st1(2) k0(1)] by blast
  then obtain r where "seen st1 (arrival_key a) = Some r" by blast
  then have seen2: "seen st2 (arrival_key b) = Some r"
    using feed_kept(3) [OF st1(3) inv1(1)] inv1(2) len assms(2) by simp
  from st2(2) obtain st3 where st3: "feed H S st2 (EArrival b) = Inr st3" "foldE (feed H S) st3 j3 = Inr st" by auto
  have "arr_side b \<in> set SIDES" using st3(1) by (auto simp: feed_def arrival_def check_side_def)
  then have "st3 = add_dup 1 st2"
    using arrival_seen seen2 st3(1) by (auto simp: feed_def arrival_key_def add_dup_def split: if_splits)
  then have "liftd (add_dup 1) (foldE (feed H S) st2 j3) = Inr st" using st3(2) feed_all_dup by simp
  then obtain st' where st': "foldE (feed H S) st2 j3 = Inr st'" "st = add_dup 1 st'"
    by (cases "foldE (feed H S) st2 j3") auto
  have "foldE (feed H S) init_replay (?pre @ j3) = Inr st'"
    using st2(1) st'(1) by (simp only: foldE_append [of _ _ ?pre] bindE_simps)
  then show ?thesis using S st'(2) res by (simp add: replay_def)
qed

end
