(* ===== verification/Stream_Examples.thy ===== *)
theory Stream_Examples
  imports Stream_Props Engine_Examples
begin

text \<open>
  A replay evaluated in the kernel: one record arrives alone, gets a provisional break, and the
  progress of both sides makes it final.
\<close>

definition ex_config :: StreamConfig where
  "ex_config = \<lparr>tolerance = default_tolerance, lateness_days = 0, reference_horizon_days = None,
     max_component_days = None\<rparr>"

definition ex_settings :: Settings where
  "ex_settings = \<lparr>s_tol = default_tolerance, s_reference_days = 0, s_lateness = 0, s_max_component = None,
     s_ruleset = stream_ruleset_id id ex_config, s_version = ''1''\<rparr>"

lemma ex_settings_sel [simp]:
  "s_tol ex_settings = default_tolerance" "s_reference_days ex_settings = 0" "s_lateness ex_settings = 0"
  "s_max_component ex_settings = None"
  by (simp_all add: ex_settings_def)

lemma ex_init: "init_settings id ''1'' ex_config = Inr ex_settings"
  by (simp add: init_settings_def ex_config_def ex_settings_def check_days_def checkE_def)

definition ex_arrival :: Arrival where
  "ex_arrival = \<lparr>arr_side = ''left'', arr_record = A2, arr_source = '''', captured_at = None\<rparr>"

lemma ex_arrival_sel [simp]: "arr_side ex_arrival = LEFT" "arr_record ex_arrival = A2"
  by (simp_all add: ex_arrival_def LEFT_def)

definition ex_progress :: "string \<Rightarrow> Entry" where
  "ex_progress s = EProgress \<lparr>prog_side = s, until = 30\<rparr>"

definition ex_pool :: Block where
  "ex_pool = \<lparr>pool = (\<lambda>_. [])(LEFT := [(''A2'', A2)]), latest = (\<lambda>_. None)(LEFT := Some 20),
     final_references = (\<lambda>_. {})\<rparr>"

lemma ex_lonely: "\<exists>c. reconcile id [A2] [] (Some default_tolerance) = Inr
    \<lparr>matches = [], rejects = [\<lparr>rej_left_id = ''A2'', rej_right_id = None, reason = NO_CANDIDATE\<rparr>],
     counters = c, ruleset_id = tolerance_ruleset_id id default_tolerance\<rparr>"
proof -
  have "reconcile_block [A2] [] default_tolerance empty_acc = Inr \<lparr>acc_matches = [],
      acc_rejects = [\<lparr>rej_left_id = ''A2'', rej_right_id = None, reason = NO_CANDIDATE\<rparr>],
      acc_counters = [''unmatched_left'' \<mapsto> 1]\<rparr>"
    by (simp add: reconcile_block_def rule_ids_def audit_unmatched_def audit_left_def empty_acc_def Let_def
        count_add_def)
  moreover have "block_keys [A2] [] = [[''ACC'']]"
    by (simp add: block_keys_def make_blocks_def add_left_def block_get_def)
  ultimately show ?thesis
    by (simp add: reconcile_blocks block_run_def tol_or_default_def merged_result_def)
qed

lemma ex_lonely_proposals:
  "block_proposals ex_settings [(''A2'', A2)] []
     \<lparr>matches = [], rejects = [\<lparr>rej_left_id = ''A2'', rej_right_id = None, reason = NO_CANDIDATE\<rparr>],
      counters = c, ruleset_id = rs\<rparr>
   = Inr [((LEFT, ''A2''), \<lparr>p_type = BREAK, p_inputs = [''A2''], p_reason = ''NO_CANDIDATE'', p_window_end = 20\<rparr>)]"
  by (simp add: block_proposals_def reject_reasons_def add_reason_def break_proposal_def break_text_def
      horizon_def truthy_def)

lemma ex_evaluate:
  assumes "current st (LEFT, ''A2'') = None"
  shows "evaluate id ex_settings ex_pool st = Inr (emit id ex_settings (LEFT, ''A2'')
    \<lparr>p_type = BREAK, p_inputs = [''A2''], p_reason = ''NO_CANDIDATE'', p_window_end = 20\<rparr> PROVISIONAL False st)"
proof -
  obtain c where "reconcile id [A2] [] (Some default_tolerance) = Inr
    \<lparr>matches = [], rejects = [\<lparr>rej_left_id = ''A2'', rej_right_id = None, reason = NO_CANDIDATE\<rparr>],
     counters = c, ruleset_id = tolerance_ruleset_id id default_tolerance\<rparr>"
    using ex_lonely by blast
  then show ?thesis
    using assms by (simp add: evaluate_def ex_pool_def ex_lonely_proposals emit_changed_def dict_getE_def)
qed

definition ex_d1 :: Decision where
  "ex_d1 = \<lparr>decision_id = digest id [''left'', ''A2'', ''1'', content_fingerprint id BREAK [''A2''] ''NO_CANDIDATE''],
     business_key = (LEFT, ''A2''), chain_version = 1, dstatus = PROVISIONAL, decision_type = BREAK,
     input_ids = [''A2''], dreason = ''NO_CANDIDATE'', druleset_id = s_ruleset ex_settings,
     engine_version = s_version ex_settings, window_end = 20, decided_at = 0, final_at = None,
     supersedes = None, forced = False\<rparr>"

definition ex_d2 :: Decision where
  "ex_d2 = \<lparr>decision_id = digest id [''left'', ''A2'', content_fingerprint id BREAK [''A2''] ''NO_CANDIDATE'', ''FINAL''],
     business_key = (LEFT, ''A2''), chain_version = 2, dstatus = FINAL, decision_type = BREAK,
     input_ids = [''A2''], dreason = ''NO_CANDIDATE'', druleset_id = s_ruleset ex_settings,
     engine_version = s_version ex_settings, window_end = 20, decided_at = 2, final_at = Some 2,
     supersedes = Some (decision_id ex_d1), forced = False\<rparr>"

definition ex_state :: "(string \<Rightarrow> date option) \<Rightarrow> int \<Rightarrow> Replay" where
  "ex_state pr q = \<lparr>seen = [(LEFT, ''A2'') \<mapsto> A2], r_duplicates = 0, progress = pr,
     r_blocks = [([''ACC''], ex_pool)], current = [(LEFT, ''A2'') \<mapsto> ex_d1], r_decisions = [ex_d1],
     position = q\<rparr>"

lemma ex_digit: "str_int 1 = ''1''"
  by code_simp

lemma ex_admit: "admit LEFT A2 empty_block = ex_pool"
  by (simp add: admit_def empty_block_def ex_pool_def)

lemma ex_closing_waits: "pr RIGHT = None \<Longrightarrow> closing ex_settings (ex_state pr q) ex_pool = Inr []"
  by (simp add: closing_def watermark_def side_progress_def ex_pool_def ex_state_def List.map_filter_simps
      split: option.splits)

lemma ex_feed1: "feed id ex_settings init_replay (EArrival ex_arrival) = Inr (ex_state (\<lambda>_. None) 0)"
proof -
  let ?st = "init_replay\<lparr>seen := [(LEFT, ''A2'') \<mapsto> A2], position := 0, r_blocks := [([''ACC''], ex_pool)]\<rparr>"
  have "current ?st (LEFT, ''A2'') = None" by (simp add: init_replay_def)
  from ex_evaluate [OF this] have ev: "evaluate id ex_settings ex_pool ?st = Inr (ex_state (\<lambda>_. None) 0)"
    by (simp add: emit_def init_replay_def ex_state_def ex_d1_def proposal_fingerprint_def ex_digit LEFT_def Let_def)
  have set: "settle_block id ex_settings [''ACC''] (ex_state (\<lambda>_. None) 0) = Inr (ex_state (\<lambda>_. None) 0)"
    using ex_closing_waits [of "\<lambda>_. None" 0] by (simp add: settle_block_def settle.simps ex_state_def)
  show ?thesis
    using ev set by (simp add: feed_def arrival_def check_side_def checkE_def SIDES_def init_replay_def
        refusal_reason_def watermark_def side_progress_def empty_block_def List.map_filter_simps
        ex_admit [unfolded empty_block_def])
qed

lemma ex_feed2:
  "feed id ex_settings (ex_state (\<lambda>_. None) 0) (ex_progress ''left'') = Inr (ex_state ((\<lambda>_. None)(LEFT := Some 30)) 1)"
proof -
  let ?st = "ex_state ((\<lambda>_. None)(LEFT := Some 30)) 1"
  have "settle_block id ex_settings [''ACC''] ?st = Inr ?st"
    using ex_closing_waits [of "(\<lambda>_. None)(LEFT := Some 30)" 1] by (simp add: settle_block_def settle.simps ex_state_def)
  then show ?thesis
    by (simp add: feed_def ex_progress_def check_side_def checkE_def SIDES_def ex_state_def LEFT_def)
qed

lemma ex_pool_sel: "pool ex_pool LEFT = [(''A2'', A2)]" "pool ex_pool RIGHT = []" "latest ex_pool LEFT = Some 20"
  "latest ex_pool RIGHT = None"
  by (simp_all add: ex_pool_def)

lemma ex_state_sel: "progress (ex_state pr q) = pr" "current (ex_state pr q) (LEFT, ''A2'') = Some ex_d1"
  by (simp_all add: ex_state_def)

lemma ex_components: "components ex_settings ex_pool = Inr [[(LEFT, ''A2'')]]"
  by (simp add: components_def link_all_def init_parent_def ex_pool_def SIDES_def add_to_group_def
      find_root_def dict_getE_def)

abbreviation ex_both :: "string \<Rightarrow> date option" where
  "ex_both \<equiv> (\<lambda>_. None)(LEFT := Some 30, RIGHT := Some 30)"

definition ex_end :: Replay where
  "ex_end = (ex_state ex_both 2)\<lparr>
     r_blocks := [([''ACC''], ex_pool\<lparr>pool := \<lambda>_. []\<rparr>)],
     current := [(LEFT, ''A2'') \<mapsto> ex_d2], r_decisions := [ex_d1, ex_d2]\<rparr>"

lemma ex_feed3:
  "feed id ex_settings (ex_state ((\<lambda>_. None)(LEFT := Some 30)) 1) (ex_progress ''right'') = Inr ex_end"
proof -
  let ?st = "ex_state ex_both 2"
  let ?blk = "ex_pool\<lparr>pool := \<lambda>_. []\<rparr>"
  have close: "closing ex_settings ?st ex_pool = Inr [(ex_d1, False)]"
    by (simp add: closing_def watermark_def side_progress_def ex_components close_component_def ex_state_sel
      List.map_filter_simps ex_pool_sel dict_getE_def horizon_def)
  have fin: "finalise id ex_settings (ex_pool, ?st) (ex_d1, False) = Inr (?blk, ex_end\<lparr>r_blocks := r_blocks ?st\<rparr>)"
    by (simp add: finalise_def ex_d1_def ex_end_def ex_d2_def ex_state_def emit_def ex_pool_def Let_def
      proposal_fingerprint_def truthy_def dict_getE_def LEFT_def dict_del_def fun_upd_idem)
  have empty: "closing ex_settings (ex_end\<lparr>r_blocks := r_blocks ?st\<rparr>) ?blk = Inr []"
    by (simp add: closing_def watermark_def side_progress_def components_def link_all_def init_parent_def
      SIDES_def ex_end_def ex_state_def ex_pool_def List.map_filter_simps)
  have blk: "map_of (r_blocks ?st) [''ACC''] = Some ex_pool" by (simp add: ex_state_def)
  have "settle (pool_size ex_pool) id ex_settings (ex_pool, ?st) = Inr (?blk, ex_end\<lparr>r_blocks := r_blocks ?st\<rparr>)"
    using close fin empty by (simp add: settle.simps pool_size_def ex_pool_sel)
  then have "settle_block id ex_settings [''ACC''] ?st = Inr ex_end"
    by (simp add: settle_block_def blk ex_end_def ex_state_def)
  then show ?thesis
    by (simp add: feed_def ex_progress_def check_side_def checkE_def SIDES_def ex_state_def flip: RIGHT_def)
qed

lemma ex_end_sel: "r_decisions ex_end = [ex_d1, ex_d2]" "r_duplicates ex_end = 0"
  by (simp_all add: ex_end_def ex_state_def)

definition ex_journal :: "Entry list" where
  "ex_journal = [EArrival ex_arrival, ex_progress ''left'', ex_progress ''right'']"

lemma ex_replay: "replay id ''1'' ex_journal ex_config = Inr \<lparr>decisions = [ex_d1, ex_d2], duplicates = 0\<rparr>"
  by (simp add: replay_def ex_init ex_journal_def ex_feed1 ex_feed2 ex_feed3 ex_end_sel)

lemma ex_feed_again: "feed id ex_settings ex_end (EArrival ex_arrival) = Inr (ex_end\<lparr>r_duplicates := 1\<rparr>)"
  by (simp add: feed_def arrival_def check_side_def checkE_def SIDES_def ex_end_def ex_state_def record_eq_def)

lemma ex_replay_twice: "replay id ''1'' (ex_journal @ [EArrival ex_arrival]) ex_config
    = Inr \<lparr>decisions = [ex_d1, ex_d2], duplicates = 1\<rparr>"
  using ex_feed_again
  by (simp add: replay_def ex_init ex_journal_def ex_feed1 ex_feed2 ex_feed3 ex_end_sel)


theorem history_is_chains_witness:
  "chain_version ([ex_d1, ex_d2] ! 1) = 2 \<and> supersedes ([ex_d1, ex_d2] ! 1) = Some (decision_id ex_d1)"
proof -
  have len: "length ex_journal \<le> 10 ^ 22" by (simp add: ex_journal_def)
  have "[ex_d1, ex_d2] = filter (\<lambda>d. business_key d = (LEFT, ''A2''))
      (decisions \<lparr>decisions = [ex_d1, ex_d2], duplicates = 0\<rparr>)"
    by (simp add: ex_d1_def ex_d2_def)
  from history_is_chains [OF ex_replay len this, of 1] show ?thesis by simp
qed

theorem redelivery_is_ignored_witness:
  "replay id ''1'' ex_journal ex_config = Inr \<lparr>decisions = [ex_d1, ex_d2], duplicates = 0\<rparr>"
proof -
  have "replay id ''1'' ([] @ EArrival ex_arrival # [ex_progress ''left'', ex_progress ''right'']
      @ EArrival ex_arrival # []) ex_config = Inr \<lparr>decisions = [ex_d1, ex_d2], duplicates = 1\<rparr>"
    using ex_replay_twice by (simp add: ex_journal_def)
  from redelivery_is_ignored [OF this] show ?thesis by (simp add: ex_journal_def)
qed

theorem components_are_connected_witness:
  "distinct_ids ex_pool \<and> components ex_settings ex_pool = Inr [[(LEFT, ''A2'')]]
    \<and> set [[(LEFT, ''A2'')]] = (\<lambda>k. filter (\<lambda>x. (k, x) \<in> conn (links ex_settings ex_pool))
        (sorted_list_of_set (pool_keys ex_pool))) ` pool_keys ex_pool"
proof -
  have "distinct_ids ex_pool" by (simp add: distinct_ids_def ex_pool_def)
  from this components_are_connected [OF this, of ex_settings] show ?thesis by (auto simp: ex_components)
qed

end
