(* ===== verification/Dedup.thy ===== *)
theory Dedup
  imports Models
begin

text \<open>
  Dropping redeliveries, as the exact path and the timing path both do
  (\<open>_deduplicated\<close> in \<open>correlation/exact.py\<close> and \<open>correlation/timing.py\<close>): an observation seen
  before with the same content counts once, with another content it is an error.

  The loop is written once, over the check, the identity and the content of an
  observation; each path instantiates it with its own.
\<close>

type_synonym identity = "string \<times> int"

record ('o, 'c) dedup_state =
  seen :: "identity \<rightharpoonup> 'c"
  distinct_obs :: "'o list"
  dropped :: int

definition dedup_step ::
    "('o \<Rightarrow> unit result) \<Rightarrow> ('o \<Rightarrow> identity) \<Rightarrow> ('o \<Rightarrow> 'c) \<Rightarrow> ('o, 'c) dedup_state \<Rightarrow> 'o
      \<Rightarrow> ('o, 'c) dedup_state result" where
  "dedup_step check ident content st obs =
     bindE (check obs) (\<lambda>_.
     case seen st (ident obs) of
       Some c \<Rightarrow> if c \<noteq> content obs then Inl (ValueError ''delivered with different content'')
                 else Inr (st\<lparr>dropped := dropped st + 1\<rparr>)
     | None \<Rightarrow> Inr (st\<lparr>seen := (seen st)(ident obs \<mapsto> content obs),
                      distinct_obs := distinct_obs st @ [obs]\<rparr>))"

definition dedup ::
    "('o \<Rightarrow> unit result) \<Rightarrow> ('o \<Rightarrow> identity) \<Rightarrow> ('o \<Rightarrow> 'c) \<Rightarrow> 'o list \<Rightarrow> ('o list \<times> int) result" where
  "dedup check ident content obs =
     bindE (foldE (dedup_step check ident content) \<lparr>seen = Map.empty, distinct_obs = [], dropped = 0\<rparr> obs)
       (\<lambda>st. Inr (distinct_obs st, dropped st))"

declare split_paired_All [simp del] split_paired_Ex [simp del]

section \<open>Which inputs are accepted, and what is kept\<close>

text \<open>Every observation is valid, and two with the same identity have the same content.\<close>

definition coherent :: "('o \<Rightarrow> unit result) \<Rightarrow> ('o \<Rightarrow> identity) \<Rightarrow> ('o \<Rightarrow> 'c) \<Rightarrow> 'o list \<Rightarrow> bool" where
  "coherent check ident content obs \<longleftrightarrow> (\<forall>x \<in> set obs. check x = Inr ())
     \<and> (\<forall>x \<in> set obs. \<forall>y \<in> set obs. ident x = ident y \<longrightarrow> content x = content y)"

lemma coherent_set: "set xs = set ys \<Longrightarrow> coherent check ident content xs \<longleftrightarrow> coherent check ident content ys"
  unfolding coherent_def by (simp only:)

lemma coherent_subset: "coherent check ident content ys \<Longrightarrow> set xs \<subseteq> set ys \<Longrightarrow> coherent check ident content xs"
  unfolding coherent_def by blast

lemma coherentD:
  assumes "coherent check ident content xs"
  shows "x \<in> set xs \<Longrightarrow> check x = Inr ()"
    "x \<in> set xs \<Longrightarrow> y \<in> set xs \<Longrightarrow> ident x = ident y \<Longrightarrow> content x = content y"
  using assms unfolding coherent_def by blast+

definition dedup_inv ::
    "('o \<Rightarrow> identity) \<Rightarrow> ('o \<Rightarrow> 'c) \<Rightarrow> 'o list \<Rightarrow> ('o, 'c) dedup_state \<Rightarrow> bool" where
  "dedup_inv ident content done st \<longleftrightarrow>
     distinct (map ident (distinct_obs st)) \<and> set (distinct_obs st) \<subseteq> set done
     \<and> ident ` set (distinct_obs st) = ident ` set done
     \<and> seen st = map_of (map (\<lambda>x. (ident x, content x)) (distinct_obs st))
     \<and> dropped st = int (length done) - int (length (distinct_obs st))"

lemma dedup_inv_seen:
  assumes "dedup_inv ident content done st"
  shows "x \<in> set (distinct_obs st) \<Longrightarrow> seen st (ident x) = Some (content x)"
    "seen st i = None \<longleftrightarrow> i \<notin> ident ` set done"
proof -
  have d: "distinct (map fst (map (\<lambda>x. (ident x, content x)) (distinct_obs st)))"
    using assms by (simp add: dedup_inv_def comp_def)
  show "x \<in> set (distinct_obs st) \<Longrightarrow> seen st (ident x) = Some (content x)"
    using assms map_of_is_SomeI [OF d, of "ident x" "content x"] by (auto simp: dedup_inv_def)
  show "seen st i = None \<longleftrightarrow> i \<notin> ident ` set done"
    using assms by (auto simp: dedup_inv_def map_of_eq_None_iff image_image)
qed

lemma map_upd_fresh: "m k = None \<Longrightarrow> [k \<mapsto> v] ++ m = m(k \<mapsto> v)"
  by (rule ext) (simp add: map_add_def split: option.splits)

lemma dedup_step_inv:
  assumes inv: "dedup_inv ident content done st" and coh: "coherent check ident content (done @ [x])"
  shows "\<exists>st'. dedup_step check ident content st x = Inr st' \<and> dedup_inv ident content (done @ [x]) st'"
proof (cases "ident x \<in> ident ` set done")
  case False
  then have "seen st (ident x) = None" using dedup_inv_seen(2) [OF inv] by simp
  moreover have "check x = Inr ()" by (rule coherentD(1) [OF coh]) simp
  moreover have "ident x \<notin> ident ` set (distinct_obs st)" using False inv by (simp add: dedup_inv_def)
  ultimately show ?thesis
    using inv by (auto simp: dedup_step_def dedup_inv_def map_upd_fresh)
next
  case True
  then have "ident x \<in> ident ` set (distinct_obs st)" using inv by (simp add: dedup_inv_def)
  then obtain y where y: "y \<in> set (distinct_obs st)" "ident y = ident x" by (metis imageE)
  then have "y \<in> set done" using inv by (auto simp: dedup_inv_def)
  then have c: "content y = content x" by (intro coherentD(2) [OF coh]) (simp_all add: y(2))
  have "seen st (ident x) = Some (content x)" using dedup_inv_seen(1) [OF inv y(1)] y(2) c by simp
  moreover have "check x = Inr ()" by (rule coherentD(1) [OF coh]) simp
  ultimately show ?thesis
    using inv True by (auto simp: dedup_step_def dedup_inv_def insert_absorb)
qed

lemma dedup_total:
  assumes "coherent check ident content obs"
  shows "\<exists>st. foldE (dedup_step check ident content) \<lparr>seen = Map.empty, distinct_obs = [], dropped = 0\<rparr> obs = Inr st
    \<and> dedup_inv ident content obs st"
  using assms
proof (induction obs rule: rev_induct)
  case Nil
  then show ?case by (simp add: dedup_inv_def)
next
  case (snoc x xs)
  have "coherent check ident content xs" using snoc.prems by (rule coherent_subset) auto
  then obtain st where st: "foldE (dedup_step check ident content) \<lparr>seen = Map.empty, distinct_obs = [], dropped = 0\<rparr> xs = Inr st"
    "dedup_inv ident content xs st" using snoc.IH by blast
  from dedup_step_inv [OF st(2) snoc.prems] obtain st' where
    "dedup_step check ident content st x = Inr st'" "dedup_inv ident content (xs @ [x]) st'" by blast
  then show ?case using st(1) by (simp add: foldE_append)
qed

lemma dedup_coherent:
  assumes "dedup check ident content obs = Inr r"
  shows "coherent check ident content obs"
proof -
  have "\<exists>st. foldE (dedup_step check ident content) \<lparr>seen = Map.empty, distinct_obs = [], dropped = 0\<rparr> obs = Inr st
      \<Longrightarrow> coherent check ident content obs"
  proof (induction obs rule: rev_induct)
    case (snoc x xs)
    then obtain st st' where st: "foldE (dedup_step check ident content) \<lparr>seen = Map.empty, distinct_obs = [], dropped = 0\<rparr> xs = Inr st"
      and x: "dedup_step check ident content st x = Inr st'" by (auto simp: foldE_append)
    have coh: "coherent check ident content xs" using snoc.IH st by blast
    have inv: "dedup_inv ident content xs st" using dedup_total [OF coh] st by auto
    have "check x = Inr ()" using x by (auto simp: dedup_step_def)
    moreover have "content y = content x" if y: "y \<in> set xs" "ident y = ident x" for y
    proof -
      have "ident x \<in> ident ` set (distinct_obs st)" using inv y by (metis dedup_inv_def imageI)
      then obtain z where z: "z \<in> set (distinct_obs st)" "ident z = ident x" by (metis imageE)
      then have "content z = content x"
        using x dedup_inv_seen(1) [OF inv z(1)] by (auto simp: dedup_step_def split: if_splits)
      moreover have "z \<in> set xs" using z inv by (auto simp: dedup_inv_def)
      ultimately show ?thesis using coherentD(2) [OF coh y(1), of z] y(2) z(2) by simp
    qed
    ultimately show ?case
      using coherentD [OF coh] unfolding coherent_def by (metis in_set_conv_decomp rotate1.simps(2) set_ConsD set_rotate1)
  qed (simp add: coherent_def)
  then show ?thesis using assms by (auto simp: dedup_def)
qed

lemma dedup_accepts: "(\<exists>r. dedup check ident content obs = Inr r) \<longleftrightarrow> coherent check ident content obs"
  using dedup_coherent dedup_total by (fastforce simp: dedup_def)

lemma dedup_spec:
  assumes "dedup check ident content obs = Inr (ds, n)"
  shows "distinct (map ident ds)" "set ds \<subseteq> set obs" "ident ` set ds = ident ` set obs"
    "n = int (length obs) - int (length ds)"
proof -
  from dedup_total [OF dedup_coherent [OF assms]] obtain st
    where st: "foldE (dedup_step check ident content) \<lparr>seen = Map.empty, distinct_obs = [], dropped = 0\<rparr> obs = Inr st"
      and inv: "dedup_inv ident content obs st" by blast
  have "ds = distinct_obs st" "n = dropped st" using assms st by (auto simp: dedup_def)
  then show "distinct (map ident ds)" "set ds \<subseteq> set obs" "ident ` set ds = ident ` set obs"
    "n = int (length obs) - int (length ds)"
    using inv by (auto simp: dedup_inv_def)
qed

text \<open>
  What is read of an observation, its view, is determined by its identity and content: then
  the views kept are those of the input, each once, whatever the order.
\<close>

lemma dedup_views:
  assumes "dedup check ident content obs = Inr (ds, n)"
    and "\<And>x y. x \<in> set obs \<Longrightarrow> y \<in> set obs \<Longrightarrow> ident x = ident y \<Longrightarrow> content x = content y \<Longrightarrow> view x = view y"
  shows "view ` set ds = view ` set obs"
proof -
  have coh: "coherent check ident content obs" using dedup_coherent [OF assms(1)] .
  have "view x \<in> view ` set ds" if x: "x \<in> set obs" for x
  proof -
    have "ident x \<in> ident ` set ds" using x by (simp add: dedup_spec(3) [OF assms(1)])
    then obtain y where y: "y \<in> set ds" "ident y = ident x" by (metis imageE)
    then have "y \<in> set obs" using dedup_spec(2) [OF assms(1)] by blast
    then have "view y = view x" using x y(2) by (rule assms(2)) (rule coherentD(2) [OF coh \<open>y \<in> set obs\<close> x y(2)])
    with y(1) show ?thesis by (metis imageI)
  qed
  then show ?thesis using image_mono [OF dedup_spec(2) [OF assms(1)], of view] by auto
qed

lemma dedup_mset:
  assumes "dedup check ident content xs = Inr (ds, n)" "dedup check ident content ys = Inr (es, m)"
    and "set xs = set ys"
    and "\<And>x y. x \<in> set xs \<Longrightarrow> y \<in> set xs \<Longrightarrow> ident x = ident y \<Longrightarrow> content x = content y \<Longrightarrow> view x = view y"
  shows "mset (map (\<lambda>x. (ident x, view x)) ds) = mset (map (\<lambda>x. (ident x, view x)) es)"
proof -
  let ?v = "\<lambda>x. (ident x, view x)"
  have d: "distinct (map ?v zs)" if "distinct (map ident zs)" for zs
    using that by (auto simp: distinct_map inj_on_def)
  have "?v ` set ds = ?v ` set xs" by (rule dedup_views [OF assms(1)]) (use assms(4) in blast)
  moreover have "?v ` set es = ?v ` set ys" by (rule dedup_views [OF assms(2)]) (use assms(4) in \<open>unfold assms(3), blast\<close>)
  ultimately have "set (map ?v ds) = set (map ?v es)" using assms(3) by simp
  then show ?thesis
    using d [OF dedup_spec(1) [OF assms(1)]] d [OF dedup_spec(1) [OF assms(2)]]
    by (rule set_eq_iff_mset_eq_distinct [THEN iffD1, rotated 2])
qed

end
