(* ===== verification/Topology.thy ===== *)
theory Topology
  imports Models
begin

text \<open>
  The topology model (\<open>correlation/topology.py\<close>): a declaration of observation points and
  hops is validated, every refusal being recorded, and the ceiling of each hop and each
  crossing is computed from the declaration alone.

  A declaration is a Python value as \<open>tomllib\<close> builds it: tables have string keys, in
  order.  The list \<open>refusals\<close> the code appends to is passed along and returned.  A float, a
  date or a time is \<open>VOther\<close> with its \<open>repr\<close>, its \<open>str\<close> and its truth value; two of them
  are equal here when these three are.  Frozen sets are lists without repetition, read with
  \<open>set\<close>.
\<close>

section \<open>Python values\<close>

datatype pyval =
    VStr string
  | VInt int
  | VBool bool
  | VList "pyval list"
  | VTable "(string \<times> pyval) list"
  | VOther string string bool

type_synonym py_table = "(string \<times> pyval) list"

fun py_truthy :: "pyval \<Rightarrow> bool" where
  "py_truthy (VStr s) \<longleftrightarrow> s \<noteq> []"
| "py_truthy (VInt i) \<longleftrightarrow> i \<noteq> 0"
| "py_truthy (VBool b) \<longleftrightarrow> b"
| "py_truthy (VList xs) \<longleftrightarrow> xs \<noteq> []"
| "py_truthy (VTable t) \<longleftrightarrow> t \<noteq> []"
| "py_truthy (VOther r s b) \<longleftrightarrow> b"

text \<open>A list and a table cannot be a member of a set: testing them raises \<open>TypeError\<close>.\<close>

fun hashable :: "pyval \<Rightarrow> bool" where
  "hashable (VList xs) \<longleftrightarrow> False"
| "hashable (VTable t) \<longleftrightarrow> False"
| "hashable v \<longleftrightarrow> True"

text \<open>\<open>==\<close> on values that are not containers: \<open>True\<close> is \<open>1\<close>.\<close>

fun py_eq :: "pyval \<Rightarrow> pyval \<Rightarrow> bool" where
  "py_eq (VBool b) (VInt i) \<longleftrightarrow> i = of_bool b"
| "py_eq (VInt i) (VBool b) \<longleftrightarrow> i = of_bool b"
| "py_eq v w \<longleftrightarrow> v = w"

text \<open>\<open>repr\<close> of a string: bytes beyond ASCII are kept, as they are for printable text.\<close>

definition hex_digit :: "nat \<Rightarrow> char" where
  "hex_digit n = (if n < 10 then char_of (48 + n) else char_of (87 + n))"

definition repr_char :: "char \<Rightarrow> char \<Rightarrow> string" where
  "repr_char q c =
     (if c = q \<or> c = CHR 0x5C then [CHR 0x5C, c]
      else if c = CHR 0x0A then [CHR 0x5C, CHR ''n'']
      else if c = CHR 0x0D then [CHR 0x5C, CHR ''r'']
      else if c = CHR 0x09 then [CHR 0x5C, CHR ''t'']
      else let n = of_char c :: nat in
        if n < 32 \<or> n = 127 then [CHR 0x5C, CHR ''x'', hex_digit (n div 16), hex_digit (n mod 16)]
        else [c])"

definition repr_str :: "string \<Rightarrow> string" where
  "repr_str s =
     (let q = (if CHR 0x27 \<in> set s \<and> CHR 0x22 \<notin> set s then CHR 0x22 else CHR 0x27) in
      q # concat (map (repr_char q) s) @ [q])"

fun py_repr :: "pyval \<Rightarrow> string" where
  "py_repr (VStr s) = repr_str s"
| "py_repr (VInt i) = str_int i"
| "py_repr (VBool b) = (if b then ''True'' else ''False'')"
| "py_repr (VList xs) = ''['' @ join '', '' (map py_repr xs) @ '']''"
| "py_repr (VTable t) =
     ''{'' @ join '', '' (map (\<lambda>kv. repr_str (fst kv) @ '': '' @ py_repr (snd kv)) t) @ ''}''"
| "py_repr (VOther r s b) = r"

fun py_str :: "pyval \<Rightarrow> string" where
  "py_str (VStr s) = s"
| "py_str (VOther r s b) = s"
| "py_str v = py_repr v"

fun str_of :: "pyval \<Rightarrow> string option" where
  "str_of (VStr s) = Some s"
| "str_of v = None"

text \<open>
  \<open>f"{float(x):g}"\<close> for a fraction \<open>x \<ge> 1\<close>: the nearest double (53 bits, half to even;
  \<open>OverflowError\<close> beyond the largest one), written with six significant digits.
\<close>

definition round_even :: "rat \<Rightarrow> int" where
  "round_even x =
     (let q = \<lfloor>x\<rfloor>; r = x - of_int q in
      if r > 1 / 2 \<or> (r = 1 / 2 \<and> odd q) then q + 1 else q)"

fun log_steps :: "nat \<Rightarrow> rat \<Rightarrow> rat \<Rightarrow> nat" where
  "log_steps 0 b x = 0"
| "log_steps (Suc n) b x = (if x < b then 0 else Suc (log_steps n b (x / b)))"

definition to_double :: "rat \<Rightarrow> rat option" where
  "to_double x =
     (if x \<ge> 2 ^ 1024 then None
      else let e = log_steps 1024 2 x; u = (2::rat) ^ e / 2 ^ 52; d = of_int (round_even (x / u)) * u in
        if d \<ge> 2 ^ 1024 then None else Some d)"

definition strip_zeros :: "string \<Rightarrow> string" where
  "strip_zeros s = rev (dropWhile (\<lambda>c. c = CHR ''0'') (rev s))"

definition with_point :: "string \<Rightarrow> string \<Rightarrow> string" where
  "with_point whole fr = (if fr = [] then whole else whole @ ''.'' @ fr)"

definition format_g :: "rat \<Rightarrow> string" where
  "format_g x =
     (let e0 = log_steps 309 10 x; m0 = round_even (x * 10 ^ 5 / 10 ^ e0);
          (e, m) = (if m0 = 10 ^ 6 then (e0 + 1, 10 ^ 5) else (e0, m0));
          ds = digit_chars (nat m) in
      if e < 6 then with_point (take (e + 1) ds) (strip_zeros (drop (e + 1) ds))
      else with_point (take 1 ds) (strip_zeros (drop 1 ds)) @ ''e+''
           @ (if e < 10 then ''0'' else '''') @ digit_chars e)"

section \<open>Data\<close>

definition D_MAX :: int where "D_MAX = 1"

datatype Evidence = UNRESOLVED | DERIVED | OBSERVED | AUTHORED

fun evidence_value :: "Evidence \<Rightarrow> int" where
  "evidence_value UNRESOLVED = 0"
| "evidence_value DERIVED = 1"
| "evidence_value OBSERVED = 2"
| "evidence_value AUTHORED = 3"

text \<open>\<open>e.name.lower()\<close>\<close>

fun evidence_name :: "Evidence \<Rightarrow> string" where
  "evidence_name UNRESOLVED = ''unresolved''"
| "evidence_name DERIVED = ''derived''"
| "evidence_name OBSERVED = ''observed''"
| "evidence_name AUTHORED = ''authored''"

instantiation Evidence :: linorder
begin

definition less_eq_Evidence :: "Evidence \<Rightarrow> Evidence \<Rightarrow> bool" where
  "less_eq_Evidence a b \<longleftrightarrow> evidence_value a \<le> evidence_value b"

definition less_Evidence :: "Evidence \<Rightarrow> Evidence \<Rightarrow> bool" where
  "less_Evidence a b \<longleftrightarrow> evidence_value a < evidence_value b"

lemma evidence_value_inj: "evidence_value a = evidence_value b \<Longrightarrow> a = b"
  by (cases a; cases b) simp_all

instance
  by standard (auto simp: less_eq_Evidence_def less_Evidence_def intro: evidence_value_inj)

end

datatype LinkKind =
    SHARED_HEADER | MESSAGE_KEY | SAME_CONNECTION | SAME_SOCKET | NESTED_TIMING
  | PROPAGATED | INSIDE_PROCESS | LOGGED_TIMING | NO_LINK

datatype Reason =
    MISSING_FIELD | UNKNOWN_FIELD | UNKNOWN_VALUE | UNKNOWN_IDENTIFIER | INVALID_VALUE
  | UNKNOWN_POINT | DUPLICATE_HOP
  | CEILING_BELOW_EXPECTED | DENSITY_ABOVE_BOUND | UNTRUSTED_ENTRY_PROPAGATED | AGENT_BAGGAGE
  | AGENT_NOT_PRESENT | FANOUT_UNBOUNDED
  | NO_SHARED_HEADER | NO_MESSAGE_KEY | MISSING_TUPLE5 | MISSING_NAT_MAPPING | MISSING_STREAM_ID
  | MISSING_SOCKET_COOKIE | CROSS_HOST_SOCKET | ASYNC_RELATION | NOT_TIMESTAMPED | NO_SHARED_CLOCK

fun topology_reason_value :: "Reason \<Rightarrow> int" where
  "topology_reason_value MISSING_FIELD = 1"
| "topology_reason_value UNKNOWN_FIELD = 2"
| "topology_reason_value UNKNOWN_VALUE = 3"
| "topology_reason_value UNKNOWN_IDENTIFIER = 4"
| "topology_reason_value INVALID_VALUE = 5"
| "topology_reason_value UNKNOWN_POINT = 6"
| "topology_reason_value DUPLICATE_HOP = 7"
| "topology_reason_value CEILING_BELOW_EXPECTED = 10"
| "topology_reason_value DENSITY_ABOVE_BOUND = 11"
| "topology_reason_value UNTRUSTED_ENTRY_PROPAGATED = 12"
| "topology_reason_value AGENT_BAGGAGE = 13"
| "topology_reason_value AGENT_NOT_PRESENT = 14"
| "topology_reason_value FANOUT_UNBOUNDED = 15"
| "topology_reason_value NO_SHARED_HEADER = 20"
| "topology_reason_value NO_MESSAGE_KEY = 21"
| "topology_reason_value MISSING_TUPLE5 = 22"
| "topology_reason_value MISSING_NAT_MAPPING = 23"
| "topology_reason_value MISSING_STREAM_ID = 24"
| "topology_reason_value MISSING_SOCKET_COOKIE = 25"
| "topology_reason_value CROSS_HOST_SOCKET = 26"
| "topology_reason_value ASYNC_RELATION = 27"
| "topology_reason_value NOT_TIMESTAMPED = 28"
| "topology_reason_value NO_SHARED_CLOCK = 29"

fun topology_reason_name :: "Reason \<Rightarrow> string" where
  "topology_reason_name MISSING_FIELD = ''MISSING_FIELD''"
| "topology_reason_name UNKNOWN_FIELD = ''UNKNOWN_FIELD''"
| "topology_reason_name UNKNOWN_VALUE = ''UNKNOWN_VALUE''"
| "topology_reason_name UNKNOWN_IDENTIFIER = ''UNKNOWN_IDENTIFIER''"
| "topology_reason_name INVALID_VALUE = ''INVALID_VALUE''"
| "topology_reason_name UNKNOWN_POINT = ''UNKNOWN_POINT''"
| "topology_reason_name DUPLICATE_HOP = ''DUPLICATE_HOP''"
| "topology_reason_name CEILING_BELOW_EXPECTED = ''CEILING_BELOW_EXPECTED''"
| "topology_reason_name DENSITY_ABOVE_BOUND = ''DENSITY_ABOVE_BOUND''"
| "topology_reason_name UNTRUSTED_ENTRY_PROPAGATED = ''UNTRUSTED_ENTRY_PROPAGATED''"
| "topology_reason_name AGENT_BAGGAGE = ''AGENT_BAGGAGE''"
| "topology_reason_name AGENT_NOT_PRESENT = ''AGENT_NOT_PRESENT''"
| "topology_reason_name FANOUT_UNBOUNDED = ''FANOUT_UNBOUNDED''"
| "topology_reason_name NO_SHARED_HEADER = ''NO_SHARED_HEADER''"
| "topology_reason_name NO_MESSAGE_KEY = ''NO_MESSAGE_KEY''"
| "topology_reason_name MISSING_TUPLE5 = ''MISSING_TUPLE5''"
| "topology_reason_name MISSING_NAT_MAPPING = ''MISSING_NAT_MAPPING''"
| "topology_reason_name MISSING_STREAM_ID = ''MISSING_STREAM_ID''"
| "topology_reason_name MISSING_SOCKET_COOKIE = ''MISSING_SOCKET_COOKIE''"
| "topology_reason_name CROSS_HOST_SOCKET = ''CROSS_HOST_SOCKET''"
| "topology_reason_name ASYNC_RELATION = ''ASYNC_RELATION''"
| "topology_reason_name NOT_TIMESTAMPED = ''NOT_TIMESTAMPED''"
| "topology_reason_name NO_SHARED_CLOCK = ''NO_SHARED_CLOCK''"

definition lower_char :: "char \<Rightarrow> char" where
  "lower_char c = (let n = of_char c :: nat in if 65 \<le> n \<and> n \<le> 90 then char_of (n + 32) else c)"

definition lower :: "string \<Rightarrow> string" where
  "lower = map lower_char"

definition IDENTIFIERS :: "string list" where
  "IDENTIFIERS = [''traceparent'', ''baggage'', ''request_id'', ''message_id'', ''tuple5'',
     ''h2_stream_id'', ''socket_cookie'']"

definition CARRIED :: "string list" where
  "CARRIED = [''traceparent'', ''baggage'', ''request_id'', ''message_id'']"

definition HEADERS :: "string list" where "HEADERS = [''request_id'', ''traceparent'']"
definition VISIBILITY :: "string list" where "VISIBILITY = [''kernel'', ''log'', ''app'', ''none'']"
definition PROPAGATORS :: "string list" where "PROPAGATORS = [''agent'', ''app'', ''proxy'']"
definition RELATIONS :: "string list" where "RELATIONS = [''call'', ''async'', ''fanout'']"
definition NATS :: "string list" where "NATS = [''none'', ''snat'', ''dnat'']"
definition NAT_MAPPINGS :: "string list" where "NAT_MAPPINGS = [''none'', ''conntrack'', ''logged_both_sides'']"

definition PRECISION_NS :: "(string \<times> int) list" where
  "PRECISION_NS = [(''kernel_monotonic'', 1000), (''precise_sync'', 10000), (''network_sync'', 1000000),
     (''log_ms'', 1000000), (''log_s'', 1000000000)]"

definition POINT_FIELDS :: "string list" where
  "POINT_FIELDS = [''host'', ''visibility'', ''clock'', ''timestamps'', ''inbound'', ''outbound'',
     ''propagates'', ''sets'', ''trusts_incoming'']"

definition HOP_FIELDS :: "string list" where
  "HOP_FIELDS = [''from'', ''to'', ''relation'', ''nat'', ''nat_mapping'', ''pooling'', ''rate'',
     ''noise_us'', ''expect'', ''max_fanout'']"

record Point =
  p_name :: string
  p_host :: string
  p_visibility :: string
  p_clock :: "string option"
  p_timestamps :: "string option"
  p_inbound :: "string set"
  p_outbound :: "string set"
  p_propagates :: "(string \<times> string) list"
  p_sets :: "string set"
  p_trusts_incoming :: bool

record Hop =
  h_src :: string
  h_dst :: string
  h_relation :: string
  h_nat :: string
  h_nat_mapping :: string
  h_pooling :: bool
  h_rate :: "int option"
  h_noise_us :: "int option"
  h_expect :: "Evidence option"
  h_max_fanout :: "int option"

record HopCeiling =
  hc_src :: string
  hc_dst :: string
  hc_relation :: string
  hc_evidence :: Evidence
  hc_link :: LinkKind
  hc_density :: "rat option"
  hc_max_fanout :: "int option"
  hc_key :: "string option"
  hc_observed :: "string list option"

record CrossingCeiling =
  cc_point :: string
  cc_evidence :: Evidence
  cc_link :: LinkKind
  cc_key :: "string option"

record Topology =
  t_points :: "Point list"
  t_hops :: "HopCeiling list"
  t_crossings :: "CrossingCeiling list"

record Refusal =
  r_reason :: Reason
  r_where :: string
  r_detail :: string
  r_missing :: "Reason list"

text \<open>What \<open>load\<close> can raise: the refusals, sorted, or an error of the language.\<close>

datatype topology_error = TopologyError "Refusal list" | Raised py_error

definition refusal :: "Reason \<Rightarrow> string \<Rightarrow> string \<Rightarrow> Refusal" where
  "refusal rs where detail = \<lparr>r_reason = rs, r_where = where, r_detail = detail, r_missing = []\<rparr>"

definition topology_error :: "Refusal list \<Rightarrow> topology_error" where
  "topology_error refusals =
     TopologyError (sort_key (\<lambda>r. (topology_reason_value (r_reason r), r_where r, r_detail r)) refusals)"

definition topology_error_message :: "Refusal list \<Rightarrow> string" where
  "topology_error_message refusals =
     str_int (int (length refusals)) @ '' refusal'' @ (if length refusals > 1 then ''s'' else '''') @ '': ''
     @ join ''; '' (map (\<lambda>r. topology_reason_name (r_reason r) @ '' at ''
         @ (if r_where r = [] then ''declaration'' else r_where r) @ '': '' @ r_detail r) refusals)"

section \<open>Reading a table\<close>

text \<open>The fields of one table: each reader returns the value and the refusals so far.\<close>

record Fields =
  f_table :: py_table
  f_where :: string

definition refuse :: "Fields \<Rightarrow> Reason \<Rightarrow> string \<Rightarrow> Refusal list \<Rightarrow> Refusal list" where
  "refuse f rs detail refusals = refusals @ [refusal rs (f_where f) detail]"

definition init_fields :: "py_table \<Rightarrow> string \<Rightarrow> string list \<Rightarrow> Refusal list \<Rightarrow> Fields \<times> Refusal list" where
  "init_fields table where allowed refusals =
     (let f = \<lparr>f_table = table, f_where = where\<rparr> in
      (f, fold (\<lambda>key. refuse f UNKNOWN_FIELD (''unknown field '' @ repr_str key))
            (sort (remdups (filter (\<lambda>k. k \<notin> set allowed) (map fst table)))) refusals))"

definition text_field ::
    "Fields \<Rightarrow> string \<Rightarrow> bool \<Rightarrow> string option \<Rightarrow> Refusal list \<Rightarrow> string option \<times> Refusal list" where
  "text_field f key required dflt refusals =
     (case map_of (f_table f) key of
        None \<Rightarrow> (dflt, if required then refuse f MISSING_FIELD (key @ '' is required'') refusals else refusals)
      | Some (VStr s) \<Rightarrow> (Some s, refusals)
      | Some v \<Rightarrow> (dflt, refuse f INVALID_VALUE (key @ '' must be a string, got '' @ py_repr v) refusals))"

definition choice_field ::
    "Fields \<Rightarrow> string \<Rightarrow> string list \<Rightarrow> bool \<Rightarrow> string option \<Rightarrow> Refusal list \<Rightarrow> string option \<times> Refusal list" where
  "choice_field f key allowed required dflt refusals =
     (case text_field f key required dflt refusals of (v, refusals) \<Rightarrow>
      if v \<noteq> dflt \<and> \<not> (case v of None \<Rightarrow> False | Some s \<Rightarrow> s \<in> set allowed)
      then (dflt, refuse f UNKNOWN_VALUE (key @ '' = '' @ (case v of None \<Rightarrow> ''None'' | Some s \<Rightarrow> repr_str s)
             @ '', expected one of '' @ py_repr (VList (map VStr (sort allowed)))) refusals)
      else (v, refusals))"

definition flag_field :: "Fields \<Rightarrow> string \<Rightarrow> bool \<Rightarrow> Refusal list \<Rightarrow> bool \<times> Refusal list" where
  "flag_field f key dflt refusals =
     (case map_of (f_table f) key of
        None \<Rightarrow> (dflt, refusals)
      | Some (VBool b) \<Rightarrow> (b, refusals)
      | Some v \<Rightarrow> (dflt, refuse f INVALID_VALUE (key @ '' must be true or false, got '' @ py_repr v) refusals))"

definition integer_field :: "Fields \<Rightarrow> string \<Rightarrow> int \<Rightarrow> Refusal list \<Rightarrow> int option \<times> Refusal list" where
  "integer_field f key minimum refusals =
     (case map_of (f_table f) key of
        None \<Rightarrow> (None, refusals)
      | Some v \<Rightarrow>
          (case v of VInt i \<Rightarrow> if i < minimum
             then (None, refuse f INVALID_VALUE (key @ '' must be an integer >= '' @ str_int minimum
                    @ '', got '' @ py_repr v) refusals)
             else (Some i, refusals)
           | _ \<Rightarrow> (None, refuse f INVALID_VALUE (key @ '' must be an integer >= '' @ str_int minimum
                    @ '', got '' @ py_repr v) refusals)))"

definition identifiers_field ::
    "Fields \<Rightarrow> string \<Rightarrow> string list \<Rightarrow> Refusal list \<Rightarrow> string set \<times> Refusal list" where
  "identifiers_field f key allowed refusals =
     (case (case map_of (f_table f) key of None \<Rightarrow> VList [] | Some v \<Rightarrow> v) of
        VList vs \<Rightarrow>
          if \<exists>v \<in> set vs. str_of v = None
          then ({}, refuse f INVALID_VALUE (key @ '' must be a list of identifiers'') refusals)
          else
            let names = map (the \<circ> str_of) vs;
                refusals1 = (if \<not> distinct names
                  then refuse f INVALID_VALUE (key @ '' lists an identifier twice'') refusals else refusals);
                unknown = sort (remdups (filter (\<lambda>n. n \<notin> set allowed) names)) in
            (set names - set unknown,
             fold (\<lambda>n. refuse f UNKNOWN_IDENTIFIER (key @ '': unknown identifier '' @ repr_str n)) unknown refusals1)
      | _ \<Rightarrow> ({}, refuse f INVALID_VALUE (key @ '' must be a list of identifiers'') refusals))"

section \<open>Parsing\<close>

text \<open>The loop over \<open>propagates\<close>: \<open>propagates[key] not in PROPAGATORS\<close> hashes the value.\<close>

fun parse_propagates ::
    "Fields \<Rightarrow> py_table \<Rightarrow> string list \<Rightarrow> (string \<times> string) list \<Rightarrow> Refusal list
      \<Rightarrow> ((string \<times> string) list \<times> Refusal list) result" where
  "parse_propagates f tbl [] carried refusals = Inr (carried, refusals)"
| "parse_propagates f tbl (key # ks) carried refusals =
     (if key \<notin> set CARRIED
      then parse_propagates f tbl ks carried
             (refuse f UNKNOWN_IDENTIFIER (''propagates: unknown identifier '' @ repr_str key) refusals)
      else case map_of tbl key of
        None \<Rightarrow> Inl KeyError
      | Some v \<Rightarrow>
          if \<not> hashable v then Inl TypeError
          else if \<exists>who \<in> set PROPAGATORS. v = VStr who
          then parse_propagates f tbl ks (carried @ [(key, the (str_of v))]) refusals
          else parse_propagates f tbl ks carried
                (refuse f UNKNOWN_VALUE (''propagates.'' @ key @ '' = '' @ py_repr v) refusals))"

definition parse_point ::
    "string \<Rightarrow> py_table \<Rightarrow> Refusal list \<Rightarrow> (Point option \<times> Refusal list) result" where
  "parse_point name raw rs0 =
     (let (f, rs) = init_fields raw name POINT_FIELDS rs0;
          (host, rs) = text_field f ''host'' True None rs;
          (visibility, rs) = choice_field f ''visibility'' VISIBILITY True None rs;
          timed = (visibility \<noteq> None \<and> visibility \<noteq> Some ''none'');
          (clock, rs) = text_field f ''clock'' timed None rs;
          (timestamps, rs) = choice_field f ''timestamps'' (map fst PRECISION_NS) timed None rs;
          (inbound, rs) = identifiers_field f ''inbound'' IDENTIFIERS rs;
          (outbound, rs) = identifiers_field f ''outbound'' IDENTIFIERS rs;
          (sets, rs) = identifiers_field f ''sets'' CARRIED rs;
          (trusts, rs) = flag_field f ''trusts_incoming'' True rs;
          (propagates, rs) = (case map_of raw ''propagates'' of
              None \<Rightarrow> ([], rs)
            | Some (VTable t) \<Rightarrow> (t, rs)
            | Some _ \<Rightarrow> ([], refuse f INVALID_VALUE
                ''propagates must be a table: identifier = who copies it'' rs)) in
      bindE (parse_propagates f propagates (sort (map fst propagates)) [] rs) (\<lambda>(carried, rs).
      Inr (if length rs > length rs0 then None
           else Some \<lparr>p_name = name, p_host = the host, p_visibility = the visibility, p_clock = clock,
             p_timestamps = timestamps, p_inbound = inbound, p_outbound = outbound,
             p_propagates = carried, p_sets = sets, p_trusts_incoming = trusts\<rparr>, rs)))"

text \<open>One end of a hop: the loop over \<open>(("from", src), ("to", dst))\<close>.\<close>

definition check_end ::
    "Fields \<Rightarrow> string set \<Rightarrow> string \<Rightarrow> pyval option \<Rightarrow> Refusal list \<Rightarrow> Refusal list result" where
  "check_end f known key name rs =
     (case name of
        None \<Rightarrow> Inr (refuse f MISSING_FIELD (key @ '' is required'') rs)
      | Some v \<Rightarrow>
          if \<not> hashable v then Inl TypeError
          else Inr (if \<exists>s \<in> known. v = VStr s then rs
            else refuse f UNKNOWN_POINT (key @ '' = '' @ py_repr v @ '' is not a declared point'') rs))"

definition end_text :: "pyval option \<Rightarrow> string" where
  "end_text v = (case v of None \<Rightarrow> ''?'' | Some x \<Rightarrow> if py_truthy x then py_str x else ''?'')"

definition evidence_of_name :: "string \<Rightarrow> Evidence option" where
  "evidence_of_name s = find (\<lambda>e. evidence_name e = s) [UNRESOLVED, DERIVED, OBSERVED, AUTHORED]"

definition same_end :: "pyval option \<Rightarrow> pyval option \<Rightarrow> bool" where
  "same_end src dst = (case src of None \<Rightarrow> False
     | Some v \<Rightarrow> (case dst of None \<Rightarrow> False | Some w \<Rightarrow> py_eq v w))"

text \<open>The rest of \<open>_parse_hop\<close>, once both ends have been looked up.\<close>

definition parse_hop_fields ::
    "Fields \<Rightarrow> py_table \<Rightarrow> pyval option \<Rightarrow> pyval option \<Rightarrow> nat \<Rightarrow> Refusal list \<Rightarrow> Hop option \<times> Refusal list" where
  "parse_hop_fields f raw src dst before rs =
     (let rs = (if same_end src dst
            then refuse f INVALID_VALUE ''a hop joins two different points'' rs else rs);
          (relation, rs) = choice_field f ''relation'' RELATIONS False (Some ''call'') rs;
          (nat, rs) = choice_field f ''nat'' NATS False (Some ''none'') rs;
          (nat_mapping, rs) = choice_field f ''nat_mapping'' NAT_MAPPINGS False (Some ''none'') rs;
          (pooling, rs) = flag_field f ''pooling'' False rs;
          (rate, rs) = integer_field f ''rate'' 1 rs;
          (noise_us, rs) = integer_field f ''noise_us'' 0 rs;
          (expect, rs) = choice_field f ''expect''
            (map evidence_name [UNRESOLVED, DERIVED, OBSERVED, AUTHORED]) False None rs;
          (max_fanout, rs) = integer_field f ''max_fanout'' 1 rs;
          rs = (if relation = Some ''fanout'' \<and> map_of raw ''max_fanout'' = None
            then refuse f FANOUT_UNBOUNDED ''a fanout hop needs max_fanout'' rs else rs);
          rs = (if relation \<noteq> Some ''fanout'' \<and> map_of raw ''max_fanout'' \<noteq> None
            then refuse f INVALID_VALUE ''max_fanout applies to a fanout hop only'' rs else rs) in
      (if length rs > before then None
       else Some \<lparr>h_src = the (str_of (the src)), h_dst = the (str_of (the dst)),
         h_relation = the relation, h_nat = the nat, h_nat_mapping = the nat_mapping,
         h_pooling = pooling, h_rate = rate, h_noise_us = noise_us,
         h_expect = (case expect of None \<Rightarrow> None | Some e \<Rightarrow> evidence_of_name e),
         h_max_fanout = max_fanout\<rparr>, rs))"

definition parse_hop :: "py_table \<Rightarrow> string set \<Rightarrow> Refusal list \<Rightarrow> (Hop option \<times> Refusal list) result" where
  "parse_hop raw known rs0 =
     (let src = map_of raw ''from''; dst = map_of raw ''to'';
          (f, rs) = init_fields raw (end_text src @ '' -> '' @ end_text dst) HOP_FIELDS rs0 in
      bindE (check_end f known ''from'' src rs) (\<lambda>rs.
      bindE (check_end f known ''to'' dst rs) (\<lambda>rs.
      Inr (parse_hop_fields f raw src dst (length rs0) rs))))"

definition arrow :: "string \<Rightarrow> string \<Rightarrow> string" where
  "arrow src dst = src @ '' -> '' @ dst"

text \<open>The two loops of \<open>_parse\<close>.\<close>

definition parse_points_step ::
    "py_table \<Rightarrow> (string \<times> Point) list \<times> Refusal list \<Rightarrow> string
      \<Rightarrow> ((string \<times> Point) list \<times> Refusal list) result" where
  "parse_points_step raw_points st name =
     (let (points, rs) = st in
      case map_of raw_points name of
        None \<Rightarrow> Inl KeyError
      | Some (VTable t) \<Rightarrow>
          bindE (parse_point name t rs) (\<lambda>(point, rs).
          Inr (case point of None \<Rightarrow> points | Some p \<Rightarrow> dict_put name p points, rs))
      | Some _ \<Rightarrow> Inr (points, rs @ [refusal INVALID_VALUE name ''a point must be a table'']))"

definition parse_hops_step ::
    "Fields \<Rightarrow> string set \<Rightarrow> Hop list \<times> Refusal list \<Rightarrow> pyval \<Rightarrow> (Hop list \<times> Refusal list) result" where
  "parse_hops_step ftop known st raw =
     (let (hops, rs) = st in
      case raw of
        VTable t \<Rightarrow>
          bindE (parse_hop t known rs) (\<lambda>(hop, rs).
          Inr (case hop of None \<Rightarrow> (hops, rs)
            | Some h \<Rightarrow>
                if (h_src h, h_dst h) \<in> set (map (\<lambda>x. (h_src x, h_dst x)) hops)
                then (hops, rs @ [refusal DUPLICATE_HOP (arrow (h_src h) (h_dst h)) ''declared twice''])
                else (hops @ [h], rs)))
      | _ \<Rightarrow> Inr (hops, refuse ftop INVALID_VALUE ''a hop must be a table'' rs))"

definition raw_points_of :: "Fields \<Rightarrow> py_table \<Rightarrow> Refusal list \<Rightarrow> py_table \<times> Refusal list" where
  "raw_points_of ftop declaration rs =
     (case map_of declaration ''points'' of
        None \<Rightarrow> ([], refuse ftop MISSING_FIELD ''points is required'' rs)
      | Some (VTable (kv # t)) \<Rightarrow> (kv # t, rs)
      | Some _ \<Rightarrow> ([], refuse ftop INVALID_VALUE ''points must be a non-empty table'' rs))"

definition raw_hops_of :: "Fields \<Rightarrow> py_table \<Rightarrow> Refusal list \<Rightarrow> pyval list \<times> Refusal list" where
  "raw_hops_of ftop declaration rs =
     (case map_of declaration ''hops'' of
        None \<Rightarrow> ([], rs)
      | Some (VList vs) \<Rightarrow> (vs, rs)
      | Some _ \<Rightarrow> ([], refuse ftop INVALID_VALUE ''hops must be a list of tables'' rs))"

definition parse ::
    "py_table \<Rightarrow> Refusal list \<Rightarrow> ((string \<times> Point) list \<times> Hop list \<times> Refusal list) result" where
  "parse declaration rs =
     (let (ftop, rs) = init_fields declaration [] [''points'', ''hops''] rs;
          (raw_points, rs) = raw_points_of ftop declaration rs in
      bindE (foldE (parse_points_step raw_points) ([], rs) (sort (map fst raw_points))) (\<lambda>(points, rs).
      let (raw_hops, rs) = raw_hops_of ftop declaration rs in
      bindE (foldE (parse_hops_step ftop (set (map fst raw_points))) ([], rs) raw_hops) (\<lambda>(hops, rs).
      Inr (points, hops, rs))))"

section \<open>Ceilings\<close>

definition wire_header :: "Point \<Rightarrow> Point \<Rightarrow> string option" where
  "wire_header src dst =
     find (\<lambda>header. header \<in> p_outbound src \<and> header \<in> p_inbound dst
       \<and> \<not> (header \<in> p_sets src \<and> p_visibility src = ''kernel'')) HEADERS"

fun missing :: "Hop \<Rightarrow> Point \<Rightarrow> Point \<Rightarrow> LinkKind \<Rightarrow> Reason list" where
  "missing hop src dst SHARED_HEADER = (if wire_header src dst \<noteq> None then [] else [NO_SHARED_HEADER])"
| "missing hop src dst MESSAGE_KEY =
     (if h_relation hop \<noteq> ''async'' \<or> ''message_id'' \<notin> p_outbound src \<inter> p_inbound dst
      then [NO_MESSAGE_KEY] else [])"
| "missing hop src dst SAME_CONNECTION =
     (if h_relation hop = ''async'' then [ASYNC_RELATION] else [])
     @ (if ''tuple5'' \<notin> p_outbound src \<inter> p_inbound dst then [MISSING_TUPLE5] else [])
     @ (if h_nat hop \<noteq> ''none'' \<and> h_nat_mapping hop = ''none'' then [MISSING_NAT_MAPPING] else [])
     @ (if h_pooling hop \<and> ''h2_stream_id'' \<notin> p_outbound src \<inter> p_inbound dst
        then [MISSING_STREAM_ID] else [])"
| "missing hop src dst SAME_SOCKET =
     (if h_relation hop = ''async'' then [ASYNC_RELATION] else [])
     @ (if ''socket_cookie'' \<notin> p_outbound src \<inter> p_inbound dst then [MISSING_SOCKET_COOKIE] else [])
     @ (if p_host src \<noteq> p_host dst then [CROSS_HOST_SOCKET] else [])"
| "missing hop src dst NESTED_TIMING =
     (if h_relation hop = ''async'' then [ASYNC_RELATION] else [])
     @ (if p_visibility src = ''none'' \<or> p_visibility dst = ''none'' then [NOT_TIMESTAMPED]
        else if p_clock src \<noteq> p_clock dst then [NO_SHARED_CLOCK] else [])"
| "missing hop src dst _ = []"

definition HOP_LINKS :: "(LinkKind \<times> Evidence) list" where
  "HOP_LINKS = [(SHARED_HEADER, AUTHORED), (MESSAGE_KEY, AUTHORED), (SAME_CONNECTION, OBSERVED),
     (SAME_SOCKET, OBSERVED), (NESTED_TIMING, DERIVED)]"

definition precision_of :: "string option \<Rightarrow> int result" where
  "precision_of ts = (case ts of None \<Rightarrow> Inl KeyError | Some s \<Rightarrow> dict_getE PRECISION_NS s)"

definition hop_density :: "Hop \<Rightarrow> Point \<Rightarrow> Point \<Rightarrow> LinkKind \<Rightarrow> rat option result" where
  "hop_density hop src dst link =
     (case h_rate hop of
        None \<Rightarrow> Inr None
      | Some rate \<Rightarrow>
          if link \<noteq> NESTED_TIMING then Inr None
          else bindE (precision_of (p_timestamps src)) (\<lambda>a.
               bindE (precision_of (p_timestamps dst)) (\<lambda>b.
               let window_ns = max_of [a, b, 1000 * (case h_noise_us hop of None \<Rightarrow> 0 | Some n \<Rightarrow> n)] in
               Inr (Some (of_int (rate * window_ns) / 1000000000)))))"

definition hop_link :: "Hop \<Rightarrow> Point \<Rightarrow> Point \<Rightarrow> LinkKind \<times> Evidence" where
  "hop_link hop src dst =
     (case find (\<lambda>kl. missing hop src dst (fst kl) = []) HOP_LINKS of
        None \<Rightarrow> (NO_LINK, UNRESOLVED) | Some kl \<Rightarrow> kl)"

definition hop_ceiling :: "Hop \<Rightarrow> Point \<Rightarrow> Point \<Rightarrow> HopCeiling result" where
  "hop_ceiling hop src dst =
     (let (link, evidence) = hop_link hop src dst in
      bindE (hop_density hop src dst link) (\<lambda>density.
      Inr \<lparr>hc_src = h_src hop, hc_dst = h_dst hop, hc_relation = h_relation hop,
        hc_evidence = evidence, hc_link = link, hc_density = density, hc_max_fanout = h_max_fanout hop,
        hc_key = (case link of SHARED_HEADER \<Rightarrow> wire_header src dst | MESSAGE_KEY \<Rightarrow> Some ''message_id''
                  | _ \<Rightarrow> None),
        hc_observed = (if missing hop src dst SAME_CONNECTION = [] \<and> h_nat hop = ''none''
          then Some (if h_pooling hop then [''tuple5'', ''h2_stream_id''] else [''tuple5'']) else None)\<rparr>))"

definition crossing_ceiling :: "Point \<Rightarrow> CrossingCeiling" where
  "crossing_ceiling point =
     (case find (\<lambda>header. header \<in> set (map fst (p_propagates point)) \<and> header \<in> p_inbound point
             \<and> header \<in> p_outbound point \<and> header \<notin> p_sets point) (HEADERS @ [''message_id'']) of
        Some header \<Rightarrow> \<lparr>cc_point = p_name point, cc_evidence = AUTHORED, cc_link = PROPAGATED, cc_key = Some header\<rparr>
      | None \<Rightarrow>
          if p_visibility point = ''kernel''
          then \<lparr>cc_point = p_name point, cc_evidence = OBSERVED, cc_link = INSIDE_PROCESS, cc_key = None\<rparr>
          else if p_visibility point = ''log'' \<or> p_visibility point = ''app''
          then \<lparr>cc_point = p_name point, cc_evidence = DERIVED, cc_link = LOGGED_TIMING, cc_key = None\<rparr>
          else \<lparr>cc_point = p_name point, cc_evidence = UNRESOLVED, cc_link = NO_LINK, cc_key = None\<rparr>)"

section \<open>Rules\<close>

definition by_agent :: "Point \<Rightarrow> string list" where
  "by_agent point = sort (map fst (filter (\<lambda>nw. snd nw = ''agent'') (p_propagates point)))"

definition check_point_rules :: "Point \<Rightarrow> Refusal list \<Rightarrow> Refusal list" where
  "check_point_rules point rs =
     rs
     @ (if by_agent point \<noteq> [] \<and> p_visibility point \<noteq> ''kernel''
        then [refusal AGENT_NOT_PRESENT (p_name point) ''an agent propagates on a point it does not see''] else [])
     @ (if ''baggage'' \<in> set (by_agent point)
        then [refusal AGENT_BAGGAGE (p_name point) ''the agent does not carry baggage (measured)''] else [])
     @ (if \<not> p_trusts_incoming point
        then map (\<lambda>name. refusal UNTRUSTED_ENTRY_PROPAGATED (p_name point)
             (''the agent re-injects an outside '' @ name @ '' (measured); set it here instead''))
             (filter (\<lambda>name. name \<notin> p_sets point) (by_agent point))
        else [])"

definition lacking :: "Hop \<Rightarrow> Point \<Rightarrow> Point \<Rightarrow> Evidence \<Rightarrow> Reason list" where
  "lacking hop src dst expect =
     sort_key topology_reason_value (remdups (concat (map (\<lambda>(kind, level).
       if level = expect then missing hop src dst kind else []) HOP_LINKS)))"

definition check_density :: "string \<Rightarrow> rat option \<Rightarrow> Refusal list result" where
  "check_density where density =
     (case density of
        None \<Rightarrow> Inr []
      | Some d \<Rightarrow>
          if d > of_int D_MAX
          then (case to_double d of
              None \<Rightarrow> Inl OverflowError
            | Some x \<Rightarrow> Inr [refusal DENSITY_ABOVE_BOUND where (''density '' @ format_g x @ '' > ''
                @ str_int D_MAX @ '': timing cannot carry this rate'')])
          else Inr [])"

definition check_expect :: "Hop \<Rightarrow> HopCeiling \<Rightarrow> Point \<Rightarrow> Point \<Rightarrow> Refusal list" where
  "check_expect hop ceil src dst =
     (case h_expect hop of
        None \<Rightarrow> []
      | Some expect \<Rightarrow>
          if hc_evidence ceil < expect
          then [\<lparr>r_reason = CEILING_BELOW_EXPECTED, r_where = arrow (h_src hop) (h_dst hop),
            r_detail = ''expected '' @ evidence_name expect @ '', at most '' @ evidence_name (hc_evidence ceil)
              @ ''; missing: '' @ join '', '' (map (lower \<circ> topology_reason_name) (lacking hop src dst expect)),
            r_missing = lacking hop src dst expect\<rparr>]
          else [])"

definition check_hop_rules ::
    "Hop \<Rightarrow> HopCeiling \<Rightarrow> Point \<Rightarrow> Point \<Rightarrow> Refusal list \<Rightarrow> Refusal list result" where
  "check_hop_rules hop ceil src dst rs =
     bindE (check_density (arrow (h_src hop) (h_dst hop)) (hc_density ceil)) (\<lambda>ds.
     Inr (rs @ ds @ check_expect hop ceil src dst))"

section \<open>Loading\<close>

definition hop_step ::
    "(string \<times> Point) list \<Rightarrow> HopCeiling list \<times> Refusal list \<Rightarrow> Hop \<Rightarrow> (HopCeiling list \<times> Refusal list) result" where
  "hop_step points st hop =
     (case map_of points (h_src hop) of None \<Rightarrow> Inr st
      | Some src \<Rightarrow> (case map_of points (h_dst hop) of None \<Rightarrow> Inr st
      | Some dst \<Rightarrow>
          bindE (hop_ceiling hop src dst) (\<lambda>ceil.
          bindE (check_hop_rules hop ceil src dst (snd st)) (\<lambda>rs.
          Inr (fst st @ [ceil], rs)))))"

text \<open>The part of \<open>load\<close> that computes everything and records the refusals.\<close>

definition load_parts ::
    "py_table \<Rightarrow> ((string \<times> Point) list \<times> Hop list \<times> HopCeiling list \<times> Refusal list) result" where
  "load_parts declaration =
     bindE (parse declaration []) (\<lambda>(points, hops, rs).
     bindE (foldE (hop_step points) ([], fold check_point_rules (map snd points) rs) hops) (\<lambda>(ceilings, rs).
     Inr (points, hops, ceilings, rs)))"

definition load :: "py_table \<Rightarrow> topology_error + Topology" where
  "load declaration =
     (case load_parts declaration of
        Inl e \<Rightarrow> Inl (Raised e)
      | Inr (points, hops, ceilings, rs) \<Rightarrow>
          if rs \<noteq> [] then Inl (topology_error rs)
          else (case mapE (dict_getE points)
                  (sorted_list_of_set (h_src ` set hops \<inter> h_dst ` set hops)) of
              Inl e \<Rightarrow> Inl (Raised e)
            | Inr crossed \<Rightarrow> Inr
                \<lparr>t_points = map snd (sort_key fst points),
                 t_hops = sort_key (\<lambda>c. (hc_src c, hc_dst c)) ceilings,
                 t_crossings = map crossing_ceiling crossed\<rparr>))"

text \<open>\<open>loads\<close>: \<open>toml\<close> is \<open>tomllib.loads\<close>, which gives a table or the text of its error.\<close>

definition loads :: "(string \<Rightarrow> string + py_table) \<Rightarrow> string \<Rightarrow> topology_error + Topology" where
  "loads toml text =
     (case toml text of
        Inl e \<Rightarrow> Inl (topology_error [refusal INVALID_VALUE [] (''not TOML: '' @ e)])
      | Inr declaration \<Rightarrow> load declaration)"

end
