(* ===== verification/Exact.thy ===== *)
theory Exact
  imports Dedup Topology
begin

text \<open>
  The exact path (\<open>correlation/exact.py\<close>): the two sides of every authored hop and crossing
  are joined on the identifier the topology names, and the hops with an observed signal on
  the identifiers of their connection.  A link is made only where a value is seen exactly
  once on each side; a value seen more often is a collision.

  An observation is well-typed here: the checks that its fields are strings and integers
  have nothing to refuse.  A \<open>Mapping\<close> of identifiers is an association list with distinct
  keys.
\<close>

definition exact_SIDES :: "string list" where
  "exact_SIDES = [''inbound'', ''outbound'']"

record Observation =
  o_source :: string
  o_seq :: int
  o_point :: string
  o_side :: string
  o_keys :: "(string \<times> string) list"

record Link =
  l_where :: string
  l_key :: string
  l_value :: string
  l_upstream :: identity
  l_downstream :: identity

record Collision =
  c_where :: string
  c_key :: string
  c_value :: string
  c_upstream :: "identity list"
  c_downstream :: "identity list"

record ExactResult =
  x_links :: "Link list"
  x_collisions :: "Collision list"
  x_unlinked :: "(string \<times> identity) list"
  x_duplicates_dropped :: int

definition o_identity :: "Observation \<Rightarrow> identity" where
  "o_identity obs = (o_source obs, o_seq obs)"

definition o_content :: "Observation \<Rightarrow> string \<times> string \<times> (string \<times> string) list" where
  "o_content obs = (o_point obs, o_side obs, sort (o_keys obs))"

definition validate_key :: "string \<times> string \<Rightarrow> unit result" where
  "validate_key kv =
     bindE (checkE (fst kv \<in> set IDENTIFIERS) (ValueError ''unknown identifier'')) (\<lambda>_.
     checkE (snd kv \<noteq> []) (ValueError ''empty value''))"

definition exact_validate :: "string set \<Rightarrow> Observation \<Rightarrow> unit result" where
  "exact_validate points obs =
     bindE (checkE (o_point obs \<in> points) (ValueError ''unknown point'')) (\<lambda>_.
     bindE (checkE (o_side obs \<in> set exact_SIDES) (ValueError ''side must be inbound or outbound'')) (\<lambda>_.
     foldE (\<lambda>_. validate_key) () (o_keys obs)))"

definition exact_deduplicated :: "Topology \<Rightarrow> Observation list \<Rightarrow> (Observation list \<times> int) result" where
  "exact_deduplicated topology observations =
     dedup (exact_validate (p_name ` set (t_points topology))) o_identity o_content observations"

definition value_of :: "Observation \<Rightarrow> string \<Rightarrow> string option" where
  "value_of obs key = map_of (o_keys obs) key"

definition composite_of :: "Observation \<Rightarrow> string list \<Rightarrow> string option" where
  "composite_of obs identifiers =
     (if \<exists>i \<in> set identifiers. map_of (o_keys obs) i = None then None
      else Some (join SEP (map (\<lambda>i. the (map_of (o_keys obs) i)) identifiers)))"

definition observed_key :: "string list \<Rightarrow> string" where
  "observed_key identifiers = join ''+'' identifiers"

text \<open>\<open>out[value].append(...)\<close>, then every list sorted.\<close>

definition add_value :: "string option \<Rightarrow> identity \<Rightarrow> (string \<times> identity list) list \<Rightarrow> (string \<times> identity list) list" where
  "add_value v i d =
     (case v of None \<Rightarrow> d
      | Some x \<Rightarrow> dict_put x ((case map_of d x of None \<Rightarrow> [] | Some ids \<Rightarrow> ids) @ [i]) d)"

definition by_value ::
    "(Observation \<Rightarrow> 'k \<Rightarrow> string option) \<Rightarrow> 'k \<Rightarrow> Observation list \<Rightarrow> (string \<times> identity list) list" where
  "by_value val key observations =
     map (\<lambda>(v, ids). (v, sort ids)) (fold (\<lambda>obs. add_value (val obs key) (o_identity obs)) observations [])"

type_synonym side = "string \<times> string"
type_synonym 'k join_spec = "string \<times> 'k \<times> side \<times> side"

definition by_side :: "Observation list \<Rightarrow> side \<Rightarrow> Observation list" where
  "by_side kept s = filter (\<lambda>obs. (o_point obs, o_side obs) = s) kept"

text \<open>The decision on one value of a join: the lists \<open>ups\<close> and \<open>downs\<close> that carry it.\<close>

type_synonym joined = "Link list \<times> Collision list \<times> (string \<times> identity) list"

definition join_value ::
    "string \<Rightarrow> string \<Rightarrow> (string \<Rightarrow> identity list) \<Rightarrow> (string \<Rightarrow> identity list) \<Rightarrow> string \<Rightarrow> joined \<Rightarrow> joined" where
  "join_value where name up down v acc =
     (let (links, collisions, unlinked) = acc; ups = up v; downs = down v in
      if length ups > 1 \<or> length downs > 1
      then (links, collisions @ [\<lparr>c_where = where, c_key = name, c_value = v, c_upstream = ups, c_downstream = downs\<rparr>],
            unlinked)
      else if ups \<noteq> [] \<and> downs \<noteq> []
      then (links @ [\<lparr>l_where = where, l_key = name, l_value = v, l_upstream = hd ups, l_downstream = hd downs\<rparr>],
            collisions, unlinked)
      else (links, collisions, unlinked @ [(where, hd (if ups \<noteq> [] then ups else downs))]))"

definition get_ids :: "(string \<times> identity list) list \<Rightarrow> string \<Rightarrow> identity list" where
  "get_ids d v = (case map_of d v of None \<Rightarrow> [] | Some ids \<Rightarrow> ids)"

definition join_step ::
    "(Observation \<Rightarrow> 'k \<Rightarrow> string option) \<Rightarrow> ('k \<Rightarrow> string) \<Rightarrow> (side \<Rightarrow> Observation list) \<Rightarrow> 'k join_spec
      \<Rightarrow> joined \<Rightarrow> joined" where
  "join_step val name sides j acc =
     (let (where, key, up_side, down_side) = j;
          up = by_value val key (sides up_side); down = by_value val key (sides down_side) in
      fold (join_value where (name key) (get_ids up) (get_ids down))
        (sorted_list_of_set (fst ` set up \<union> fst ` set down)) acc)"

definition join_all ::
    "(Observation \<Rightarrow> 'k \<Rightarrow> string option) \<Rightarrow> ('k \<Rightarrow> string) \<Rightarrow> 'k join_spec list \<Rightarrow> (side \<Rightarrow> Observation list)
      \<Rightarrow> int \<Rightarrow> ExactResult" where
  "join_all val name joins sides n =
     (let (links, collisions, unlinked) = fold (join_step val name sides) joins ([], [], []) in
      \<lparr>x_links = sort_key (\<lambda>x. (l_where x, l_key x, l_value x)) links,
       x_collisions = sort_key (\<lambda>x. (c_where x, c_key x, c_value x)) collisions,
       x_unlinked = sort unlinked,
       x_duplicates_dropped = n\<rparr>)"

text \<open>The joins of the two paths: the comprehensions over the hops and the crossings.\<close>

definition exact_joins :: "Topology \<Rightarrow> string join_spec list" where
  "exact_joins topology =
     List.map_filter (\<lambda>h. map_option (\<lambda>k. (arrow (hc_src h) (hc_dst h), k, (hc_src h, ''outbound''),
       (hc_dst h, ''inbound''))) (hc_key h)) (t_hops topology)
     @ List.map_filter (\<lambda>c. map_option (\<lambda>k. (cc_point c, k, (cc_point c, ''inbound''),
         (cc_point c, ''outbound''))) (cc_key c)) (t_crossings topology)"

definition observed_joins :: "Topology \<Rightarrow> string list join_spec list" where
  "observed_joins topology =
     List.map_filter (\<lambda>h. map_option (\<lambda>k. (arrow (hc_src h) (hc_dst h), k, (hc_src h, ''outbound''),
       (hc_dst h, ''inbound''))) (hc_observed h)) (t_hops topology)"

definition exact_links :: "Topology \<Rightarrow> Observation list \<Rightarrow> ExactResult result" where
  "exact_links topology observations =
     bindE (exact_deduplicated topology observations) (\<lambda>(kept, n).
     Inr (join_all value_of id (exact_joins topology) (by_side kept) n))"

definition observed_links :: "Topology \<Rightarrow> Observation list \<Rightarrow> ExactResult result" where
  "observed_links topology observations =
     bindE (exact_deduplicated topology observations) (\<lambda>(kept, n).
     Inr (join_all composite_of observed_key (observed_joins topology) (by_side kept) n))"

section \<open>The values of one side\<close>

text \<open>The identities of the observations that carry a value, in order of arrival.\<close>

definition carrying :: "(Observation \<Rightarrow> 'k \<Rightarrow> string option) \<Rightarrow> 'k \<Rightarrow> Observation list \<Rightarrow> string \<Rightarrow> identity list" where
  "carrying val key observations v = map o_identity (filter (\<lambda>obs. val obs key = Some v) observations)"

lemma fold_add_value:
  "get_ids (fold (\<lambda>obs. add_value (val obs key) (o_identity obs)) observations d) v
     = get_ids d v @ carrying val key observations v
   \<and> fst ` set (fold (\<lambda>obs. add_value (val obs key) (o_identity obs)) observations d)
     = fst ` set d \<union> {x. \<exists>obs \<in> set observations. val obs key = Some x}"
proof (induction observations arbitrary: d)
  case (Cons obs rest)
  have "get_ids (add_value (val obs key) (o_identity obs) d) v = get_ids d v @ carrying val key [obs] v"
    by (auto simp: add_value_def get_ids_def carrying_def split: option.splits)
  moreover have "fst ` set (add_value (val obs key) (o_identity obs) d) = fst ` set d \<union> {x. val obs key = Some x}"
    by (auto simp: add_value_def split: option.splits)
  ultimately show ?case using Cons.IH [of "add_value (val obs key) (o_identity obs) d"] by (auto simp: carrying_def)
qed (simp add: carrying_def)

lemma get_ids_by_value: "get_ids (by_value val key observations) v = sort (carrying val key observations v)"
proof -
  have "get_ids (map (\<lambda>(v, ids). (v, sort ids)) d) v = sort (get_ids d v)" for d
    by (simp add: get_ids_def map_of_map split: option.splits)
  then show ?thesis
    using fold_add_value [of val key observations "[]" v] by (simp add: by_value_def get_ids_def)
qed

lemma keys_by_value: "fst ` set (by_value val key observations) = {v. carrying val key observations v \<noteq> []}"
proof -
  have "fst ` set (map (\<lambda>(v, ids). (v, sort ids)) d) = fst ` set d" for d :: "(string \<times> identity list) list"
    by (auto simp: image_image split_beta)
  then show ?thesis
    using fold_add_value [of val key observations "[]"] by (auto simp: by_value_def carrying_def filter_empty_conv)
qed

section \<open>One join\<close>

text \<open>What a join concludes of a value, from the identities that carry it.\<close>

definition join_links :: "string \<Rightarrow> string \<Rightarrow> (string \<Rightarrow> identity list) \<Rightarrow> (string \<Rightarrow> identity list) \<Rightarrow> string \<Rightarrow> Link list" where
  "join_links where name up down v = (if length (up v) = 1 \<and> length (down v) = 1
     then [\<lparr>l_where = where, l_key = name, l_value = v, l_upstream = hd (up v), l_downstream = hd (down v)\<rparr>] else [])"

definition join_collisions :: "string \<Rightarrow> string \<Rightarrow> (string \<Rightarrow> identity list) \<Rightarrow> (string \<Rightarrow> identity list) \<Rightarrow> string \<Rightarrow> Collision list" where
  "join_collisions where name up down v = (if length (up v) > 1 \<or> length (down v) > 1
     then [\<lparr>c_where = where, c_key = name, c_value = v, c_upstream = up v, c_downstream = down v\<rparr>] else [])"

definition join_unlinked :: "string \<Rightarrow> (string \<Rightarrow> identity list) \<Rightarrow> (string \<Rightarrow> identity list) \<Rightarrow> string \<Rightarrow> (string \<times> identity) list" where
  "join_unlinked where up down v = (if length (up v) + length (down v) = 1
     then [(where, hd (up v @ down v))] else [])"

lemma join_value_eq:
  assumes "up v \<noteq> [] \<or> down v \<noteq> []"
  shows "join_value where name up down v (links, collisions, unlinked) =
    (links @ join_links where name up down v, collisions @ join_collisions where name up down v,
     unlinked @ join_unlinked where up down v)"
  using assms
  by (cases "up v"; cases "down v")
    (auto simp: join_value_def join_links_def join_collisions_def join_unlinked_def Let_def)

lemma fold_join_value:
  assumes "\<And>v. v \<in> set vs \<Longrightarrow> up v \<noteq> [] \<or> down v \<noteq> []"
  shows "fold (join_value where name up down) vs (links, collisions, unlinked) =
    (links @ concat (map (join_links where name up down) vs),
     collisions @ concat (map (join_collisions where name up down) vs),
     unlinked @ concat (map (join_unlinked where up down) vs))"
  using assms by (induction vs arbitrary: links collisions unlinked) (simp_all add: join_value_eq)

end
