(* ===== verification/Exact_Props.thy ===== *)
theory Exact_Props
  imports Exact
begin

text \<open>
  What the exact path promises: a link exactly where a value has one carrier on each side, a
  collision that names every carrier, an unlinked observation exactly where it is alone;
  and a result that does not depend on the order of the observations or on redeliveries.
\<close>

declare split_paired_All [simp del] split_paired_Ex [simp del]

section \<open>All the joins\<close>

text \<open>The identities carrying a value on the two sides of a join.\<close>

definition join_up :: "(Observation \<Rightarrow> 'k \<Rightarrow> string option) \<Rightarrow> Observation list \<Rightarrow> 'k join_spec \<Rightarrow> string \<Rightarrow> identity list" where
  "join_up val kept j v = sort (carrying val (fst (snd j)) (by_side kept (fst (snd (snd j)))) v)"

definition join_down :: "(Observation \<Rightarrow> 'k \<Rightarrow> string option) \<Rightarrow> Observation list \<Rightarrow> 'k join_spec \<Rightarrow> string \<Rightarrow> identity list" where
  "join_down val kept j v = sort (carrying val (fst (snd j)) (by_side kept (snd (snd (snd j)))) v)"

definition join_values :: "(Observation \<Rightarrow> 'k \<Rightarrow> string option) \<Rightarrow> Observation list \<Rightarrow> 'k join_spec \<Rightarrow> string list" where
  "join_values val kept j = sorted_list_of_set ({v. join_up val kept j v \<noteq> []} \<union> {v. join_down val kept j v \<noteq> []})"

lemma finite_carried: "finite {v. carrying val key obs v \<noteq> []}"
proof -
  have "{v. carrying val key obs v \<noteq> []} = fst ` set (by_value val key obs)" by (simp add: keys_by_value)
  then show ?thesis by simp
qed

lemma sort_eq_Nil [simp]: "sort xs = [] \<longleftrightarrow> xs = ([] :: 'a::linorder list)"
  by (metis set_empty set_sort)

lemma set_join_values: "set (join_values val kept j) = {v. join_up val kept j v \<noteq> [] \<or> join_down val kept j v \<noteq> []}"
proof -
  have "finite ({v. join_up val kept j v \<noteq> []} \<union> {v. join_down val kept j v \<noteq> []})"
    using finite_carried [of val "fst (snd j)" "by_side kept (fst (snd (snd j)))"]
      finite_carried [of val "fst (snd j)" "by_side kept (snd (snd (snd j)))"]
    by (simp add: join_up_def join_down_def)
  then show ?thesis by (auto simp: join_values_def)
qed

lemma join_step_eq:
  "join_step val name (by_side kept) j (links, collisions, unlinked) =
    (links @ concat (map (join_links (fst j) (name (fst (snd j))) (join_up val kept j) (join_down val kept j)) (join_values val kept j)),
     collisions @ concat (map (join_collisions (fst j) (name (fst (snd j))) (join_up val kept j) (join_down val kept j)) (join_values val kept j)),
     unlinked @ concat (map (join_unlinked (fst j) (join_up val kept j) (join_down val kept j)) (join_values val kept j)))"
proof -
  obtain w key u d where j: "j = (w, key, u, d)" by (metis prod_cases4)
  have ids: "get_ids (by_value val key (by_side kept u)) = join_up val kept j"
    "get_ids (by_value val key (by_side kept d)) = join_down val kept j"
    by (auto simp: fun_eq_iff get_ids_by_value join_up_def join_down_def j)
  have "sorted_list_of_set (fst ` set (by_value val key (by_side kept u)) \<union> fst ` set (by_value val key (by_side kept d)))
    = join_values val kept j"
    by (simp add: keys_by_value join_values_def join_up_def join_down_def j)
  then have "join_step val name (by_side kept) j (links, collisions, unlinked) =
      fold (join_value w (name key) (join_up val kept j) (join_down val kept j)) (join_values val kept j)
        (links, collisions, unlinked)"
    by (subst (1) j) (simp only: join_step_def Let_def prod.case ids)
  also have "\<dots> = (links @ concat (map (join_links w (name key) (join_up val kept j) (join_down val kept j)) (join_values val kept j)),
     collisions @ concat (map (join_collisions w (name key) (join_up val kept j) (join_down val kept j)) (join_values val kept j)),
     unlinked @ concat (map (join_unlinked w (join_up val kept j) (join_down val kept j)) (join_values val kept j)))"
    by (rule fold_join_value) (auto simp: set_join_values)
  finally show ?thesis using j by simp
qed

definition all_links :: "(Observation \<Rightarrow> 'k \<Rightarrow> string option) \<Rightarrow> ('k \<Rightarrow> string) \<Rightarrow> Observation list \<Rightarrow> 'k join_spec list \<Rightarrow> Link list" where
  "all_links val name kept js = concat (map (\<lambda>j. concat (map (join_links (fst j) (name (fst (snd j)))
     (join_up val kept j) (join_down val kept j)) (join_values val kept j))) js)"

definition all_collisions :: "(Observation \<Rightarrow> 'k \<Rightarrow> string option) \<Rightarrow> ('k \<Rightarrow> string) \<Rightarrow> Observation list \<Rightarrow> 'k join_spec list \<Rightarrow> Collision list" where
  "all_collisions val name kept js = concat (map (\<lambda>j. concat (map (join_collisions (fst j) (name (fst (snd j)))
     (join_up val kept j) (join_down val kept j)) (join_values val kept j))) js)"

definition all_unlinked :: "(Observation \<Rightarrow> 'k \<Rightarrow> string option) \<Rightarrow> Observation list \<Rightarrow> 'k join_spec list \<Rightarrow> (string \<times> identity) list" where
  "all_unlinked val kept js = concat (map (\<lambda>j. concat (map (join_unlinked (fst j)
     (join_up val kept j) (join_down val kept j)) (join_values val kept j))) js)"

lemma fold_join_step:
  "fold (join_step val name (by_side kept)) js (links, collisions, unlinked) =
    (links @ all_links val name kept js, collisions @ all_collisions val name kept js, unlinked @ all_unlinked val kept js)"
  by (induction js arbitrary: links collisions unlinked)
    (simp_all add: join_step_eq all_links_def all_collisions_def all_unlinked_def)

lemma join_all_eq:
  "join_all val name js (by_side kept) n =
     \<lparr>x_links = sort_key (\<lambda>x. (l_where x, l_key x, l_value x)) (all_links val name kept js),
      x_collisions = sort_key (\<lambda>x. (c_where x, c_key x, c_value x)) (all_collisions val name kept js),
      x_unlinked = sort (all_unlinked val kept js), x_duplicates_dropped = n\<rparr>"
  by (simp add: join_all_def fold_join_step)

section \<open>Independence of the order\<close>

text \<open>A \<open>Mapping\<close> has distinct keys: what it holds is what its sorted items hold.\<close>

definition mapping_keys :: "Observation list \<Rightarrow> bool" where
  "mapping_keys obs \<longleftrightarrow> (\<forall>x \<in> set obs. distinct (map fst (o_keys x)))"

lemma map_of_sorted_items:
  assumes "distinct (map fst xs)" "distinct (map fst ys)" "sort xs = sort (ys :: ('a::linorder \<times> 'b::linorder) list)"
  shows "map_of xs = map_of ys"
proof -
  have "set xs = set ys" using assms(3) by (metis set_sort)
  then show ?thesis using assms(1,2) by (simp add: map_of_inject_set)
qed

text \<open>What the joins read of an observation.\<close>

definition o_view :: "Observation \<Rightarrow> side \<times> (string \<rightharpoonup> string)" where
  "o_view obs = ((o_point obs, o_side obs), map_of (o_keys obs))"

lemma o_view_content:
  "mapping_keys obs \<Longrightarrow> x \<in> set obs \<Longrightarrow> y \<in> set obs \<Longrightarrow> o_content x = o_content y \<Longrightarrow> o_view x = o_view y"
  by (auto simp: o_content_def o_view_def mapping_keys_def intro: map_of_sorted_items)

text \<open>A reader of values that only looks an observation's identifiers up.\<close>

locale value_reader =
  fixes val :: "Observation \<Rightarrow> 'k \<Rightarrow> string option"
  assumes val_view: "map_of (o_keys x) = map_of (o_keys y) \<Longrightarrow> val x k = val y k"
begin

lemma val_of_view: "o_view x = o_view y \<Longrightarrow> val x k = val y k"
  by (rule val_view) (simp add: o_view_def)

text \<open>The carriers of a value, as a multiset, from the identities and views alone.\<close>

lemma carrying_mset:
  "mset (carrying val k (by_side kept s) v) =
     image_mset fst (filter_mset (\<lambda>iv. \<exists>x. o_view x = snd iv \<and> fst (o_view x) = s \<and> val x k = Some v)
       (mset (map (\<lambda>x. (o_identity x, o_view x)) kept)))"
proof -
  define P where "P iv \<longleftrightarrow> (\<exists>x. o_view x = snd iv \<and> fst (o_view x) = s \<and> val x k = Some v)"
    for iv :: "identity \<times> side \<times> (string \<rightharpoonup> string)"
  have P: "P (i, o_view x) \<longleftrightarrow> (o_point x, o_side x) = s \<and> val x k = Some v" for i x
    using val_of_view [of _ x k] unfolding P_def by (metis fst_conv snd_conv o_view_def)
  show ?thesis
    unfolding P_def [symmetric]
  proof (induction kept)
    case (Cons x kept)
    then show ?case
      by (cases "(o_point x, o_side x) = s \<and> val x k = Some v")
        (auto simp: P carrying_def by_side_def filter_filter_mset)
  qed (simp add: carrying_def by_side_def)
qed

lemma join_ids_cong:
  assumes "mset (map (\<lambda>x. (o_identity x, o_view x)) kept) = mset (map (\<lambda>x. (o_identity x, o_view x)) kept')"
  shows "join_up val kept j = join_up val kept' j" "join_down val kept j = join_down val kept' j"
proof -
  have "sort (carrying val k (by_side kept s) v) = sort (carrying val k (by_side kept' s) v)" for k s v
    by (rule sort_mset_eq) (simp only: carrying_mset assms)
  then show "join_up val kept j = join_up val kept' j" "join_down val kept j = join_down val kept' j"
    by (simp_all add: fun_eq_iff join_up_def join_down_def)
qed

lemma join_all_cong:
  assumes "mset (map (\<lambda>x. (o_identity x, o_view x)) kept) = mset (map (\<lambda>x. (o_identity x, o_view x)) kept')"
  shows "join_all val name js (by_side kept) n = join_all val name js (by_side kept') n"
proof -
  have "join_up val kept = join_up val kept'" "join_down val kept = join_down val kept'"
    using join_ids_cong [OF assms] by (simp_all add: fun_eq_iff)
  then have "join_values val kept = join_values val kept'" by (simp add: fun_eq_iff join_values_def)
  then show ?thesis
    unfolding join_all_eq all_links_def all_collisions_def all_unlinked_def
    by (simp add: \<open>join_up val kept = join_up val kept'\<close> \<open>join_down val kept = join_down val kept'\<close>)
qed

text \<open>A result that is returned for one order is returned for every order of the same input.\<close>

lemma order_independent:
  assumes "mset xs = mset ys" "mapping_keys xs"
    and "bindE (exact_deduplicated t xs) (\<lambda>(kept, n). Inr (join_all val name js (by_side kept) n)) = Inr r"
  shows "bindE (exact_deduplicated t ys) (\<lambda>(kept, n). Inr (join_all val name js (by_side kept) n)) = Inr r"
proof -
  obtain ds n where ds: "exact_deduplicated t xs = Inr (ds, n)" "r = join_all val name js (by_side ds) n"
    using assms(3) by auto
  have sets: "set xs = set ys" using assms(1) by (rule mset_eq_setD)
  have "coherent (exact_validate (p_name ` set (t_points t))) o_identity o_content ys"
    by (rule coherent_set [OF sets, THEN iffD1]) (rule dedup_coherent [OF ds(1) [unfolded exact_deduplicated_def]])
  then obtain p where "exact_deduplicated t ys = Inr p"
    unfolding exact_deduplicated_def dedup_accepts [symmetric] by (elim exE)
  then obtain es m where es: "exact_deduplicated t ys = Inr (es, m)" by (cases p) simp
  note ds' = ds(1) [unfolded exact_deduplicated_def] and es' = es [unfolded exact_deduplicated_def]
  have m: "mset (map (\<lambda>x. (o_identity x, o_view x)) ds) = mset (map (\<lambda>x. (o_identity x, o_view x)) es)"
    by (rule dedup_mset [OF ds' es' sets]) (rule o_view_content [OF assms(2)])
  have "length ds = length es" using arg_cong [OF m, of size] by simp
  moreover have "length xs = length ys" using assms(1) by (rule mset_eq_length)
  ultimately have "n = m" using dedup_spec(4) [OF ds'] dedup_spec(4) [OF es'] by simp
  then show ?thesis using es ds(2) join_all_cong [OF m, of name js m] by simp
qed

end

interpretation single: value_reader value_of
  by unfold_locales (simp add: value_of_def)

interpretation composite: value_reader composite_of
  by unfold_locales (simp add: composite_of_def)

text \<open>
  C22 The links, collisions and unlinked observations do not depend on the order in which the
  observations come, for the exact path and for the observed one.
\<close>

theorem exact_order_independent:
  assumes "mset xs = mset ys" "mapping_keys xs"
  shows "(exact_links t xs = Inr r \<longrightarrow> exact_links t ys = Inr r)
    \<and> (observed_links t xs = Inr r \<longrightarrow> observed_links t ys = Inr r)"
  using single.order_independent [OF assms, of t id "exact_joins t" r]
    composite.order_independent [OF assms, of t observed_key "observed_joins t" r]
  by (simp add: exact_links_def observed_links_def)

section \<open>What is linked\<close>

text \<open>The observations that carry a value on one side, by identity, redeliveries included.\<close>

definition carriers :: "(Observation \<Rightarrow> 'k \<Rightarrow> string option) \<Rightarrow> Observation list \<Rightarrow> 'k \<Rightarrow> side \<Rightarrow> string \<Rightarrow> identity set" where
  "carriers val obs key s v = {o_identity x | x. x \<in> set obs \<and> (o_point x, o_side x) = s \<and> val x key = Some v}"

lemma set_carrying: "set (carrying val key (by_side kept s) v) = carriers val kept key s v"
  by (auto simp: carrying_def by_side_def carriers_def)

lemma distinct_carrying: "distinct (map o_identity kept) \<Longrightarrow> distinct (carrying val key (by_side kept s) v)"
  by (simp add: carrying_def by_side_def distinct_map_filter)

lemma sort_carrying:
  assumes "distinct (map o_identity kept)"
  shows "sort (carrying val key (by_side kept s) v) = sorted_list_of_set (carriers val kept key s v)"
  using distinct_carrying [OF assms, of val key s v]
  by (simp add: sorted_list_of_set_sort_remdups distinct_remdups_id flip: set_carrying)

lemma finite_carriers [simp]: "finite (carriers val kept key s v)"
  by (simp flip: set_carrying)

lemma length_eq_1_sorted_list: "finite A \<Longrightarrow> length (sorted_list_of_set A) = 1 \<longleftrightarrow> (\<exists>a. A = {a})"
  by (simp add: card_1_singleton_iff)

text \<open>The specification of the three outputs of a join, in terms of the carriers.\<close>

definition link_spec :: "(Observation \<Rightarrow> 'k \<Rightarrow> string option) \<Rightarrow> ('k \<Rightarrow> string) \<Rightarrow> 'k join_spec list \<Rightarrow> Observation list \<Rightarrow> Link \<Rightarrow> bool" where
  "link_spec val name js obs l \<longleftrightarrow> (\<exists>(w, k, u, d) \<in> set js. l_where l = w \<and> l_key l = name k
     \<and> carriers val obs k u (l_value l) = {l_upstream l} \<and> carriers val obs k d (l_value l) = {l_downstream l})"

definition collision_spec :: "(Observation \<Rightarrow> 'k \<Rightarrow> string option) \<Rightarrow> ('k \<Rightarrow> string) \<Rightarrow> 'k join_spec list \<Rightarrow> Observation list \<Rightarrow> Collision \<Rightarrow> bool" where
  "collision_spec val name js obs c \<longleftrightarrow> (\<exists>(w, k, u, d) \<in> set js. c_where c = w \<and> c_key c = name k
     \<and> c_upstream c = sorted_list_of_set (carriers val obs k u (c_value c))
     \<and> c_downstream c = sorted_list_of_set (carriers val obs k d (c_value c))
     \<and> (card (carriers val obs k u (c_value c)) > 1 \<or> card (carriers val obs k d (c_value c)) > 1))"

definition unlinked_spec :: "(Observation \<Rightarrow> 'k \<Rightarrow> string option) \<Rightarrow> 'k join_spec list \<Rightarrow> Observation list \<Rightarrow> string \<times> identity \<Rightarrow> bool" where
  "unlinked_spec val js obs wi \<longleftrightarrow> (\<exists>(w, k, u, d) \<in> set js. \<exists>v. fst wi = w
     \<and> ((carriers val obs k u v = {snd wi} \<and> carriers val obs k d v = {})
        \<or> (carriers val obs k u v = {} \<and> carriers val obs k d v = {snd wi})))"

lemma set_concat_values:
  assumes "\<And>v. f v \<noteq> [] \<Longrightarrow> join_up val kept j v \<noteq> [] \<or> join_down val kept j v \<noteq> []"
  shows "set (concat (map f (join_values val kept j))) = (\<Union>v. set (f v))"
proof -
  have "v \<in> set (join_values val kept j)" if "y \<in> set (f v)" for v y
    using that assms [of v] by (cases "f v") (simp_all add: set_join_values)
  then show ?thesis by auto
qed

lemma set_concat_map: "set (concat (map g xs)) = (\<Union>x \<in> set xs. set (g x))"
  by simp

lemma set_all_links: "set (all_links val name kept js) = (\<Union>j \<in> set js. \<Union>v. set (join_links (fst j) (name (fst (snd j)))
    (join_up val kept j) (join_down val kept j) v))"
  unfolding all_links_def
  by (subst set_concat_map, rule SUP_cong [OF refl], rule set_concat_values) (auto simp: join_links_def split: if_splits)

lemma set_all_collisions: "set (all_collisions val name kept js) = (\<Union>j \<in> set js. \<Union>v. set (join_collisions (fst j) (name (fst (snd j)))
    (join_up val kept j) (join_down val kept j) v))"
  unfolding all_collisions_def
  by (subst set_concat_map, rule SUP_cong [OF refl], rule set_concat_values) (auto simp: join_collisions_def split: if_splits)

lemma set_all_unlinked: "set (all_unlinked val kept js) = (\<Union>j \<in> set js. \<Union>v. set (join_unlinked (fst j)
    (join_up val kept j) (join_down val kept j) v))"
  unfolding all_unlinked_def
  by (subst set_concat_map, rule SUP_cong [OF refl], rule set_concat_values) (auto simp: join_unlinked_def split: if_splits)

lemma singleton_iff_hd: "finite A \<Longrightarrow> length (sorted_list_of_set A) = 1 \<and> x = hd (sorted_list_of_set A) \<longleftrightarrow> A = {x}"
proof
  assume fin: "finite A" and a: "length (sorted_list_of_set A) = 1 \<and> x = hd (sorted_list_of_set A)"
  then obtain a where "A = {a}" using length_eq_1_sorted_list [of A] by blast
  with a show "A = {x}" by simp
qed simp

context value_reader
begin

lemma carriers_dedup:
  assumes "dedup check o_identity o_content obs = Inr (ds, n)" "mapping_keys obs"
  shows "carriers val ds k s v = carriers val obs k s v"
proof -
  have car: "carriers val xs k s v
    = {i. \<exists>w. (i, w) \<in> (\<lambda>x. (o_identity x, o_view x)) ` set xs \<and> (\<exists>y. o_view y = w \<and> (o_point y, o_side y) = s \<and> val y k = Some v)}" for xs
  proof -
    have "(o_point y, o_side y) = s \<and> val y k = Some v" if "o_view x = o_view y" "(o_point x, o_side x) = s" "val x k = Some v" for x y
      using that val_of_view [of x y k] by (simp add: o_view_def)
    note move = this
    show ?thesis
    proof (intro set_eqI iffI)
      fix i assume "i \<in> carriers val xs k s v"
      then obtain x where "x \<in> set xs" "i = o_identity x" "(o_point x, o_side x) = s" "val x k = Some v"
        unfolding carriers_def by blast
      then show "i \<in> {i. \<exists>w. (i, w) \<in> (\<lambda>x. (o_identity x, o_view x)) ` set xs
          \<and> (\<exists>y. o_view y = w \<and> (o_point y, o_side y) = s \<and> val y k = Some v)}" by blast
    next
      fix i assume "i \<in> {i. \<exists>w. (i, w) \<in> (\<lambda>x. (o_identity x, o_view x)) ` set xs
          \<and> (\<exists>y. o_view y = w \<and> (o_point y, o_side y) = s \<and> val y k = Some v)}"
      then obtain x y where x: "x \<in> set xs" "i = o_identity x" and y: "o_view y = o_view x" "(o_point y, o_side y) = s" "val y k = Some v"
        by blast
      from move [OF y] x show "i \<in> carriers val xs k s v" unfolding carriers_def by blast
    qed
  qed
  have "(\<lambda>x. (o_identity x, o_view x)) ` set ds = (\<lambda>x. (o_identity x, o_view x)) ` set obs"
  proof (rule dedup_views [OF assms(1)])
    fix x y
    assume xy: "x \<in> set obs" "y \<in> set obs" "o_identity x = o_identity y" "o_content x = o_content y"
    then show "(o_identity x, o_view x) = (o_identity y, o_view y)"
      using o_view_content [OF assms(2) xy(1,2,4)] by (simp only:)
  qed
  then show ?thesis by (simp only: car)
qed

lemma join_all_spec:
  assumes "dedup check o_identity o_content obs = Inr (ds, n)" "mapping_keys obs"
  shows "l \<in> set (x_links (join_all val name js (by_side ds) n)) \<longleftrightarrow> link_spec val name js obs l"
    and "c \<in> set (x_collisions (join_all val name js (by_side ds) n)) \<longleftrightarrow> collision_spec val name js obs c"
    and "w \<in> set (x_unlinked (join_all val name js (by_side ds) n)) \<longleftrightarrow> unlinked_spec val js obs w"
proof -
  have ids: "join_up val ds j v = sorted_list_of_set (carriers val obs (fst (snd j)) (fst (snd (snd j))) v)"
    "join_down val ds j v = sorted_list_of_set (carriers val obs (fst (snd j)) (snd (snd (snd j))) v)" for j v
    by (simp_all add: join_up_def join_down_def sort_carrying [OF dedup_spec(1) [OF assms(1)]] carriers_dedup [OF assms])
  note fin = finite_carriers [of val obs]
  show "l \<in> set (x_links (join_all val name js (by_side ds) n)) \<longleftrightarrow> link_spec val name js obs l"
  proof -
    have "l \<in> set (join_links (fst j) (name (fst (snd j))) (join_up val ds j) (join_down val ds j) v) \<longleftrightarrow>
        l_where l = fst j \<and> l_key l = name (fst (snd j)) \<and> l_value l = v \<and> carriers val obs (fst (snd j)) (fst (snd (snd j))) v = {l_upstream l} \<and> carriers val obs (fst (snd j)) (snd (snd (snd j))) v = {l_downstream l}" for j v
    proof -
      have "l \<in> set (join_links (fst j) (name (fst (snd j))) up dn v) \<longleftrightarrow> l_where l = fst j \<and> l_key l = name (fst (snd j)) \<and> l_value l = v
          \<and> (length (up v) = 1 \<and> l_upstream l = hd (up v)) \<and> (length (dn v) = 1 \<and> l_downstream l = hd (dn v))" for up dn
        by (cases l) (auto simp: join_links_def)
      then show ?thesis by (simp only: ids singleton_iff_hd [OF fin])
    qed
    then show ?thesis by (simp add: join_all_eq set_all_links link_spec_def split_beta)
  qed
  show "c \<in> set (x_collisions (join_all val name js (by_side ds) n)) \<longleftrightarrow> collision_spec val name js obs c"
  proof -
    have "c \<in> set (join_collisions (fst j) (name (fst (snd j))) (join_up val ds j) (join_down val ds j) v) \<longleftrightarrow>
        c_where c = fst j \<and> c_key c = name (fst (snd j)) \<and> c_value c = v \<and> c_upstream c = sorted_list_of_set (carriers val obs (fst (snd j)) (fst (snd (snd j))) v)
        \<and> c_downstream c = sorted_list_of_set (carriers val obs (fst (snd j)) (snd (snd (snd j))) v)
        \<and> (card (carriers val obs (fst (snd j)) (fst (snd (snd j))) v) > 1 \<or> card (carriers val obs (fst (snd j)) (snd (snd (snd j))) v) > 1)" for j v
      by (cases c) (auto simp: join_collisions_def ids)
    then show ?thesis by (simp add: join_all_eq set_all_collisions collision_spec_def split_beta)
  qed
  show "w \<in> set (x_unlinked (join_all val name js (by_side ds) n)) \<longleftrightarrow> unlinked_spec val js obs w"
  proof -
    have "w \<in> set (join_unlinked (fst j) (join_up val ds j) (join_down val ds j) v) \<longleftrightarrow>
        fst w = fst j \<and> ((carriers val obs (fst (snd j)) (fst (snd (snd j))) v = {snd w} \<and> carriers val obs (fst (snd j)) (snd (snd (snd j))) v = {})
          \<or> (carriers val obs (fst (snd j)) (fst (snd (snd j))) v = {} \<and> carriers val obs (fst (snd j)) (snd (snd (snd j))) v = {snd w}))" for j v
    proof -
      have "w \<in> set (join_unlinked (fst j) up dn v) \<longleftrightarrow> fst w = fst j \<and> ((length (up v) = 1 \<and> snd w = hd (up v)) \<and> dn v = []
          \<or> up v = [] \<and> (length (dn v) = 1 \<and> snd w = hd (dn v)))" for up dn
        by (cases w; cases "up v"; cases "dn v") (auto simp: join_unlinked_def)
      then show ?thesis by (simp only: ids singleton_iff_hd [OF fin] sorted_list_of_set_eq_Nil_iff finite_carriers)
    qed
    then show ?thesis by (simp add: join_all_eq set_all_unlinked unlinked_spec_def split_beta)
  qed
qed

end

text \<open>
  C21 The exact path links two observations exactly where, on a join of the topology, a value
  is carried by one observation on each side and no other; it reports a collision exactly
  where a side has several carriers, naming all of them on both sides; and it reports as
  unlinked exactly the observations that carry a value alone.  Redeliveries count once.
\<close>

theorem exact_links_characterised:
  assumes "exact_links t obs = Inr r" "mapping_keys obs"
  shows "(l \<in> set (x_links r) \<longleftrightarrow> link_spec value_of id (exact_joins t) obs l)
    \<and> (c \<in> set (x_collisions r) \<longleftrightarrow> collision_spec value_of id (exact_joins t) obs c)
    \<and> (w \<in> set (x_unlinked r) \<longleftrightarrow> unlinked_spec value_of (exact_joins t) obs w)
    \<and> x_duplicates_dropped r = int (length obs) - int (card (o_identity ` set obs))"
proof -
  obtain ds n where ds: "exact_deduplicated t obs = Inr (ds, n)"
    and r: "r = join_all value_of id (exact_joins t) (by_side ds) n"
    using assms(1) by (auto simp: exact_links_def)
  note d = ds [unfolded exact_deduplicated_def]
  have "card (o_identity ` set obs) = length ds"
    using dedup_spec(1,3) [OF d] distinct_card [of "map o_identity ds"] by (metis length_map list.set_map)
  then have "x_duplicates_dropped r = int (length obs) - int (card (o_identity ` set obs))"
    using dedup_spec(4) [OF d] by (simp add: r join_all_eq)
  then show ?thesis
    using single.join_all_spec [OF d assms(2), of _ id "exact_joins t"] by (simp only: r simp_thms)
qed

text \<open>
  C23 The observed signal links, with the same exactness, on the values of the connection's
  identifiers together.
\<close>

theorem observed_links_characterised:
  assumes "observed_links t obs = Inr r" "mapping_keys obs"
  shows "(l \<in> set (x_links r) \<longleftrightarrow> link_spec composite_of observed_key (observed_joins t) obs l)
    \<and> (c \<in> set (x_collisions r) \<longleftrightarrow> collision_spec composite_of observed_key (observed_joins t) obs c)
    \<and> (w \<in> set (x_unlinked r) \<longleftrightarrow> unlinked_spec composite_of (observed_joins t) obs w)"
proof -
  obtain ds n where ds: "exact_deduplicated t obs = Inr (ds, n)"
    and r: "r = join_all composite_of observed_key (observed_joins t) (by_side ds) n"
    using assms(1) by (auto simp: observed_links_def)
  show ?thesis
    using composite.join_all_spec [OF ds [unfolded exact_deduplicated_def] assms(2), of _ observed_key "observed_joins t"]
    by (simp only: r simp_thms)
qed

lemma foldE_validate_key: "foldE (\<lambda>_. validate_key) () kvs = Inr u \<longleftrightarrow> (\<forall>kv \<in> set kvs. fst kv \<in> set IDENTIFIERS \<and> snd kv \<noteq> [])"
  by (induction kvs) (auto simp: validate_key_def)

definition valid_observation :: "Topology \<Rightarrow> Observation \<Rightarrow> bool" where
  "valid_observation t x \<longleftrightarrow> o_point x \<in> p_name ` set (t_points t) \<and> o_side x \<in> {''inbound'', ''outbound''}
     \<and> (\<forall>kv \<in> set (o_keys x). fst kv \<in> set IDENTIFIERS \<and> snd kv \<noteq> [])"

lemma exact_validate_iff: "exact_validate (p_name ` set (t_points t)) x = Inr () \<longleftrightarrow> valid_observation t x"
  by (auto simp: exact_validate_def exact_SIDES_def foldE_validate_key valid_observation_def)

lemma foldE_validate_error: "foldE (\<lambda>_. validate_key) u kvs = Inl e \<Longrightarrow> \<exists>m. e = ValueError m"
  by (induction kvs arbitrary: u) (auto simp: validate_key_def bindE_eq_Inl)

lemma exact_dedup_error: "exact_deduplicated t obs = Inl e \<Longrightarrow> \<exists>m. e = ValueError m"
  unfolding exact_deduplicated_def dedup_def
  by (auto simp: bindE_eq_Inl dedup_step_def exact_validate_def dest!: foldE_Inl foldE_validate_error
      split: option.splits if_splits)

text \<open>
  C24 The exact path refuses an input, with a \<open>ValueError\<close>, exactly when an observation is
  invalid or one identity comes with two contents.
\<close>

theorem exact_links_accepts:
  "((\<exists>r. exact_links t obs = Inr r) \<longleftrightarrow> (\<forall>x \<in> set obs. valid_observation t x)
      \<and> (\<forall>x \<in> set obs. \<forall>y \<in> set obs. o_identity x = o_identity y \<longrightarrow> o_content x = o_content y))
    \<and> (exact_links t obs = Inl e \<longrightarrow> (\<exists>m. e = ValueError m))"
proof -
  have "(\<exists>r. exact_links t obs = Inr r) \<longleftrightarrow> (\<exists>r. exact_deduplicated t obs = Inr r)"
    by (auto simp: exact_links_def split_beta)
  also have "\<dots> \<longleftrightarrow> coherent (exact_validate (p_name ` set (t_points t))) o_identity o_content obs"
    unfolding exact_deduplicated_def by (rule dedup_accepts)
  also have "\<dots> \<longleftrightarrow> (\<forall>x \<in> set obs. valid_observation t x)
      \<and> (\<forall>x \<in> set obs. \<forall>y \<in> set obs. o_identity x = o_identity y \<longrightarrow> o_content x = o_content y)"
    unfolding coherent_def exact_validate_iff ..
  moreover have "exact_links t obs = Inl e \<longrightarrow> (\<exists>m. e = ValueError m)"
    using exact_dedup_error by (auto simp: exact_links_def bindE_eq_Inl split_beta)
  ultimately show ?thesis by blast
qed

end
