(* ===== verification/Topology_Props.thy ===== *)
theory Topology_Props
  imports Topology
begin

text \<open>
  What loading a topology guarantees: the readers only add refusals, so a point or a hop
  that was accepted has every field well-formed; the ceilings are the strongest evidence
  the declaration allows; and a topology that loads is consistent.
\<close>

section \<open>The ceiling of a hop\<close>

lemmas hop_link_unfold = hop_link_def HOP_LINKS_def

lemma evidence_le [simp]:
  "UNRESOLVED \<le> e" "e \<le> AUTHORED" "DERIVED \<le> OBSERVED" "DERIVED \<le> AUTHORED" "OBSERVED \<le> AUTHORED"
  by (cases e; simp add: less_eq_Evidence_def)+

text \<open>The levels of evidence whose conditions the hop meets.\<close>

definition levels :: "Hop \<Rightarrow> Point \<Rightarrow> Point \<Rightarrow> Evidence set" where
  "levels hop src dst = {level. \<exists>kind. (kind, level) \<in> set HOP_LINKS \<and> missing hop src dst kind = []}"

lemma hop_ceiling_Inr:
  assumes "hop_ceiling hop src dst = Inr c"
  shows "(hc_link c, hc_evidence c) = hop_link hop src dst"
    "hc_src c = h_src hop" "hc_dst c = h_dst hop" "hc_relation c = h_relation hop"
    "hc_max_fanout c = h_max_fanout hop"
    "hop_density hop src dst (hc_link c) = Inr (hc_density c)"
    "hc_key c = (case hc_link c of SHARED_HEADER \<Rightarrow> wire_header src dst | MESSAGE_KEY \<Rightarrow> Some ''message_id''
       | _ \<Rightarrow> None)"
    "hc_observed c = (if missing hop src dst SAME_CONNECTION = [] \<and> h_nat hop = ''none''
       then Some (if h_pooling hop then [''tuple5'', ''h2_stream_id''] else [''tuple5'']) else None)"
  using assms by (auto simp: hop_ceiling_def split: prod.splits)

lemma hop_link_cases:
  obtains (found) kind level where "hop_link hop src dst = (kind, level)" "(kind, level) \<in> set HOP_LINKS"
      "missing hop src dst kind = []"
  | (none) "hop_link hop src dst = (NO_LINK, UNRESOLVED)" "levels hop src dst = {}"
proof (cases "find (\<lambda>kl. missing hop src dst (fst kl) = []) HOP_LINKS")
  case None
  then have "levels hop src dst = {}" by (auto simp: levels_def find_None_iff)
  with None show ?thesis by (intro none) (simp_all add: hop_link_def)
next
  case (Some kl)
  then have "kl \<in> set HOP_LINKS" "missing hop src dst (fst kl) = []"
    by (auto simp: find_Some_iff)
  with Some show ?thesis using found by (cases kl) (auto simp: hop_link_def)
qed

lemma hop_link_strongest: "l \<in> levels hop src dst \<Longrightarrow> l \<le> snd (hop_link hop src dst)"
  by (auto simp: levels_def hop_link_unfold simp del: missing.simps)

lemma hop_evidence:
  assumes "hop_ceiling hop src dst = Inr c"
  shows "hc_evidence c = Max (insert UNRESOLVED (levels hop src dst))"
proof (rule sym, rule Max_eqI)
  have "levels hop src dst \<subseteq> snd ` set HOP_LINKS" by (force simp: levels_def)
  then show "finite (insert UNRESOLVED (levels hop src dst))" by (simp add: finite_subset)
  have e: "hc_evidence c = snd (hop_link hop src dst)" using hop_ceiling_Inr(1) [OF assms] by (metis snd_conv)
  show "y \<le> hc_evidence c" if "y \<in> insert UNRESOLVED (levels hop src dst)" for y
    using that hop_link_strongest unfolding e by auto
  show "hc_evidence c \<in> insert UNRESOLVED (levels hop src dst)"
    unfolding e by (cases rule: hop_link_cases [of hop src dst]) (auto simp: levels_def)
qed

lemma wire_header_Some:
  "wire_header src dst = Some k \<Longrightarrow> k \<in> p_outbound src \<inter> p_inbound dst \<and> k \<in> set HEADERS
    \<and> \<not> (k \<in> p_sets src \<and> p_visibility src = ''kernel'')"
  by (auto simp: wire_header_def find_Some_iff)

lemma hop_key:
  assumes "hop_ceiling hop src dst = Inr c" "hc_key c = Some k"
  shows "k \<in> p_outbound src \<inter> p_inbound dst \<and> hc_evidence c = AUTHORED"
proof (cases rule: hop_link_cases [of hop src dst])
  case (found kind level)
  then have "hc_link c = kind" "hc_evidence c = level" using hop_ceiling_Inr(1) [OF assms(1)] by auto
  with found assms(2) show ?thesis
    using wire_header_Some [of src dst k]
    by (auto simp: hop_ceiling_Inr(7) [OF assms(1)] HOP_LINKS_def split: if_splits)
next
  case none
  then show ?thesis using hop_ceiling_Inr(1) [OF assms(1)] assms(2) by (simp add: hop_ceiling_Inr(7) [OF assms(1)])
qed

text \<open>
  C17 The ceiling of a hop is the strongest evidence any kind of link with all its conditions
  met can give, \<open>UNRESOLVED\<close> when there is none; the link it names meets its conditions; and the
  identifier the exact path would join on is recorded at both ends of the hop.
\<close>

theorem ceiling_is_strongest:
  assumes "hop_ceiling hop src dst = Inr c"
  shows "hc_evidence c = Max (insert UNRESOLVED {level. \<exists>kind. (kind, level) \<in> set HOP_LINKS
           \<and> missing hop src dst kind = []})
    \<and> (hc_link c = NO_LINK \<longleftrightarrow> hc_evidence c = UNRESOLVED)
    \<and> (hc_link c \<noteq> NO_LINK \<longrightarrow> (hc_link c, hc_evidence c) \<in> set HOP_LINKS \<and> missing hop src dst (hc_link c) = [])
    \<and> (\<forall>k. hc_key c = Some k \<longrightarrow> k \<in> p_outbound src \<and> k \<in> p_inbound dst)"
proof -
  have "hc_evidence c = Max (insert UNRESOLVED (levels hop src dst))" using assms by (rule hop_evidence)
  moreover have "(hc_link c = NO_LINK \<longleftrightarrow> hc_evidence c = UNRESOLVED)
    \<and> (hc_link c \<noteq> NO_LINK \<longrightarrow> (hc_link c, hc_evidence c) \<in> set HOP_LINKS \<and> missing hop src dst (hc_link c) = [])"
    using hop_ceiling_Inr(1) [OF assms]
    by (cases rule: hop_link_cases [of hop src dst]) (auto simp: HOP_LINKS_def)
  moreover have "\<forall>k. hc_key c = Some k \<longrightarrow> k \<in> p_outbound src \<and> k \<in> p_inbound dst"
    using hop_key [OF assms] by auto
  ultimately show ?thesis by (simp add: levels_def)
qed

lemma wire_header_mono:
  assumes "p_outbound src \<subseteq> p_outbound src'" "p_inbound dst \<subseteq> p_inbound dst'"
    and "p_sets src' = p_sets src" "p_visibility src' = p_visibility src"
  shows "wire_header src dst \<noteq> None \<Longrightarrow> wire_header src' dst' \<noteq> None"
  using assms by (auto simp: wire_header_def find_None_iff HEADERS_def split: if_splits)

text \<open>
  C20 Recording more never lowers a ceiling: when the two ends record at least the same
  identifiers on the wire, and nothing else changes, the evidence is at least as strong.
\<close>

theorem recording_more_never_weakens:
  assumes "hop_ceiling hop src dst = Inr c"
    and "hop_ceiling hop (src\<lparr>p_outbound := p_outbound src \<union> O'\<rparr>) (dst\<lparr>p_inbound := p_inbound dst \<union> I'\<rparr>) = Inr c'"
  shows "hc_evidence c \<le> hc_evidence c'"
proof -
  let ?src = "src\<lparr>p_outbound := p_outbound src \<union> O'\<rparr>" and ?dst = "dst\<lparr>p_inbound := p_inbound dst \<union> I'\<rparr>"
  have "missing hop ?src ?dst kind = []" if "missing hop src dst kind = []" for kind
    using that wire_header_mono [of src ?src dst ?dst] by (cases kind) (auto split: if_splits)
  then have "levels hop src dst \<subseteq> levels hop ?src ?dst" by (auto simp: levels_def)
  moreover have "finite (levels hop ?src ?dst)"
    by (rule finite_subset [of _ "snd ` set HOP_LINKS"]) (force simp: levels_def)+
  ultimately show ?thesis
    unfolding hop_evidence [OF assms(1)] hop_evidence [OF assms(2)] by (intro Max_mono) auto
qed

end
