(* ===== verification/Topology_Load.thy ===== *)
theory Topology_Load
  imports Topology_Props
begin

text \<open>
  Loading: every reader only adds refusals, so what was accepted without a refusal is
  well-formed; the errors of the language \<open>load\<close> can still raise; and the consistency of a
  topology that loads.
\<close>

section \<open>The readers\<close>

lemma length_refuse [simp]: "length (refuse f r d rs) = Suc (length rs)"
  by (simp add: refuse_def)

lemma length_fold_refuse [simp]: "length (fold (\<lambda>x. refuse f r (d x)) xs rs) = length rs + length xs"
  by (induction xs arbitrary: rs) auto

lemma init_fields_spec:
  "init_fields table whr allowed rs = (f, rs') \<Longrightarrow> f_table f = table \<and> length rs \<le> length rs'"
  by (auto simp: init_fields_def Let_def)

lemma text_field_spec:
  "text_field f key required dflt rs = (v, rs') \<Longrightarrow> length rs \<le> length rs'
    \<and> (length rs' \<le> length rs \<longrightarrow> (v = dflt \<and> \<not> required) \<or> (\<exists>s. v = Some s))"
  by (auto simp: text_field_def split: option.splits pyval.splits if_splits)

lemma choice_field_spec:
  assumes "choice_field f key allowed required dflt rs = (v, rs')"
  shows "length rs \<le> length rs'
    \<and> (length rs' \<le> length rs \<longrightarrow> (v = dflt \<and> \<not> required) \<or> (\<exists>s. v = Some s \<and> (s \<in> set allowed \<or> v = dflt)))"
proof -
  obtain w rs1 where t: "text_field f key required dflt rs = (w, rs1)" by fastforce
  from text_field_spec [OF t] show ?thesis
    using assms by (auto simp: choice_field_def t split: if_splits option.splits)
qed

lemma flag_field_spec: "flag_field f key dflt rs = (v, rs') \<Longrightarrow> length rs \<le> length rs'"
  by (auto simp: flag_field_def split: option.splits pyval.splits)

lemma integer_field_spec:
  "integer_field f key m rs = (v, rs') \<Longrightarrow> length rs \<le> length rs' \<and> (\<forall>i. v = Some i \<longrightarrow> m \<le> i)
    \<and> (length rs' \<le> length rs \<longrightarrow> (v = None \<longleftrightarrow> map_of (f_table f) key = None))
    \<and> (\<forall>i. v = Some i \<longrightarrow> map_of (f_table f) key = Some (VInt i))"
  by (auto simp: integer_field_def split: option.splits pyval.splits if_splits)

lemma identifiers_field_spec:
  "identifiers_field f key allowed rs = (v, rs') \<Longrightarrow> length rs \<le> length rs' \<and> v \<subseteq> set allowed"
  by (auto simp: identifiers_field_def Let_def split: pyval.splits if_splits)

section \<open>Points\<close>

definition carried_ok :: "string \<times> string \<Rightarrow> bool" where
  "carried_ok kw \<longleftrightarrow> fst kw \<in> set CARRIED \<and> snd kw \<in> set PROPAGATORS"

definition point_ok :: "Point \<Rightarrow> bool" where
  "point_ok p \<longleftrightarrow> p_visibility p \<in> set VISIBILITY
     \<and> (p_visibility p \<noteq> ''none'' \<longrightarrow> p_clock p \<noteq> None \<and> (\<exists>ts. p_timestamps p = Some ts \<and> ts \<in> fst ` set PRECISION_NS))
     \<and> p_inbound p \<subseteq> set IDENTIFIERS \<and> p_outbound p \<subseteq> set IDENTIFIERS \<and> p_sets p \<subseteq> set CARRIED
     \<and> list_all carried_ok (p_propagates p)"

lemma parse_propagates_spec:
  assumes "parse_propagates f tbl ks carried rs = Inr (c, rs')" "list_all carried_ok carried"
  shows "length rs \<le> length rs' \<and> list_all carried_ok c"
  using assms
proof (induction ks arbitrary: carried rs)
  case (Cons k ks)
  note IH = Cons.IH [OF _ Cons.prems(2)]
  show ?case
  proof (cases "k \<in> set CARRIED")
    case False
    then obtain r d where "parse_propagates f tbl ks carried (refuse f r d rs) = Inr (c, rs')"
      using Cons.prems(1) by auto
    from IH [OF this] show ?thesis by simp
  next
    case True
    then obtain v where v: "map_of tbl k = Some v" "hashable v" using Cons.prems(1) by (auto split: option.splits if_splits)
    show ?thesis
    proof (cases "\<exists>who \<in> set PROPAGATORS. v = VStr who")
      case True
      then show ?thesis
        using Cons.prems v \<open>k \<in> set CARRIED\<close> Cons.IH [of "carried @ [(k, the (str_of v))]" rs]
        by (auto simp: carried_ok_def)
    next
      case False
      then obtain r d where "parse_propagates f tbl ks carried (refuse f r d rs) = Inr (c, rs')"
        using Cons.prems(1) v \<open>k \<in> set CARRIED\<close> by auto
      from IH [OF this] show ?thesis by simp
    qed
  qed
qed simp

text \<open>Values that cannot be tested for membership in a set.\<close>

definition bad_value :: "py_table \<Rightarrow> string \<Rightarrow> bool" where
  "bad_value t key \<longleftrightarrow> (\<exists>v. map_of t key = Some v \<and> \<not> hashable v)"

lemma parse_propagates_error:
  assumes "parse_propagates f tbl ks carried rs = Inl e" "set ks \<subseteq> fst ` set tbl"
  shows "e = TypeError \<and> (\<exists>k. bad_value tbl k)"
  using assms
proof (induction ks arbitrary: carried rs)
  case (Cons k ks)
  then have "map_of tbl k \<noteq> None" by (simp add: map_of_eq_None_iff)
  with Cons show ?case by (auto simp: bad_value_def split: if_splits)
qed simp

definition bad_point :: "py_table \<Rightarrow> bool" where
  "bad_point raw \<longleftrightarrow> (\<exists>t k. map_of raw ''propagates'' = Some (VTable t) \<and> bad_value t k)"

lemma parse_point_error: "parse_point name raw rs = Inl e \<Longrightarrow> e = TypeError \<and> bad_point raw"
  unfolding parse_point_def Let_def
  by (auto simp: bindE_eq_Inl bad_point_def split: prod.splits option.splits pyval.splits dest!: parse_propagates_error)

lemma parse_point_spec:
  assumes "parse_point name raw rs0 = Inr (po, rs')"
  shows "length rs0 \<le> length rs' \<and> (po = None \<longrightarrow> length rs0 < length rs')
    \<and> (\<forall>p. po = Some p \<longrightarrow> length rs' = length rs0 \<and> p_name p = name \<and> point_ok p)"
proof -
  obtain f rs1 where 1: "init_fields raw name POINT_FIELDS rs0 = (f, rs1)" by fastforce
  obtain host rs2 where 2: "text_field f ''host'' True None rs1 = (host, rs2)" by fastforce
  obtain vis rs3 where 3: "choice_field f ''visibility'' VISIBILITY True None rs2 = (vis, rs3)" by fastforce
  let ?timed = "vis \<noteq> None \<and> vis \<noteq> Some ''none''"
  obtain clock rs4 where 4: "text_field f ''clock'' ?timed None rs3 = (clock, rs4)" by fastforce
  obtain ts rs5 where 5: "choice_field f ''timestamps'' (map fst PRECISION_NS) ?timed None rs4 = (ts, rs5)" by fastforce
  obtain inb rs6 where 6: "identifiers_field f ''inbound'' IDENTIFIERS rs5 = (inb, rs6)" by fastforce
  obtain outb rs7 where 7: "identifiers_field f ''outbound'' IDENTIFIERS rs6 = (outb, rs7)" by fastforce
  obtain sets rs8 where 8: "identifiers_field f ''sets'' CARRIED rs7 = (sets, rs8)" by fastforce
  obtain trust rs9 where 9: "flag_field f ''trusts_incoming'' True rs8 = (trust, rs9)" by fastforce
  obtain props rs10 where 10: "(case map_of raw ''propagates'' of
              None \<Rightarrow> ([], rs9)
            | Some (VTable t) \<Rightarrow> (t, rs9)
            | Some _ \<Rightarrow> ([], refuse f INVALID_VALUE
                ''propagates must be a table: identifier = who copies it'' rs9)) = (props, rs10)" by fastforce
  then have ge: "length rs9 \<le> length rs10" by (auto split: option.splits pyval.splits)
  obtain carried where 11: "parse_propagates f props (sort (map fst props)) [] rs10 = Inr (carried, rs')"
    and po: "po = (if length rs' > length rs0 then None
           else Some \<lparr>p_name = name, p_host = the host, p_visibility = the vis, p_clock = clock,
             p_timestamps = ts, p_inbound = inb, p_outbound = outb,
             p_propagates = carried, p_sets = sets, p_trusts_incoming = trust\<rparr>)"
    using assms unfolding parse_point_def Let_def 1 2 3 4 5 6 7 8 9 10 prod.case by auto
  note specs = init_fields_spec [OF 1] text_field_spec [OF 2] choice_field_spec [OF 3] text_field_spec [OF 4]
    choice_field_spec [OF 5] identifiers_field_spec [OF 6] identifiers_field_spec [OF 7]
    identifiers_field_spec [OF 8] flag_field_spec [OF 9] ge parse_propagates_spec [OF 11]
  have ls: "length rs0 \<le> length rs'" using specs by simp
  have ok: "point_ok p \<and> p_name p = name" if "length rs' \<le> length rs0" "po = Some p" for p
  proof -
    have "\<exists>s. vis = Some s \<and> s \<in> set VISIBILITY" using specs that(1) by auto
    moreover have "?timed \<Longrightarrow> clock \<noteq> None" using specs that(1) by auto
    moreover have "?timed \<Longrightarrow> \<exists>s. ts = Some s \<and> s \<in> fst ` set PRECISION_NS" using specs that(1) by auto
    ultimately show ?thesis using that(2) specs by (auto simp: po point_ok_def split: if_splits)
  qed
  show ?thesis using ls ok po by (auto split: if_splits)
qed

section \<open>Hops\<close>

definition hop_ok :: "string set \<Rightarrow> Hop \<Rightarrow> bool" where
  "hop_ok known h \<longleftrightarrow> h_src h \<in> known \<and> h_dst h \<in> known \<and> h_src h \<noteq> h_dst h
     \<and> h_relation h \<in> set RELATIONS \<and> (h_relation h = ''fanout'' \<longleftrightarrow> h_max_fanout h \<noteq> None)
     \<and> (\<forall>n. h_max_fanout h = Some n \<longrightarrow> 1 \<le> n) \<and> (\<forall>n. h_rate h = Some n \<longrightarrow> 1 \<le> n)
     \<and> (\<forall>n. h_noise_us h = Some n \<longrightarrow> 0 \<le> n)"

lemma check_end_spec:
  "check_end f known key v rs = Inr rs' \<Longrightarrow> length rs \<le> length rs'
    \<and> (length rs' \<le> length rs \<longrightarrow> (\<exists>s \<in> known. v = Some (VStr s)))"
  by (auto simp: check_end_def split: option.splits if_splits)

lemma check_end_error:
  "check_end f known key v rs = Inl e \<Longrightarrow> e = TypeError \<and> (\<exists>x. v = Some x \<and> \<not> hashable x)"
  by (auto simp: check_end_def split: option.splits if_splits)

lemma parse_hop_error: "parse_hop raw known rs = Inl e \<Longrightarrow> e = TypeError \<and> (bad_value raw ''from'' \<or> bad_value raw ''to'')"
  unfolding parse_hop_def Let_def
  by (auto simp: bindE_eq_Inl bad_value_def split: prod.splits dest!: check_end_error)

lemma parse_hop_fields_spec:
  assumes "parse_hop_fields f raw src dst before rs0 = (ho, rs')" "f_table f = raw"
  shows "length rs0 \<le> length rs' \<and> (ho = None \<longleftrightarrow> before < length rs')
    \<and> (\<forall>h. ho = Some h \<longrightarrow> length rs' \<le> length rs0 \<longrightarrow>
        h_src h = the (str_of (the src)) \<and> h_dst h = the (str_of (the dst)) \<and> \<not> same_end src dst
        \<and> h_relation h \<in> set RELATIONS \<and> (h_relation h = ''fanout'' \<longleftrightarrow> h_max_fanout h \<noteq> None)
        \<and> (\<forall>n. h_max_fanout h = Some n \<longrightarrow> 1 \<le> n)
        \<and> (\<forall>n. h_rate h = Some n \<longrightarrow> 1 \<le> n \<and> map_of raw ''rate'' = Some (VInt n))
        \<and> (\<forall>n. h_noise_us h = Some n \<longrightarrow> 0 \<le> n \<and> map_of raw ''noise_us'' = Some (VInt n)))"
proof -
  define rs4 where 4: "rs4 = (if same_end src dst
     then refuse f INVALID_VALUE ''a hop joins two different points'' rs0 else rs0)"
  obtain rel rs5 where 5: "choice_field f ''relation'' RELATIONS False (Some ''call'') rs4 = (rel, rs5)" by fastforce
  obtain nat' rs6 where 6: "choice_field f ''nat'' NATS False (Some ''none'') rs5 = (nat', rs6)" by fastforce
  obtain nm rs7 where 7: "choice_field f ''nat_mapping'' NAT_MAPPINGS False (Some ''none'') rs6 = (nm, rs7)" by fastforce
  obtain pl rs8 where 8: "flag_field f ''pooling'' False rs7 = (pl, rs8)" by fastforce
  obtain rate rs9 where 9: "integer_field f ''rate'' 1 rs8 = (rate, rs9)" by fastforce
  obtain noise rs10 where 10: "integer_field f ''noise_us'' 0 rs9 = (noise, rs10)" by fastforce
  obtain ex rs11 where 11: "choice_field f ''expect'' (map evidence_name [UNRESOLVED, DERIVED, OBSERVED, AUTHORED])
      False None rs10 = (ex, rs11)" by fastforce
  obtain mf rs12 where 12: "integer_field f ''max_fanout'' 1 rs11 = (mf, rs12)" by fastforce
  define rs13 where 13: "rs13 = (if rel = Some ''fanout'' \<and> map_of raw ''max_fanout'' = None
     then refuse f FANOUT_UNBOUNDED ''a fanout hop needs max_fanout'' rs12 else rs12)"
  have rs': "rs' = (if rel \<noteq> Some ''fanout'' \<and> map_of raw ''max_fanout'' \<noteq> None
     then refuse f INVALID_VALUE ''max_fanout applies to a fanout hop only'' rs13 else rs13)"
    and ho: "ho = (if length rs' > before then None
           else Some \<lparr>h_src = the (str_of (the src)), h_dst = the (str_of (the dst)),
             h_relation = the rel, h_nat = the nat', h_nat_mapping = the nm,
             h_pooling = pl, h_rate = rate, h_noise_us = noise,
             h_expect = (case ex of None \<Rightarrow> None | Some e \<Rightarrow> evidence_of_name e),
             h_max_fanout = mf\<rparr>)"
    using assms(1) unfolding parse_hop_fields_def Let_def prod.case 4 [symmetric] 5 6 7 8 9 10 11 12 13 [symmetric]
    by auto
  have st: "length rs0 \<le> length rs4" "length rs12 \<le> length rs13" "length rs13 \<le> length rs'" by (auto simp: 4 13 rs')
  note lens = st conjunct1 [OF choice_field_spec [OF 5]] conjunct1 [OF choice_field_spec [OF 6]]
    conjunct1 [OF choice_field_spec [OF 7]] flag_field_spec [OF 8] conjunct1 [OF integer_field_spec [OF 9]]
    conjunct1 [OF integer_field_spec [OF 10]] conjunct1 [OF choice_field_spec [OF 11]]
    conjunct1 [OF integer_field_spec [OF 12]]
  have ls: "length rs0 \<le> length rs'" using lens by linarith
  have ok: "\<not> same_end src dst \<and> the rel \<in> set RELATIONS \<and> (the rel = ''fanout'' \<longleftrightarrow> mf \<noteq> None)"
    if le: "length rs' \<le> length rs0"
  proof -
    have eqs: "length rs4 = length rs0" "length rs13 = length rs12" "length rs' = length rs13"
      "length rs5 \<le> length rs4" "length rs12 \<le> length rs11" using lens le by linarith+
    then have "\<not> same_end src dst" and fan: "rel = Some ''fanout'' \<longleftrightarrow> map_of raw ''max_fanout'' \<noteq> None"
      by (auto simp: 4 13 rs' split: if_splits)
    moreover obtain r where "rel = Some r" "r \<in> set RELATIONS"
      using choice_field_spec [OF 5] eqs by (auto simp: RELATIONS_def)
    moreover have "mf = None \<longleftrightarrow> map_of raw ''max_fanout'' = None"
      using integer_field_spec [OF 12] eqs assms(2) by auto
    ultimately show ?thesis by auto
  qed
  have "mf = Some n \<Longrightarrow> 1 \<le> n" "rate = Some n \<Longrightarrow> 1 \<le> n \<and> map_of raw ''rate'' = Some (VInt n)"
    "noise = Some n \<Longrightarrow> 0 \<le> n \<and> map_of raw ''noise_us'' = Some (VInt n)" for n
    using integer_field_spec [OF 12] integer_field_spec [OF 9] integer_field_spec [OF 10] assms(2) by simp_all
  with ls ok show ?thesis by (simp add: ho)
qed

lemma parse_hop_spec:
  assumes "parse_hop raw known rs0 = Inr (ho, rs')"
  shows "length rs0 \<le> length rs' \<and> (ho = None \<longrightarrow> length rs0 < length rs')
    \<and> (\<forall>h. ho = Some h \<longrightarrow> length rs' = length rs0 \<and> hop_ok known h
        \<and> (\<forall>n. h_rate h = Some n \<longrightarrow> map_of raw ''rate'' = Some (VInt n))
        \<and> (\<forall>n. h_noise_us h = Some n \<longrightarrow> map_of raw ''noise_us'' = Some (VInt n)))"
proof -
  let ?src = "map_of raw ''from''" and ?dst = "map_of raw ''to''"
  obtain f rs1 where 1: "init_fields raw (end_text ?src @ '' -> '' @ end_text ?dst) HOP_FIELDS rs0 = (f, rs1)" by fastforce
  obtain rs2 rs3 where 2: "check_end f known ''from'' ?src rs1 = Inr rs2" "check_end f known ''to'' ?dst rs2 = Inr rs3"
    and 3: "parse_hop_fields f raw ?src ?dst (length rs0) rs3 = (ho, rs')"
    using assms unfolding parse_hop_def Let_def 1 prod.case by auto
  have t: "f_table f = raw" using init_fields_spec [OF 1] by simp
  note specs = init_fields_spec [OF 1] check_end_spec [OF 2(1)] check_end_spec [OF 2(2)]
  note fields = parse_hop_fields_spec [OF 3 t]
  have ls: "length rs0 \<le> length rs'" using specs fields by linarith
  show ?thesis
  proof (cases ho)
    case None
    then show ?thesis using ls fields by simp
  next
    case (Some h)
    then have le: "length rs' \<le> length rs0" using fields by auto
    then obtain s d where sd: "?src = Some (VStr s)" "?dst = Some (VStr d)" "s \<in> known" "d \<in> known"
      using specs fields by (meson dual_order.trans)
    have "length rs' \<le> length rs3" using le specs by linarith
    then show ?thesis
      using fields sd Some ls le by (simp add: hop_ok_def same_end_def)
  qed
qed

section \<open>The whole declaration\<close>

definition points_inv :: "nat \<Rightarrow> string list \<Rightarrow> (string \<times> Point) list \<times> Refusal list \<Rightarrow> bool" where
  "points_inv n names st \<longleftrightarrow> n \<le> length (snd st) \<and> distinct (map fst (fst st))
     \<and> (\<forall>(k, p) \<in> set (fst st). p_name p = k \<and> point_ok p)
     \<and> (length (snd st) \<le> n \<longrightarrow> fst ` set (fst st) = set names)"

lemma set_dict_put_subset: "set (dict_put k v d) \<subseteq> insert (k, v) (set d)"
  by (induction d) (auto split: if_splits)

lemma parse_points_step_inv:
  assumes "points_inv n names st" "parse_points_step raw st name = Inr st'"
  shows "points_inv n (names @ [name]) st'"
proof -
  obtain points rs where st: "st = (points, rs)" by fastforce
  consider (bad) "st' = (points, rs @ [refusal INVALID_VALUE name ''a point must be a table''])"
    | (tab) t po rs' where "parse_point name t rs = Inr (po, rs')"
        "st' = (case po of None \<Rightarrow> points | Some p \<Rightarrow> dict_put name p points, rs')"
    using assms(2) by (auto simp: parse_points_step_def st split: option.splits pyval.splits)
  then show ?thesis
  proof cases
    case bad
    then show ?thesis using assms(1) by (auto simp: points_inv_def st)
  next
    case (tab t po rs')
    then show ?thesis
      using assms(1) parse_point_spec [OF tab(1)] set_dict_put_subset [of name "the po" points]
      by (cases po) (auto simp: points_inv_def st)
  qed
qed

lemma parse_points_inv:
  assumes "foldE (parse_points_step raw) ([], rs) names = Inr st"
  shows "points_inv (length rs) names st"
proof -
  have "foldE (parse_points_step raw) st0 xs = Inr st1 \<Longrightarrow> points_inv n ys st0 \<Longrightarrow> points_inv n (ys @ xs) st1"
    for st0 st1 n xs ys
  proof (induction xs arbitrary: st0 ys)
    case (Cons x xs)
    then obtain st2 where 2: "parse_points_step raw st0 x = Inr st2" "foldE (parse_points_step raw) st2 xs = Inr st1"
      by auto
    from Cons.IH [OF 2(2) parse_points_step_inv [OF Cons.prems(2) 2(1)]] show ?case by simp
  qed simp
  from this [OF assms, of "length rs" "[]"] show ?thesis by (simp add: points_inv_def)
qed

definition from_table :: "pyval list \<Rightarrow> Hop \<Rightarrow> bool" where
  "from_table raws h \<longleftrightarrow> (\<exists>t. VTable t \<in> set raws
     \<and> (\<forall>n. h_rate h = Some n \<longrightarrow> map_of t ''rate'' = Some (VInt n))
     \<and> (\<forall>n. h_noise_us h = Some n \<longrightarrow> map_of t ''noise_us'' = Some (VInt n)))"

definition hops_inv :: "nat \<Rightarrow> string set \<Rightarrow> pyval list \<Rightarrow> Hop list \<times> Refusal list \<Rightarrow> bool" where
  "hops_inv n known raws st \<longleftrightarrow> n \<le> length (snd st)
     \<and> distinct (map (\<lambda>h. (h_src h, h_dst h)) (fst st))
     \<and> (\<forall>h \<in> set (fst st). hop_ok known h \<and> from_table raws h)"

lemma parse_hops_inv:
  assumes "foldE (parse_hops_step f known) ([], rs) raws = Inr st"
  shows "hops_inv (length rs) known raws st"
proof (rule foldE_invariant [OF assms])
  show "hops_inv (length rs) known raws ([], rs)" by (simp add: hops_inv_def)
next
  fix s x s'
  assume x: "x \<in> set raws" and s: "hops_inv (length rs) known raws s" and step: "parse_hops_step f known s x = Inr s'"
  obtain hops rs1 where st: "s = (hops, rs1)" by fastforce
  consider (bad) r d where "s' = (hops, refuse f r d rs1)"
    | (tab) t ho rs' where "x = VTable t" "parse_hop t known rs1 = Inr (ho, rs')"
        "s' = (case ho of None \<Rightarrow> (hops, rs') | Some h \<Rightarrow>
           if (h_src h, h_dst h) \<in> set (map (\<lambda>x. (h_src x, h_dst x)) hops)
           then (hops, rs' @ [refusal DUPLICATE_HOP (arrow (h_src h) (h_dst h)) ''declared twice''])
           else (hops @ [h], rs'))"
    using step by (auto simp: parse_hops_step_def st split: pyval.splits)
  then show "hops_inv (length rs) known raws s'"
  proof cases
    case (tab t ho rs')
    then show ?thesis
      using s x parse_hop_spec [OF tab(2)]
      by (cases ho) (auto simp: hops_inv_def st from_table_def)
  qed (use s in \<open>auto simp: hops_inv_def st\<close>)
qed

definition declared_hops :: "py_table \<Rightarrow> pyval list" where
  "declared_hops d = (case map_of d ''hops'' of Some (VList vs) \<Rightarrow> vs | _ \<Rightarrow> [])"

definition declared_points :: "py_table \<Rightarrow> py_table" where
  "declared_points d = (case map_of d ''points'' of Some (VTable t) \<Rightarrow> t | _ \<Rightarrow> [])"

lemma raw_points_of_spec:
  "raw_points_of f d rs = (t, rs') \<Longrightarrow> t = declared_points d \<and> length rs \<le> length rs'"
  by (auto simp: raw_points_of_def declared_points_def split: option.splits pyval.splits list.splits)

lemma raw_hops_of_spec: "raw_hops_of f d rs = (vs, rs') \<Longrightarrow> vs = declared_hops d \<and> length rs \<le> length rs'"
  by (auto simp: raw_hops_of_def declared_hops_def split: option.splits pyval.splits)

lemma parse_spec:
  assumes "parse d rs0 = Inr (points, hops, rs)"
  shows "length rs0 \<le> length rs" "distinct (map fst points)"
    "(k, p) \<in> set points \<Longrightarrow> p_name p = k \<and> point_ok p"
    "length rs \<le> length rs0 \<Longrightarrow> fst ` set points = fst ` set (declared_points d)"
    "distinct (map (\<lambda>h. (h_src h, h_dst h)) hops)"
    "h \<in> set hops \<Longrightarrow> hop_ok (fst ` set (declared_points d)) h \<and> from_table (declared_hops d) h"
proof -
  obtain f rs1 where 1: "init_fields d [] [''points'', ''hops''] rs0 = (f, rs1)" by fastforce
  obtain raw rs2 where 2: "raw_points_of f d rs1 = (raw, rs2)" by fastforce
  obtain points' rs3 where 3: "foldE (parse_points_step raw) ([], rs2) (sort (map fst raw)) = Inr (points', rs3)"
    using assms unfolding parse_def Let_def 1 2 prod.case by auto
  obtain vs rs4 where 4: "raw_hops_of f d rs3 = (vs, rs4)" by fastforce
  have 5: "foldE (parse_hops_step f (set (map fst raw))) ([], rs4) vs = Inr (hops, rs)" "points' = points"
    using assms unfolding parse_def Let_def 1 2 prod.case 3 bindE_simps 4 by auto
  have raw: "raw = declared_points d" "length rs1 \<le> length rs2" using raw_points_of_spec [OF 2] by auto
  have vs: "vs = declared_hops d" "length rs3 \<le> length rs4" using raw_hops_of_spec [OF 4] by auto
  note P = parse_points_inv [OF 3 [unfolded 5(2)], unfolded points_inv_def fst_conv snd_conv]
  note H = parse_hops_inv [OF 5(1), unfolded hops_inv_def fst_conv snd_conv]
  show "length rs0 \<le> length rs" using init_fields_spec [OF 1] raw(2) vs(2) P H by linarith
  show "distinct (map fst points)" "distinct (map (\<lambda>h. (h_src h, h_dst h)) hops)" using P H by auto
  show "(k, p) \<in> set points \<Longrightarrow> p_name p = k \<and> point_ok p" using P by auto
  show "h \<in> set hops \<Longrightarrow> hop_ok (fst ` set (declared_points d)) h \<and> from_table (declared_hops d) h"
    using H raw(1) vs(1) by auto
  show "fst ` set points = fst ` set (declared_points d)" if "length rs \<le> length rs0"
  proof -
    have "length rs3 \<le> length rs2" using that init_fields_spec [OF 1] raw(2) vs(2) H by linarith
    then have "fst ` set points = set (sort (map fst raw))" using P by blast
    then show ?thesis by (simp add: raw(1))
  qed
qed

end
