(* ===== verification/Topology_Consistent.thy ===== *)
theory Topology_Consistent
  imports Topology_Load
begin

text \<open>
  The outcome of \<open>load\<close>: which errors of the language it can raise, what it refuses, and
  what every topology it returns satisfies.
\<close>

section \<open>Errors of the language\<close>

definition bad_declaration :: "py_table \<Rightarrow> bool" where
  "bad_declaration d \<longleftrightarrow>
     (\<exists>name t. map_of (declared_points d) name = Some (VTable t) \<and> bad_point t)
     \<or> (\<exists>t. VTable t \<in> set (declared_hops d) \<and> (bad_value t ''from'' \<or> bad_value t ''to''))"

text \<open>A rate beyond every float: at least \<open>2\<^sup>1\<^sup>0\<^sup>2\<^sup>3\<close> requests within one timing window.\<close>

definition float_limit :: rat where "float_limit = 2 ^ 1023"

definition noise_of :: "py_table \<Rightarrow> int" where
  "noise_of t = (case map_of t ''noise_us'' of Some (VInt n) \<Rightarrow> n | _ \<Rightarrow> 0)"

definition huge_rate :: "py_table \<Rightarrow> bool" where
  "huge_rate d \<longleftrightarrow> (\<exists>t r. VTable t \<in> set (declared_hops d) \<and> map_of t ''rate'' = Some (VInt r)
     \<and> float_limit \<le> of_int (r * max (1000000000) (1000 * noise_of t)) / 1000000000)"

lemma parse_error:
  assumes "parse d rs0 = Inl e"
  shows "e = TypeError \<and> bad_declaration d"
proof -
  obtain f rs1 where 1: "init_fields d [] [''points'', ''hops''] rs0 = (f, rs1)" by fastforce
  obtain raw rs2 where 2: "raw_points_of f d rs1 = (raw, rs2)" by fastforce
  have raw: "raw = declared_points d" using raw_points_of_spec [OF 2] by simp
  show ?thesis
  proof (cases "foldE (parse_points_step raw) ([], rs2) (sort (map fst raw))")
    case (Inl e')
    then have "e' = e" using assms unfolding parse_def Let_def 1 2 prod.case by simp
    from foldE_Inl [OF Inl] obtain s x where x: "x \<in> fst ` set raw" "parse_points_step raw s x = Inl e'" by auto
    then have "map_of raw x \<noteq> None" by (simp add: map_of_eq_None_iff)
    with x(2) obtain t rs where "map_of raw x = Some (VTable t)" "parse_point x t rs = Inl e'"
      by (auto simp: parse_points_step_def bindE_eq_Inl split: prod.splits option.splits pyval.splits)
    with parse_point_error [of x t rs e'] show ?thesis
      using \<open>e' = e\<close> raw unfolding bad_declaration_def by blast
  next
    case (Inr b)
    obtain points rs3 where b: "b = (points, rs3)" by fastforce
    obtain vs rs4 where 4: "raw_hops_of f d rs3 = (vs, rs4)" by fastforce
    have vs: "vs = declared_hops d" using raw_hops_of_spec [OF 4] by simp
    have "foldE (parse_hops_step f (set (map fst raw))) ([], rs4) vs = Inl e"
      using assms unfolding parse_def Let_def 1 2 prod.case Inr b bindE_simps 4
      by (auto simp: bindE_eq_Inl split: prod.splits)
    from foldE_Inl [OF this] obtain s x where x: "x \<in> set vs" "parse_hops_step f (set (map fst raw)) s x = Inl e" by blast
    then obtain t known rs where "x = VTable t" "parse_hop t known rs = Inl e"
      by (auto simp: parse_hops_step_def bindE_eq_Inl split: prod.splits option.splits pyval.splits)
    with x(1) parse_hop_error [of t known rs e] show ?thesis unfolding bad_declaration_def vs by blast
  qed
qed

lemma precision_of_total: "ts \<in> fst ` set PRECISION_NS \<Longrightarrow> \<exists>n. precision_of (Some ts) = Inr n \<and> 1000 \<le> n \<and> n \<le> 1000000000"
  by (auto simp: precision_of_def PRECISION_NS_def dict_getE_def)

lemma hop_ceiling_total:
  assumes "point_ok src" "point_ok dst"
  shows "\<exists>c. hop_ceiling hop src dst = Inr c \<and> (\<forall>x. hc_density c = Some x \<longrightarrow> (\<exists>r. h_rate hop = Some r
    \<and> (1 \<le> r \<longrightarrow> x \<le> of_int (r * max (1000000000) (1000 * (case h_noise_us hop of None \<Rightarrow> 0 | Some n \<Rightarrow> n))) / 1000000000)))"
proof (cases "\<exists>r. h_rate hop = Some r \<and> fst (hop_link hop src dst) = NESTED_TIMING")
  case False
  then have "hop_density hop src dst (fst (hop_link hop src dst)) = Inr None"
    by (auto simp: hop_density_def split: option.splits)
  then obtain c where "hop_ceiling hop src dst = Inr c" "hc_density c = None"
    by (auto simp: hop_ceiling_def split_beta)
  then show ?thesis by (intro exI [of _ c]) simp
next
  case True
  then obtain r where r: "h_rate hop = Some r" "fst (hop_link hop src dst) = NESTED_TIMING" by blast
  have "missing hop src dst NESTED_TIMING = []"
    using r(2) by (cases rule: hop_link_cases [of hop src dst]) auto
  then have "p_visibility src \<noteq> ''none''" "p_visibility dst \<noteq> ''none''" by (auto split: if_splits)
  then obtain t1 t2 where "p_timestamps src = Some t1" "t1 \<in> fst ` set PRECISION_NS"
    "p_timestamps dst = Some t2" "t2 \<in> fst ` set PRECISION_NS"
    using assms unfolding point_ok_def by blast
  then obtain a b where ab: "precision_of (p_timestamps src) = Inr a" "precision_of (p_timestamps dst) = Inr b"
    "a \<le> 1000000000" "b \<le> 1000000000"
    using precision_of_total [of t1] precision_of_total [of t2] by auto
  let ?n = "case h_noise_us hop of None \<Rightarrow> 0 | Some n \<Rightarrow> n"
  define w where "w = max_of [a, b, 1000 * ?n]"
  have "w \<le> max 1000000000 (1000 * ?n)" unfolding w_def using ab by (simp only: max_of.simps max.bounded_iff) linarith
  then have "r * w \<le> r * max 1000000000 (1000 * ?n)" if "1 \<le> r" using that by (intro mult_left_mono) auto
  then have "(of_int (r * w) :: rat) \<le> of_int (r * max 1000000000 (1000 * ?n))" if "1 \<le> r"
    using that by (intro of_int_le_iff [THEN iffD2])
  then have le: "(of_int (r * w) :: rat) / 1000000000 \<le> of_int (r * max 1000000000 (1000 * ?n)) / 1000000000" if "1 \<le> r"
    using that by (intro divide_right_mono) auto
  obtain l where "hop_link hop src dst = (NESTED_TIMING, l)" using r(2) by (cases "hop_link hop src dst") auto
  then obtain c where "hop_ceiling hop src dst = Inr c" "hc_density c = Some (of_int (r * w) / 1000000000)"
    using r(1) ab by (auto simp: hop_ceiling_def hop_density_def w_def Let_def)
  moreover from this(2) have "\<forall>x. hc_density c = Some x \<longrightarrow> (\<exists>r. h_rate hop = Some r
      \<and> (1 \<le> r \<longrightarrow> x \<le> of_int (r * max 1000000000 (1000 * ?n)) / 1000000000))"
    using r(1) le by (metis option.inject)
  ultimately show ?thesis by blast
qed

lemma log_steps_lower: "1 \<le> x \<Longrightarrow> 1 < b \<Longrightarrow> b ^ log_steps n b x \<le> x"
proof (induction n arbitrary: x)
  case (Suc n)
  show ?case
  proof (cases "x < b")
    case False
    then have "1 \<le> x / b" using Suc.prems by simp
    from Suc.IH [OF this Suc.prems(2)] show ?thesis using False Suc.prems by (simp add: field_simps)
  qed (use Suc.prems in simp)
qed simp

lemma round_even_upper: "of_int (round_even x) \<le> x + 1 / 2"
  unfolding round_even_def Let_def by (auto simp: of_int_floor_le) linarith+

lemma to_double_None: "to_double x = None \<Longrightarrow> 1 \<le> x \<Longrightarrow> float_limit \<le> x"
proof -
  assume none: "to_double x = None" and ge: "1 \<le> x"
  show ?thesis
  proof (cases "2 ^ 1024 \<le> x")
    case True
    have "float_limit \<le> 2 ^ 1024" unfolding float_limit_def by (intro power_increasing) auto
    then show ?thesis using True by (rule order_trans)
  next
    case False
    define p :: rat where "p = 2 ^ log_steps 1024 2 x"
    have p: "0 < p" "p \<le> x" using log_steps_lower [OF ge, of 2 1024] by (simp_all add: p_def)
    let ?u = "p / 2 ^ 52"
    have "2 ^ 1024 \<le> of_int (round_even (x / ?u)) * ?u"
      using none False by (simp add: to_double_def Let_def p_def split: if_splits)
    also have "\<dots> \<le> (x / ?u + 1 / 2) * ?u"
      using round_even_upper [of "x / ?u"] p by (intro mult_right_mono) auto
    also have "\<dots> = x + ?u / 2" using p by (simp add: field_simps)
    also have "\<dots> \<le> x + x" using p by simp
    finally have "2 * float_limit \<le> 2 * x" unfolding float_limit_def by simp
    then show ?thesis by (simp only: mult_le_cancel_left_pos zero_less_numeral)
  qed
qed

lemma check_density_error: "check_density w dn = Inl e \<Longrightarrow> e = OverflowError \<and> (\<exists>x. dn = Some x \<and> float_limit \<le> x)"
  by (auto simp: check_density_def D_MAX_def split: option.splits if_splits intro: to_double_None)

lemma check_density_nil: "check_density w dn = Inr [] \<Longrightarrow> dn = Some x \<Longrightarrow> x \<le> 1"
  by (auto simp: check_density_def D_MAX_def split: option.splits if_splits)

section \<open>Ceilings and refusals\<close>

text \<open>What the loop over the hops has established for the hops it has passed.\<close>

definition ends :: "(string \<times> Point) list \<Rightarrow> Hop \<Rightarrow> Point \<Rightarrow> Point \<Rightarrow> bool" where
  "ends points h src dst \<longleftrightarrow> map_of points (h_src h) = Some src \<and> map_of points (h_dst h) = Some dst"

definition ceilings_inv :: "(string \<times> Point) list \<Rightarrow> Refusal list \<Rightarrow> Hop list \<Rightarrow> HopCeiling list \<times> Refusal list \<Rightarrow> bool" where
  "ceilings_inv points rs0 done st \<longleftrightarrow> set rs0 \<subseteq> set (snd st)
     \<and> map (\<lambda>c. (hc_src c, hc_dst c)) (fst st)
       = map (\<lambda>h. (h_src h, h_dst h)) (filter (\<lambda>h. \<exists>src dst. ends points h src dst) done)
     \<and> (\<forall>c \<in> set (fst st). \<exists>h \<in> set done. \<exists>src dst. ends points h src dst \<and> hop_ceiling h src dst = Inr c
         \<and> (\<exists>ds. check_density (arrow (h_src h) (h_dst h)) (hc_density c) = Inr ds \<and> set ds \<subseteq> set (snd st)))
     \<and> (\<forall>h \<in> set done. \<forall>src dst. ends points h src dst \<longrightarrow>
         (\<exists>c \<in> set (fst st). hop_ceiling h src dst = Inr c \<and> set (check_expect h c src dst) \<subseteq> set (snd st)))"

lemma hop_step_inv:
  assumes "ceilings_inv points rs0 done st" "hop_step points st hop = Inr st'"
  shows "ceilings_inv points rs0 (done @ [hop]) st'"
proof (cases "\<exists>src dst. ends points hop src dst")
  case False
  then have "st' = st" using assms(2) by (auto simp: hop_step_def ends_def split: option.splits)
  with False show ?thesis using assms(1) by (auto simp: ceilings_inv_def)
next
  case True
  then obtain src dst where e: "ends points hop src dst" by blast
  then obtain c ds where c: "hop_ceiling hop src dst = Inr c"
    "check_density (arrow (h_src hop) (h_dst hop)) (hc_density c) = Inr ds"
    and st': "st' = (fst st @ [c], snd st @ ds @ check_expect hop c src dst)"
    using assms(2) by (auto simp: hop_step_def ends_def check_hop_rules_def)
  have u: "ends points hop src' dst' \<Longrightarrow> src' = src \<and> dst' = dst" for src' dst' using e by (auto simp: ends_def)
  have "\<forall>c' \<in> set (fst st'). \<exists>h \<in> set (done @ [hop]). \<exists>src dst. ends points h src dst \<and> hop_ceiling h src dst = Inr c'
         \<and> (\<exists>ds. check_density (arrow (h_src h) (h_dst h)) (hc_density c') = Inr ds \<and> set ds \<subseteq> set (snd st'))"
  proof
    fix c' assume "c' \<in> set (fst st')"
    then consider "c' = c" | "c' \<in> set (fst st)" by (auto simp: st')
    then show "\<exists>h \<in> set (done @ [hop]). \<exists>src dst. ends points h src dst \<and> hop_ceiling h src dst = Inr c'
         \<and> (\<exists>ds. check_density (arrow (h_src h) (h_dst h)) (hc_density c') = Inr ds \<and> set ds \<subseteq> set (snd st'))"
    proof cases
      case 1
      then show ?thesis using e c by (intro bexI [of _ hop]) (auto simp: st')
    next
      case 2
      with assms(1) obtain h src dst ds' where "h \<in> set done" "ends points h src dst" "hop_ceiling h src dst = Inr c'"
        "check_density (arrow (h_src h) (h_dst h)) (hc_density c') = Inr ds'" "set ds' \<subseteq> set (snd st)"
        unfolding ceilings_inv_def by meson
      then show ?thesis by (intro bexI [of _ h]) (auto simp: st')
    qed
  qed
  moreover have "\<forall>h \<in> set (done @ [hop]). \<forall>src dst. ends points h src dst \<longrightarrow>
         (\<exists>c \<in> set (fst st'). hop_ceiling h src dst = Inr c \<and> set (check_expect h c src dst) \<subseteq> set (snd st'))"
    using assms(1) c(1) u by (fastforce simp: ceilings_inv_def st')
  moreover have "hc_src c = h_src hop" "hc_dst c = h_dst hop" using hop_ceiling_Inr [OF c(1)] by auto
  ultimately show ?thesis
    using assms(1) e unfolding ceilings_inv_def by (auto simp: st')
qed

lemma hop_steps_inv:
  assumes "foldE (hop_step points) ([], rs) hops = Inr st"
  shows "ceilings_inv points rs hops st"
proof -
  have "foldE (hop_step points) st0 xs = Inr st1 \<Longrightarrow> ceilings_inv points rs ys st0 \<Longrightarrow> ceilings_inv points rs (ys @ xs) st1"
    for st0 st1 xs ys
  proof (induction xs arbitrary: st0 ys)
    case (Cons x xs)
    then obtain st2 where 2: "hop_step points st0 x = Inr st2" "foldE (hop_step points) st2 xs = Inr st1" by auto
    from Cons.IH [OF 2(2) hop_step_inv [OF Cons.prems(2) 2(1)]] show ?case by simp
  qed simp
  from this [OF assms, of "[]"] show ?thesis by (simp add: ceilings_inv_def)
qed

lemma hop_step_error:
  assumes "hop_step points st h = Inl e" "\<And>k p. (k, p) \<in> set points \<Longrightarrow> point_ok p" "hop_ok known h"
    and "from_table raws h"
  shows "e = OverflowError \<and> (\<exists>t r. VTable t \<in> set raws \<and> map_of t ''rate'' = Some (VInt r)
     \<and> float_limit \<le> of_int (r * max (1000000000) (1000 * noise_of t)) / 1000000000)"
proof -
  obtain src dst where e: "map_of points (h_src h) = Some src" "map_of points (h_dst h) = Some dst"
    using assms(1) by (auto simp: hop_step_def split: option.splits)
  then have "point_ok src" "point_ok dst" using assms(2) map_of_SomeD by fast+
  from hop_ceiling_total [OF this, of h] obtain c where c: "hop_ceiling h src dst = Inr c"
    and d: "\<And>x. hc_density c = Some x \<Longrightarrow> \<exists>r. h_rate h = Some r
    \<and> (1 \<le> r \<longrightarrow> x \<le> of_int (r * max (1000000000) (1000 * (case h_noise_us h of None \<Rightarrow> 0 | Some n \<Rightarrow> n))) / 1000000000)"
    by blast
  have "check_density (arrow (h_src h) (h_dst h)) (hc_density c) = Inl e"
    using assms(1) e c by (auto simp: hop_step_def check_hop_rules_def bindE_eq_Inl)
  from check_density_error [OF this] obtain x where x: "e = OverflowError" "hc_density c = Some x" "float_limit \<le> x" by blast
  from d [OF x(2)] obtain r where r: "h_rate h = Some r"
    "x \<le> of_int (r * max (1000000000) (1000 * (case h_noise_us h of None \<Rightarrow> 0 | Some n \<Rightarrow> n))) / 1000000000"
    "1 \<le> r" using assms(3) by (auto simp: hop_ok_def)
  obtain t where t: "VTable t \<in> set raws" "map_of t ''rate'' = Some (VInt r)"
    "\<And>n. h_noise_us h = Some n \<Longrightarrow> map_of t ''noise_us'' = Some (VInt n)"
    using assms(4) r(1) by (auto simp: from_table_def)
  let ?n = "case h_noise_us h of None \<Rightarrow> 0 | Some n \<Rightarrow> n"
  have "r * max (1000000000) (1000 * ?n) \<le> r * max (1000000000) (1000 * noise_of t)"
  proof (cases "h_noise_us h")
    case None
    have "max (1000000000) (1000 * 0) \<le> max (1000000000) (1000 * noise_of t)" by simp
    with None r(3) show ?thesis by (simp add: mult_left_mono)
  next
    case (Some n)
    then show ?thesis using t(3) by (simp add: noise_of_def)
  qed
  then have "(of_int (r * max (1000000000) (1000 * ?n)) :: rat) \<le> of_int (r * max (1000000000) (1000 * noise_of t))"
    by (rule of_int_le_iff [THEN iffD2])
  then have "(of_int (r * max (1000000000) (1000 * ?n)) :: rat) / 1000000000 \<le> of_int (r * max (1000000000) (1000 * noise_of t)) / 1000000000"
    by (intro divide_right_mono) auto
  with x(3) r(2) have "float_limit \<le> of_int (r * max (1000000000) (1000 * noise_of t)) / 1000000000"
    by (blast intro: order_trans)
  then show ?thesis using x(1) t by blast
qed

section \<open>The outcome of \<open>load\<close>\<close>

lemma fold_check_point_rules: "set rs \<subseteq> set (fold check_point_rules ps rs)
    \<and> (\<forall>p \<in> set ps. set (check_point_rules p []) \<subseteq> set (fold check_point_rules ps rs))"
proof (induction ps arbitrary: rs)
  case (Cons p ps)
  have "set rs \<subseteq> set (check_point_rules p rs) \<and> set (check_point_rules p []) \<subseteq> set (check_point_rules p rs)"
    by (auto simp: check_point_rules_def)
  with Cons.IH [of "check_point_rules p rs"] show ?case by auto
qed simp

lemma load_parts_spec:
  assumes "load_parts d = Inr (points, hops, ceilings, rs)"
  shows "\<exists>rs0 rs1. parse d [] = Inr (points, hops, rs0) \<and> set rs0 \<subseteq> set rs1 \<and> set rs1 \<subseteq> set rs
    \<and> (\<forall>p \<in> snd ` set points. set (check_point_rules p []) \<subseteq> set rs1) \<and> ceilings_inv points rs1 hops (ceilings, rs)"
proof -
  obtain rs0 where p: "parse d [] = Inr (points, hops, rs0)"
    and f: "foldE (hop_step points) ([], fold check_point_rules (map snd points) rs0) hops = Inr (ceilings, rs)"
    using assms by (auto simp: load_parts_def split: prod.splits)
  from hop_steps_inv [OF f] have "ceilings_inv points (fold check_point_rules (map snd points) rs0) hops (ceilings, rs)" .
  with p show ?thesis
    using fold_check_point_rules [of rs0 "map snd points"] by (auto simp: ceilings_inv_def)
qed

lemma load_parts_error:
  assumes "load_parts d = Inl e"
  shows "(e = TypeError \<and> bad_declaration d) \<or> (e = OverflowError \<and> huge_rate d)"
proof (cases "parse d []")
  case (Inl e')
  then show ?thesis using assms parse_error [of d "[]"] by (simp add: load_parts_def)
next
  case (Inr r)
  then obtain points hops rs where p: "parse d [] = Inr (points, hops, rs)" by (cases r) auto
  have "foldE (hop_step points) ([], fold check_point_rules (map snd points) rs) hops = Inl e"
    using assms p by (auto simp: load_parts_def bindE_eq_Inl split: prod.splits)
  from foldE_Inl [OF this] obtain st h where h: "h \<in> set hops" "hop_step points st h = Inl e" by blast
  have "e = OverflowError \<and> (\<exists>t r. VTable t \<in> set (declared_hops d) \<and> map_of t ''rate'' = Some (VInt r)
     \<and> float_limit \<le> of_int (r * max (1000000000) (1000 * noise_of t)) / 1000000000)"
    using parse_spec(3,6) [OF p] h(1) by (intro hop_step_error [OF h(2)]) auto
  then show ?thesis by (auto simp: huge_rate_def)
qed

text \<open>The points of the hops of a declaration that was accepted are all declared.\<close>

lemma accepted_hops_declared:
  assumes "parse d [] = Inr (points, hops, [])" "h \<in> set hops"
  shows "h_src h \<in> fst ` set points" "h_dst h \<in> fst ` set points" "h_src h \<noteq> h_dst h"
proof -
  have "hop_ok (fst ` set points) h"
    using parse_spec(4,6) [OF assms(1)] assms(2) by simp
  then show "h_src h \<in> fst ` set points" "h_dst h \<in> fst ` set points" "h_src h \<noteq> h_dst h"
    by (simp_all add: hop_ok_def)
qed

lemma mapE_dict_getE: "set ks \<subseteq> fst ` set d \<Longrightarrow> mapE (dict_getE d) ks = Inr (map (\<lambda>k. the (map_of d k)) ks)"
  by (rule mapE_total) (auto simp: dict_getE_def map_of_eq_None_iff split: option.splits)

lemma load_cases:
  obtains (raised) e where "load d = Inl (Raised e)" "load_parts d = Inl e"
  | (refused) points hops ceilings rs where "load d = Inl (topology_error rs)"
      "load_parts d = Inr (points, hops, ceilings, rs)" "rs \<noteq> []"
  | (loaded) points hops ceilings where "load_parts d = Inr (points, hops, ceilings, [])"
      "load d = Inr \<lparr>t_points = map snd (sort_key fst points),
         t_hops = sort_key (\<lambda>c. (hc_src c, hc_dst c)) ceilings,
         t_crossings = map (\<lambda>k. crossing_ceiling (the (map_of points k)))
           (sorted_list_of_set (h_src ` set hops \<inter> h_dst ` set hops))\<rparr>"
proof (cases "load_parts d")
  case (Inl e)
  then show ?thesis by (intro raised [of e]) (simp_all add: load_def)
next
  case (Inr r)
  then obtain points hops ceilings rs where p: "load_parts d = Inr (points, hops, ceilings, rs)" by (cases r) auto
  show ?thesis
  proof (cases "rs = []")
    case False
    with p show ?thesis by (intro refused [of rs]) (simp_all add: load_def)
  next
    case True
    then have "parse d [] = Inr (points, hops, [])" using load_parts_spec [OF p] by auto
    note decl = accepted_hops_declared [OF this]
    have "set (sorted_list_of_set (h_src ` set hops \<inter> h_dst ` set hops)) \<subseteq> fst ` set points"
      using decl(1) by auto
    from mapE_dict_getE [OF this] show ?thesis
      by (intro loaded [OF p [unfolded True]]) (simp add: load_def p True comp_def)
  qed
qed


text \<open>The consistency of a topology.\<close>

definition consistent :: "Topology \<Rightarrow> bool" where
  "consistent t \<longleftrightarrow>
     sorted (map p_name (t_points t)) \<and> distinct (map p_name (t_points t))
     \<and> sorted (map (\<lambda>c. (hc_src c, hc_dst c)) (t_hops t)) \<and> distinct (map (\<lambda>c. (hc_src c, hc_dst c)) (t_hops t))
     \<and> (\<forall>c \<in> set (t_hops t). hc_src c \<noteq> hc_dst c
          \<and> (\<exists>p \<in> set (t_points t). \<exists>q \<in> set (t_points t). p_name p = hc_src c \<and> p_name q = hc_dst c
              \<and> (\<forall>k. hc_key c = Some k \<longrightarrow> k \<in> p_outbound p \<inter> p_inbound q))
          \<and> (\<forall>x. hc_density c = Some x \<longrightarrow> x \<le> 1)
          \<and> (hc_relation c = ''fanout'' \<longleftrightarrow> hc_max_fanout c \<noteq> None))
     \<and> map cc_point (t_crossings t)
       = sorted_list_of_set (hc_src ` set (t_hops t) \<inter> hc_dst ` set (t_hops t))
     \<and> (\<forall>p \<in> set (t_points t). point_ok p \<and> check_point_rules p [] = [])"

lemma distinct_map_sort_key: "distinct (map f (sort_key g xs)) \<longleftrightarrow> distinct (map f xs)"
  by (rule mset_eq_imp_distinct_iff) simp

lemma load_consistent_parts:
  assumes "load_parts d = Inr (points, hops, ceilings, [])"
  shows "consistent \<lparr>t_points = map snd (sort_key fst points),
         t_hops = sort_key (\<lambda>c. (hc_src c, hc_dst c)) ceilings,
         t_crossings = map (\<lambda>k. crossing_ceiling (the (map_of points k)))
           (sorted_list_of_set (h_src ` set hops \<inter> h_dst ` set hops))\<rparr>"
proof -
  from load_parts_spec [OF assms] have parse: "parse d [] = Inr (points, hops, [])"
    and rules: "\<And>p. p \<in> snd ` set points \<Longrightarrow> check_point_rules p [] = []"
    and inv: "ceilings_inv points [] hops (ceilings, [])" by auto
  note P = parse_spec [OF parse] and decl = accepted_hops_declared [OF parse]
  have name: "p_name (snd kp) = fst kp" if "kp \<in> set points" for kp using P(3) [of "fst kp" "snd kp"] that by simp
  then have names: "map (\<lambda>x. p_name (snd x)) xs = map fst xs" if "set xs \<subseteq> set points" for xs
    using that by (intro map_cong) auto
  have sorted_names: "sorted (map (\<lambda>x. p_name (snd x)) (sort_key fst points))"
    "distinct (map (\<lambda>x. p_name (snd x)) points)"
    using P(2) by (subst names; simp)+
  have ends: "\<exists>src dst. ends points h src dst" if "h \<in> set hops" for h
    using decl(1,2) [OF that] by (metis ends_def map_of_eq_None_iff not_None_eq)
  have "filter (\<lambda>h. \<exists>src dst. ends points h src dst) hops = hops" using ends by simp
  then have keys: "map (\<lambda>c. (hc_src c, hc_dst c)) ceilings = map (\<lambda>h. (h_src h, h_dst h)) hops"
    using inv by (simp add: ceilings_inv_def)
  have sd: "hc_src ` set ceilings = h_src ` set hops" "hc_dst ` set ceilings = h_dst ` set hops"
    using arg_cong [OF keys, of "\<lambda>ks. fst ` set ks"] arg_cong [OF keys, of "\<lambda>ks. snd ` set ks"]
    by (auto simp: image_image)
  have hop: "hc_src c \<noteq> hc_dst c
      \<and> (\<exists>p \<in> snd ` set points. \<exists>q \<in> snd ` set points. p_name p = hc_src c \<and> p_name q = hc_dst c
          \<and> (\<forall>k. hc_key c = Some k \<longrightarrow> k \<in> p_outbound p \<inter> p_inbound q))
      \<and> (\<forall>x. hc_density c = Some x \<longrightarrow> x \<le> 1)
      \<and> (hc_relation c = ''fanout'' \<longleftrightarrow> hc_max_fanout c \<noteq> None)" if c: "c \<in> set ceilings" for c
  proof -
    obtain h src dst where h: "h \<in> set hops" "ends points h src dst" "hop_ceiling h src dst = Inr c"
      "check_density (arrow (h_src h) (h_dst h)) (hc_density c) = Inr []"
      using inv c by (fastforce simp: ceilings_inv_def)
    have e: "(h_src h, src) \<in> set points" "(h_dst h, dst) \<in> set points"
      using h(2) by (auto simp: ends_def dest: map_of_SomeD)
    have "\<exists>p \<in> snd ` set points. \<exists>q \<in> snd ` set points. p_name p = hc_src c \<and> p_name q = hc_dst c
          \<and> (\<forall>k. hc_key c = Some k \<longrightarrow> k \<in> p_outbound p \<inter> p_inbound q)"
      using e P(3) hop_ceiling_Inr(2,3) [OF h(3)] hop_key [OF h(3)]
      by (intro bexI [of _ src] bexI [of _ dst]) (auto simp: image_iff intro: bexI [rotated])
    moreover have "hop_ok (fst ` set (declared_points d)) h" using P(6) [OF h(1)] by simp
    ultimately show ?thesis
      using decl(3) [OF h(1)] check_density_nil [OF h(4)] hop_ceiling_Inr(2-5) [OF h(3)]
      by (simp add: hop_ok_def)
  qed
  have cross: "cc_point (crossing_ceiling (the (map_of points k))) = k"
    if k: "k \<in> h_src ` set hops \<inter> h_dst ` set hops" for k
  proof -
    have "k \<in> fst ` set points" using k decl(1) by auto
    then obtain p where "map_of points k = Some p" by (cases "map_of points k") (auto simp: map_of_eq_None_iff)
    then show ?thesis
      using P(3) [of k p] by (auto simp: crossing_ceiling_def dest: map_of_SomeD split: option.splits)
  qed
  have "map (\<lambda>k. cc_point (crossing_ceiling (the (map_of points k)))) (sorted_list_of_set (h_src ` set hops \<inter> h_dst ` set hops))
    = sorted_list_of_set (h_src ` set hops \<inter> h_dst ` set hops)"
    by (rule map_idI) (use cross in auto)
  then show ?thesis
    using P(2,5) hop rules P(3) sorted_names
    by (auto simp: consistent_def comp_def sd keys distinct_map_sort_key)
qed

text \<open>
  C16 A topology that loads is consistent: points and hops come sorted and without
  repetition, every hop joins two different declared points, its joining identifier is
  recorded at both ends, a hop that only timing can carry is not denser than the bound, a
  fan-out is bounded and only a fan-out is, the crossings are exactly the points with a
  hop in and a hop out, and every point keeps the measured rules.
\<close>

theorem loaded_topology_is_consistent:
  assumes "load d = Inr t"
  shows "consistent t"
proof (cases rule: load_cases [of d])
  case (loaded points hops ceilings)
  then show ?thesis using assms load_consistent_parts [OF loaded(1)] by simp
qed (use assms in \<open>simp_all add: topology_error_def\<close>)

lemma lacking_set:
  "set (lacking hop src dst e) = \<Union> {set (missing hop src dst kind) | kind. (kind, e) \<in> set HOP_LINKS}"
proof -
  have "set (lacking hop src dst e) = \<Union> ((\<lambda>kl. if snd kl = e then set (missing hop src dst (fst kl)) else {}) ` set HOP_LINKS)"
    by (auto simp: lacking_def split_beta simp del: missing.simps)
  also have "\<dots> = \<Union> {set (missing hop src dst kind) | kind. (kind, e) \<in> set HOP_LINKS}"
    by (fastforce simp del: missing.simps split: if_splits)
  finally show ?thesis .
qed

lemma lacking_nonempty:
  assumes "hop_ceiling hop src dst = Inr c" "hc_evidence c < e"
  shows "lacking hop src dst e \<noteq> []"
proof -
  have "e \<noteq> UNRESOLVED" using assms(2) by (metis evidence_le(1) leD)
  then obtain kind where kind: "(kind, e) \<in> set HOP_LINKS" by (cases e) (auto simp: HOP_LINKS_def)
  have "\<not> e \<le> hc_evidence c" using assms(2) by simp
  then have "e \<notin> levels hop src dst"
    using hop_link_strongest [of e hop src dst] hop_ceiling_Inr(1) [OF assms(1)] by (metis snd_conv)
  with kind have "missing hop src dst kind \<noteq> []" by (auto simp: levels_def)
  with kind have "set (lacking hop src dst e) \<noteq> {}" unfolding lacking_set by fastforce
  then show ?thesis by auto
qed

text \<open>
  C18 An expectation is enforced: a hop between accepted points whose ceiling is weaker than
  the evidence it expects is refused, so the declaration does not load, and the refusal
  lists exactly the conditions missing from the link kinds of the expected level, at least
  one.
\<close>

theorem expectation_enforced:
  assumes "load_parts d = Inr (points, hops, ceilings, rs)" "h \<in> set hops" "h_expect h = Some e"
    and "map_of points (h_src h) = Some src" "map_of points (h_dst h) = Some dst"
  shows "\<exists>c. hop_ceiling h src dst = Inr c \<and> c \<in> set ceilings
    \<and> (hc_evidence c < e \<longrightarrow> (\<exists>r. load d = Inl (topology_error rs) \<and> r \<in> set rs
        \<and> r_reason r = CEILING_BELOW_EXPECTED \<and> r_where r = arrow (h_src h) (h_dst h) \<and> r_missing r \<noteq> []
        \<and> set (r_missing r) = \<Union> {set (missing h src dst kind) | kind. (kind, e) \<in> set HOP_LINKS}))"
proof -
  have "ends points h src dst" using assms(4,5) by (simp add: ends_def)
  then obtain c where c: "hop_ceiling h src dst = Inr c" "c \<in> set ceilings" "set (check_expect h c src dst) \<subseteq> set rs"
    using load_parts_spec [OF assms(1)] assms(2) unfolding ceilings_inv_def fst_conv snd_conv by blast
  have "\<exists>r. load d = Inl (topology_error rs) \<and> r \<in> set rs
        \<and> r_reason r = CEILING_BELOW_EXPECTED \<and> r_where r = arrow (h_src h) (h_dst h) \<and> r_missing r \<noteq> []
        \<and> set (r_missing r) = \<Union> {set (missing h src dst kind) | kind. (kind, e) \<in> set HOP_LINKS}"
    if less: "hc_evidence c < e"
  proof -
    obtain r where "check_expect h c src dst = [r]" and r: "r_reason r = CEILING_BELOW_EXPECTED"
      "r_where r = arrow (h_src h) (h_dst h)" "r_missing r = lacking h src dst e"
      using less assms(3) by (simp add: check_expect_def)
    then have "r \<in> set rs" using c(3) by simp
    moreover from this have "load d = Inl (topology_error rs)" using assms(1) by (auto simp: load_def)
    ultimately show ?thesis
      using lacking_nonempty [OF c(1) less] lacking_set [of h src dst e]
      by (intro exI [of _ r]) (simp only: r simp_thms)
  qed
  with c show ?thesis by blast
qed

end
