(* ===== verification/Topology_Examples.thy ===== *)
theory Topology_Examples
  imports Topology_Consistent
begin

text \<open>A web server in front of an application, and the loader on it.\<close>

definition ex_point :: "string \<Rightarrow> pyval list \<Rightarrow> pyval list \<Rightarrow> pyval" where
  "ex_point host inb outb = VTable [(''host'', VStr host), (''visibility'', VStr ''log''), (''clock'', VStr ''ntp''),
     (''timestamps'', VStr ''log_ms''), (''inbound'', VList inb), (''outbound'', VList outb)]"

definition ex_declaration :: "pyval list \<Rightarrow> py_table \<Rightarrow> py_table" where
  "ex_declaration ids hop = [
     (''points'', VTable [(''web'', ex_point ''h1'' [] ids), (''app'', ex_point ''h2'' ids [])]),
     (''hops'', VList [VTable hop])]"

definition ex_hop :: py_table where
  "ex_hop = [(''from'', VStr ''web''), (''to'', VStr ''app''), (''expect'', VStr ''authored'')]"

definition ex_web :: "string set \<Rightarrow> Point" where
  "ex_web outb = \<lparr>p_name = ''web'', p_host = ''h1'', p_visibility = ''log'', p_clock = Some ''ntp'',
     p_timestamps = Some ''log_ms'', p_inbound = {}, p_outbound = outb, p_propagates = [], p_sets = {},
     p_trusts_incoming = True\<rparr>"

definition ex_app :: "string set \<Rightarrow> Point" where
  "ex_app inb = \<lparr>p_name = ''app'', p_host = ''h2'', p_visibility = ''log'', p_clock = Some ''ntp'',
     p_timestamps = Some ''log_ms'', p_inbound = inb, p_outbound = {}, p_propagates = [], p_sets = {},
     p_trusts_incoming = True\<rparr>"

definition ex_link :: Hop where
  "ex_link = \<lparr>h_src = ''web'', h_dst = ''app'', h_relation = ''call'', h_nat = ''none'', h_nat_mapping = ''none'',
     h_pooling = False, h_rate = None, h_noise_us = None, h_expect = Some AUTHORED, h_max_fanout = None\<rparr>"

definition ex_observed :: HopCeiling where
  "ex_observed = \<lparr>hc_src = ''web'', hc_dst = ''app'', hc_relation = ''call'', hc_evidence = OBSERVED,
     hc_link = SAME_CONNECTION, hc_density = None, hc_max_fanout = None, hc_key = None,
     hc_observed = Some [''tuple5'']\<rparr>"

definition ex_authored :: HopCeiling where
  "ex_authored = \<lparr>hc_src = ''web'', hc_dst = ''app'', hc_relation = ''call'', hc_evidence = AUTHORED,
     hc_link = SHARED_HEADER, hc_density = None, hc_max_fanout = None, hc_key = Some ''request_id'',
     hc_observed = None\<rparr>"

definition ex_topology :: Topology where
  "ex_topology = \<lparr>t_points = [ex_app {''request_id''}, ex_web {''request_id''}], t_hops = [ex_authored],
     t_crossings = []\<rparr>"

definition ex_refusals :: "Refusal list" where
  "ex_refusals = [\<lparr>r_reason = CEILING_BELOW_EXPECTED, r_where = ''web -> app'',
     r_detail = ''expected authored, at most observed; missing: no_shared_header, no_message_key'',
     r_missing = [NO_SHARED_HEADER, NO_MESSAGE_KEY]\<rparr>]"

lemma ex_loads: "load (ex_declaration [VStr ''request_id''] ex_hop) = Inr ex_topology"
  by code_simp

lemma ex_parts: "load_parts (ex_declaration [VStr ''tuple5''] ex_hop) =
    Inr ([(''app'', ex_app {''tuple5''}), (''web'', ex_web {''tuple5''})], [ex_link], [ex_observed], ex_refusals)"
  by code_simp

lemma ex_ceiling: "hop_ceiling ex_link (ex_web {''tuple5''}) (ex_app {''tuple5''}) = Inr ex_observed"
  by code_simp

lemma ex_ceiling_more: "hop_ceiling ex_link ((ex_web {})\<lparr>p_outbound := {''request_id''}\<rparr>)
    ((ex_app {})\<lparr>p_inbound := {''request_id''}\<rparr>) = Inr ex_authored"
  by code_simp

lemma ex_ceiling_none: "\<exists>c. hop_ceiling ex_link (ex_web {}) (ex_app {}) = Inr c \<and> hc_evidence c = DERIVED"
  by (simp add: hop_ceiling_def hop_link_unfold wire_header_def HEADERS_def ex_link_def ex_web_def ex_app_def
      hop_density_def)

text \<open>A list where the name of a point is expected is not refused: membership of an unhashable
  value raises.\<close>

lemma unhashable_end_raises:
  "load (ex_declaration [] [(''from'', VList []), (''to'', VStr ''app'')]) = Inl (Raised TypeError)"
  by code_simp

theorem ceiling_is_strongest_witness:
  "hop_ceiling ex_link (ex_web {''tuple5''}) (ex_app {''tuple5''}) = Inr ex_observed
    \<and> missing ex_link (ex_web {''tuple5''}) (ex_app {''tuple5''}) SAME_CONNECTION = []"
  using ex_ceiling ceiling_is_strongest [OF ex_ceiling] by (auto simp: ex_observed_def)

theorem recording_more_never_weakens_witness: "DERIVED \<le> hc_evidence ex_authored"
proof -
  obtain c where c: "hop_ceiling ex_link (ex_web {}) (ex_app {}) = Inr c" "hc_evidence c = DERIVED"
    using ex_ceiling_none by blast
  have "p_outbound (ex_web {}) = {}" "p_inbound (ex_app {}) = {}" by (simp_all add: ex_web_def ex_app_def)
  with recording_more_never_weakens [OF c(1), of "{''request_id''}" "{''request_id''}" ex_authored]
  show ?thesis using c(2) ex_ceiling_more by simp
qed

theorem loaded_topology_is_consistent_witness:
  "load (ex_declaration [VStr ''request_id''] ex_hop) = Inr ex_topology \<and> consistent ex_topology"
  using ex_loads loaded_topology_is_consistent [OF ex_loads] by blast

theorem expectation_enforced_witness:
  "hc_evidence ex_observed < AUTHORED
    \<and> load (ex_declaration [VStr ''tuple5''] ex_hop) = Inl (topology_error ex_refusals)"
proof -
  have ends: "map_of [(''app'', ex_app {''tuple5''}), (''web'', ex_web {''tuple5''})] (h_src ex_link) = Some (ex_web {''tuple5''})"
    "map_of [(''app'', ex_app {''tuple5''}), (''web'', ex_web {''tuple5''})] (h_dst ex_link) = Some (ex_app {''tuple5''})"
    by (simp_all add: ex_link_def)
  have less: "hc_evidence ex_observed < AUTHORED" by (simp add: ex_observed_def less_Evidence_def)
  from expectation_enforced [OF ex_parts _ _ ends, of AUTHORED] ex_ceiling less show ?thesis
    by (auto simp: ex_link_def)
qed

end
