(* ===== verification/Exact_Examples.thy ===== *)
theory Exact_Examples
  imports Exact_Props Topology_Examples
begin

text \<open>Two requests through the example topology; the second identifier is reused downstream.\<close>

definition ex_obs :: "string \<Rightarrow> int \<Rightarrow> string \<Rightarrow> string \<Rightarrow> string \<Rightarrow> string \<Rightarrow> Observation" where
  "ex_obs src n point side key v = \<lparr>o_source = src, o_seq = n, o_point = point, o_side = side, o_keys = [(key, v)]\<rparr>"

definition ex_seen :: "string \<Rightarrow> Observation list" where
  "ex_seen key = [ex_obs ''w'' 1 ''web'' ''outbound'' key ''r1'', ex_obs ''a'' 1 ''app'' ''inbound'' key ''r1'',
     ex_obs ''w'' 1 ''web'' ''outbound'' key ''r1'',
     ex_obs ''w'' 2 ''web'' ''outbound'' key ''r2'', ex_obs ''a'' 2 ''app'' ''inbound'' key ''r2'',
     ex_obs ''a'' 3 ''app'' ''inbound'' key ''r2'', ex_obs ''a'' 4 ''app'' ''inbound'' key ''r3'']"

definition ex_result :: "string \<Rightarrow> ExactResult" where
  "ex_result key = \<lparr>x_links = [\<lparr>l_where = ''web -> app'', l_key = key, l_value = ''r1'',
       l_upstream = (''w'', 1), l_downstream = (''a'', 1)\<rparr>],
     x_collisions = [\<lparr>c_where = ''web -> app'', c_key = key, c_value = ''r2'',
       c_upstream = [(''w'', 2)], c_downstream = [(''a'', 2), (''a'', 3)]\<rparr>],
     x_unlinked = [(''web -> app'', (''a'', 4))], x_duplicates_dropped = 1\<rparr>"

definition ex_topology2 :: Topology where
  "ex_topology2 = ex_topology\<lparr>t_hops := [ex_observed]\<rparr>"

lemma ex_exact: "exact_links ex_topology (ex_seen ''request_id'') = Inr (ex_result ''request_id'')"
  by code_simp

lemma ex_exact_observed: "observed_links ex_topology2 (ex_seen ''tuple5'') = Inr (ex_result ''tuple5'')"
  by code_simp

lemma ex_mapping: "mapping_keys (ex_seen key)"
  by (simp add: mapping_keys_def ex_seen_def ex_obs_def)

theorem exact_order_independent_witness:
  "exact_links ex_topology (rev (ex_seen ''request_id'')) = Inr (ex_result ''request_id'')"
  using exact_order_independent [of "ex_seen ''request_id''" "rev (ex_seen ''request_id'')" ex_topology "ex_result ''request_id''"]
    ex_mapping ex_exact by simp

theorem exact_links_characterised_witness:
  "link_spec value_of id (exact_joins ex_topology) (ex_seen ''request_id'') (hd (x_links (ex_result ''request_id'')))
    \<and> unlinked_spec value_of (exact_joins ex_topology) (ex_seen ''request_id'') (''web -> app'', (''a'', 4))"
proof -
  have "hd (x_links (ex_result ''request_id'')) \<in> set (x_links (ex_result ''request_id''))"
    "(''web -> app'', (''a'', 4)) \<in> set (x_unlinked (ex_result ''request_id''))" by (simp_all add: ex_result_def)
  then show ?thesis using exact_links_characterised [OF ex_exact ex_mapping] by blast
qed

theorem observed_links_characterised_witness:
  "collision_spec composite_of observed_key (observed_joins ex_topology2) (ex_seen ''tuple5'') (hd (x_collisions (ex_result ''tuple5'')))"
proof -
  have "hd (x_collisions (ex_result ''tuple5'')) \<in> set (x_collisions (ex_result ''tuple5''))" by (simp add: ex_result_def)
  then show ?thesis using observed_links_characterised [OF ex_exact_observed ex_mapping] by blast
qed

theorem exact_links_accepts_witness:
  "valid_observation ex_topology (hd (ex_seen ''request_id'')) \<and> (\<exists>e. exact_links ex_topology (ex_seen ''nope'') = Inl e)"
proof -
  have "\<not> valid_observation ex_topology (hd (ex_seen ''nope''))"
    by (simp add: valid_observation_def ex_seen_def ex_obs_def IDENTIFIERS_def)
  moreover have "hd (ex_seen ''nope'') \<in> set (ex_seen ''nope'')" by (simp add: ex_seen_def)
  ultimately have "\<not> (\<exists>r. exact_links ex_topology (ex_seen ''nope'') = Inr r)"
    using exact_links_accepts [of ex_topology "ex_seen ''nope''" undefined] by blast
  moreover have "\<forall>x \<in> set (ex_seen ''request_id''). valid_observation ex_topology x"
    using exact_links_accepts [of ex_topology "ex_seen ''request_id''" undefined] ex_exact by blast
  then have "valid_observation ex_topology (hd (ex_seen ''request_id''))" by (simp add: ex_seen_def)
  ultimately show ?thesis by (metis sum.exhaust)
qed

end
