(* ===== verification/Assignment.thy ===== *)
theory Assignment
  imports Prelude
begin

text \<open>
  The assignment core (\<open>correlation/assignment.py\<close>): from a candidate graph to one decision
  per record.  The connected components of the graph are solved one by one with the
  Hungarian algorithm, and a record is decided only when every assignment within the margin
  of the optimum agrees on it.

  The arrays of the Hungarian algorithm are lists updated by index, and Python's infinity is
  \<open>None\<close>.  When no column is left to enter the tree the code would go on with an infinite
  step; the model returns \<open>InfiniteStep\<close> there.
\<close>

definition MAX_WEIGHT :: int where "MAX_WEIGHT = 10 ^ 9"

record Edge =
  e_left :: string
  e_right :: string
  e_weight :: int

datatype AStatus = MATCHED | UNMATCHED | AMBIGUOUS | OVERSIZED | NO_CANDIDATE_EDGE | DENSE

record ADecision =
  d_id :: string
  d_status :: AStatus
  d_partner :: "string option"
  d_component :: "nat option"

record Component =
  c_left :: "string list"
  c_right :: "string list"
  c_best :: "int option"

record AssignResult =
  r_left :: "ADecision list"
  r_right :: "ADecision list"
  r_components :: "Component list"

type_synonym weights = "((string \<times> string) \<times> int) list"

section \<open>Validation\<close>

definition validate_edge :: "string list \<Rightarrow> string list \<Rightarrow> weights \<Rightarrow> Edge \<Rightarrow> weights result" where
  "validate_edge lefts rights weights e =
     (if e_left e \<notin> set lefts then Inl (ValueError ''unknown left id in edge'')
      else if e_right e \<notin> set rights then Inl (ValueError ''unknown right id in edge'')
      else if (e_left e, e_right e) \<in> fst ` set weights then Inl (ValueError ''duplicate edge'')
      else if \<not> (1 \<le> e_weight e \<and> e_weight e \<le> MAX_WEIGHT) then Inl (ValueError ''weight must be an integer'')
      else Inr (dict_put (e_left e, e_right e) (e_weight e) weights))"

definition validated ::
    "string list \<Rightarrow> string list \<Rightarrow> Edge list \<Rightarrow> int \<Rightarrow> int \<Rightarrow> (string list \<times> string list \<times> weights) result" where
  "validated lefts rights edges margin max_component =
     bindE (checkE (margin \<ge> 0) (ValueError ''margin must be an integer >= 0'')) (\<lambda>_.
     bindE (checkE (max_component \<ge> 1) (ValueError ''max_component must be an integer >= 1'')) (\<lambda>_.
     bindE (checkE (distinct lefts) (ValueError ''duplicate left id'')) (\<lambda>_.
     bindE (checkE (distinct rights) (ValueError ''duplicate right id'')) (\<lambda>_.
     bindE (foldE (validate_edge lefts rights) [] edges) (\<lambda>weights.
     Inr (sort lefts, sort rights, weights))))))"

section \<open>Components\<close>

type_synonym node = "string \<times> string"

definition neighbours :: "weights \<Rightarrow> node \<Rightarrow> node set" where
  "neighbours weights n =
     (\<lambda>lrw. (''R'', snd (fst lrw))) ` set (filter (\<lambda>lrw. n = (''L'', fst (fst lrw))) weights)
     \<union> (\<lambda>lrw. (''L'', fst (fst lrw))) ` set (filter (\<lambda>lrw. n = (''R'', snd (fst lrw))) weights)"

text \<open>The keys of the dictionary of neighbours.\<close>

definition nodes :: "weights \<Rightarrow> node set" where
  "nodes weights = (\<lambda>lrw. (''L'', fst (fst lrw))) ` set weights \<union> (\<lambda>lrw. (''R'', snd (fst lrw))) ` set weights"

text \<open>\<open>if other not in reached: reached.add(other); members.append(other)\<close>\<close>

definition visit :: "node \<Rightarrow> node set \<times> node list \<Rightarrow> node set \<times> node list" where
  "visit other st = (if other \<in> fst st then st else (insert other (fst st), snd st @ [other]))"

text \<open>The walk: the queue is read by index, up to the number of records.\<close>

fun walk :: "(node \<Rightarrow> node set) \<Rightarrow> nat list \<Rightarrow> node set \<times> node list \<Rightarrow> node set \<times> node list" where
  "walk nb [] st = st"
| "walk nb (k # ks) st =
     (if k = length (snd st) then st
      else walk nb ks (fold visit (sorted_list_of_set (nb (snd st ! k))) st))"

definition side_ids :: "string \<Rightarrow> node list \<Rightarrow> string list" where
  "side_ids side members = sort (map snd (filter (\<lambda>n. fst n = side) members))"

definition component_step ::
    "weights \<Rightarrow> node \<Rightarrow> node set \<times> (string list \<times> string list) list \<Rightarrow> node set \<times> (string list \<times> string list) list" where
  "component_step weights start st =
     (let (reached, out) = st in
      if start \<in> reached then st
      else let (reached', members) = walk (neighbours weights) [0..<card (nodes weights)]
                 (insert start reached, [start]) in
        (reached', out @ [(side_ids ''L'' members, side_ids ''R'' members)]))"

definition assign_components :: "weights \<Rightarrow> (string list \<times> string list) list" where
  "assign_components weights = snd (fold (component_step weights) (sorted_list_of_set (nodes weights)) ({}, []))"

section \<open>The Hungarian algorithm\<close>

type_synonym matrix = "int list list"

text \<open>\<open>x < y\<close> with infinity.\<close>

fun less_inf :: "int option \<Rightarrow> int option \<Rightarrow> bool" where
  "less_inf None y \<longleftrightarrow> False"
| "less_inf (Some x) None \<longleftrightarrow> True"
| "less_inf (Some x) (Some y) \<longleftrightarrow> x < y"

record hungarian =
  h_u :: "int list"
  h_v :: "int list"
  h_p :: "nat list"
  h_way :: "nat list"
  h_minv :: "int option list"
  h_used :: "bool list"

text \<open>The body of \<open>for j in range(1, n + 1)\<close>: the state, \<open>delta\<close> and \<open>j1\<close>.\<close>

definition scan_column ::
    "matrix \<Rightarrow> nat \<Rightarrow> nat \<Rightarrow> nat \<Rightarrow> hungarian \<times> int option \<times> nat \<Rightarrow> hungarian \<times> int option \<times> nat" where
  "scan_column cost i0 j0 j st =
     (let (h, delta, j1) = st in
      if h_used h ! j then st
      else
        let cur = cost ! (i0 - 1) ! (j - 1) - h_u h ! i0 - h_v h ! j;
            h' = (if less_inf (Some cur) (h_minv h ! j)
                  then h\<lparr>h_minv := (h_minv h)[j := Some cur], h_way := (h_way h)[j := j0]\<rparr> else h) in
        if less_inf (h_minv h' ! j) delta then (h', h_minv h' ! j, j) else (h', delta, j1))"

text \<open>The body of \<open>for j in range(n + 1)\<close> that moves the potentials.\<close>

definition shift_column :: "int \<Rightarrow> nat \<Rightarrow> hungarian \<Rightarrow> hungarian" where
  "shift_column delta j h =
     (if h_used h ! j
      then h\<lparr>h_u := (h_u h)[h_p h ! j := h_u h ! (h_p h ! j) + delta], h_v := (h_v h)[j := h_v h ! j - delta]\<rparr>
      else h\<lparr>h_minv := (h_minv h)[j := map_option (\<lambda>x. x - delta) (h_minv h ! j)]\<rparr>)"

text \<open>\<open>for _ in range(n + 1)\<close>: grow the tree until a free column is reached.\<close>

fun grow :: "matrix \<Rightarrow> nat \<Rightarrow> nat \<Rightarrow> hungarian \<Rightarrow> nat \<Rightarrow> (hungarian \<times> nat) result" where
  "grow cost n 0 h j0 = Inl AssertionError"
| "grow cost n (Suc k) h j0 =
     (if h_p h ! j0 = 0 then Inr (h, j0)
      else
        let h1 = h\<lparr>h_used := (h_used h)[j0 := True]\<rparr>;
            (h2, delta, j1) = fold (scan_column cost (h_p h1 ! j0) j0) [1..<Suc n] (h1, None, 0) in
        case delta of None \<Rightarrow> Inl InfiniteStep
        | Some d \<Rightarrow> grow cost n k (fold (shift_column d) [0..<Suc n] h2) j1)"

text \<open>\<open>while j0: j1 = way[j0]; p[j0], j0 = p[j1], j1\<close>, given as many steps as there are columns.\<close>

fun augment :: "nat \<Rightarrow> nat list \<Rightarrow> nat list \<Rightarrow> nat \<Rightarrow> nat list result" where
  "augment k way p j0 =
     (if j0 = 0 then Inr p
      else case k of 0 \<Rightarrow> Inl OutOfFuel
      | Suc k' \<Rightarrow> augment k' way (p[j0 := p ! (way ! j0)]) (way ! j0))"

definition row_step :: "matrix \<Rightarrow> nat \<Rightarrow> hungarian \<Rightarrow> nat \<Rightarrow> hungarian result" where
  "row_step cost n h i =
     bindE (grow cost n (Suc n)
       (h\<lparr>h_p := (h_p h)[0 := i], h_minv := replicate (Suc n) None, h_used := replicate (Suc n) False\<rparr>) 0)
       (\<lambda>(h', j0). bindE (augment (Suc n) (h_way h') (h_p h') j0) (\<lambda>p. Inr (h'\<lparr>h_p := p\<rparr>)))"

definition init_hungarian :: "nat \<Rightarrow> hungarian" where
  "init_hungarian n = \<lparr>h_u = replicate (Suc n) 0, h_v = replicate (Suc n) 0, h_p = replicate (Suc n) 0,
     h_way = replicate (Suc n) 0, h_minv = [], h_used = []\<rparr>"

definition min_cost_assignment :: "matrix \<Rightarrow> (int \<times> nat list) result" where
  "min_cost_assignment cost =
     (let n = length cost in
      bindE (foldE (row_step cost n) (init_hungarian n) [1..<Suc n]) (\<lambda>h.
      let row_to_col = fold (\<lambda>j r. r[h_p h ! j - 1 := j - 1]) [1..<Suc n] (replicate n 0) in
      Inr (\<Sum>i\<leftarrow>[0..<n]. cost ! i ! (row_to_col ! i), row_to_col)))"

section \<open>One component\<close>

definition get_weight :: "weights \<Rightarrow> string \<Rightarrow> string \<Rightarrow> int option" where
  "get_weight weights x y = map_of weights (x, y)"

definition forbidden_cost :: "string list \<Rightarrow> string list \<Rightarrow> weights \<Rightarrow> int" where
  "forbidden_cost left_ids right_ids weights =
     1 + (\<Sum>x\<leftarrow>left_ids. \<Sum>y\<leftarrow>right_ids. case get_weight weights x y of None \<Rightarrow> 0 | Some w \<Rightarrow> w)"

text \<open>The square cost matrix, cell by cell as the loops fill it.\<close>

definition cost_cell :: "string list \<Rightarrow> string list \<Rightarrow> weights \<Rightarrow> nat \<Rightarrow> nat \<Rightarrow> int" where
  "cost_cell left_ids right_ids weights row col =
     (let nl = length left_ids; nr = length right_ids in
      if row < nl then
        if col < nr then
          (case get_weight weights (left_ids ! row) (right_ids ! col) of
             None \<Rightarrow> forbidden_cost left_ids right_ids weights | Some w \<Rightarrow> - w)
        else if col = nr + row then 0 else forbidden_cost left_ids right_ids weights
      else
        if col < nr then (if col = row - nl then 0 else forbidden_cost left_ids right_ids weights)
        else 0)"

definition cost_matrix :: "string list \<Rightarrow> string list \<Rightarrow> weights \<Rightarrow> matrix" where
  "cost_matrix left_ids right_ids weights =
     (let size = length left_ids + length right_ids in
      map (\<lambda>row. map (cost_cell left_ids right_ids weights row) [0..<size]) [0..<size])"

definition near_optimal_without :: "matrix \<Rightarrow> int \<Rightarrow> int \<Rightarrow> int \<Rightarrow> nat \<Rightarrow> nat \<Rightarrow> bool result" where
  "near_optimal_without cost forbidden tot margin row col =
     bindE (min_cost_assignment (cost[row := (cost ! row)[col := forbidden]])) (\<lambda>(alternative, _).
     Inr (alternative - tot \<le> margin))"

type_synonym decided = "string \<rightharpoonup> AStatus \<times> string option"

text \<open>The two loops that decide every record: \<open>left_dec\<close> and \<open>right_dec\<close>.\<close>

definition decide_left ::
    "(nat \<Rightarrow> nat \<Rightarrow> bool result) \<Rightarrow> string list \<Rightarrow> string list \<Rightarrow> nat list \<Rightarrow> decided \<times> decided \<Rightarrow> nat
      \<Rightarrow> (decided \<times> decided) result" where
  "decide_left without left_ids right_ids column st i =
     (let (left_dec, right_dec) = st; nr = length right_ids; x = left_ids ! i; j = column ! i in
      if j < nr then
        bindE (without i j) (\<lambda>ambiguous.
        Inr (if ambiguous
             then (left_dec(x \<mapsto> (AMBIGUOUS, None)), right_dec(right_ids ! j \<mapsto> (AMBIGUOUS, None)))
             else (left_dec(x \<mapsto> (MATCHED, Some (right_ids ! j))), right_dec(right_ids ! j \<mapsto> (MATCHED, Some x)))))
      else
        bindE (without i (nr + i)) (\<lambda>ambiguous.
        Inr (left_dec(x \<mapsto> (if ambiguous then AMBIGUOUS else UNMATCHED, None)), right_dec)))"

definition decide_right ::
    "(nat \<Rightarrow> nat \<Rightarrow> bool result) \<Rightarrow> string list \<Rightarrow> string list \<Rightarrow> nat list \<Rightarrow> decided \<Rightarrow> nat \<Rightarrow> decided result" where
  "decide_right without left_ids right_ids column right_dec j =
     (if j \<in> set (take (length left_ids) column) then Inr right_dec
      else bindE (without (length left_ids + j) j) (\<lambda>ambiguous.
        Inr (right_dec(right_ids ! j \<mapsto> (if ambiguous then AMBIGUOUS else UNMATCHED, None)))))"

definition resolve ::
    "string list \<Rightarrow> string list \<Rightarrow> weights \<Rightarrow> int \<Rightarrow> (int \<times> decided \<times> decided) result" where
  "resolve left_ids right_ids weights margin =
     (let cost = cost_matrix left_ids right_ids weights;
          forbidden = forbidden_cost left_ids right_ids weights in
      bindE (min_cost_assignment cost) (\<lambda>(total, column).
      let without = near_optimal_without cost forbidden total margin in
      bindE (foldE (decide_left without left_ids right_ids column) (Map.empty, Map.empty) [0..<length left_ids])
        (\<lambda>(left_dec, right_dec).
      bindE (foldE (decide_right without left_ids right_ids column) right_dec [0..<length right_ids]) (\<lambda>right_dec.
      Inr (- total, left_dec, right_dec)))))"

section \<open>Assignment\<close>

text \<open>\<open>decided\<close>: the decisions by side and record.\<close>

definition component_decisions ::
    "weights \<Rightarrow> int \<Rightarrow> int \<Rightarrow> (node \<rightharpoonup> ADecision) \<times> Component list \<Rightarrow> string list \<times> string list
      \<Rightarrow> ((node \<rightharpoonup> ADecision) \<times> Component list) result" where
  "component_decisions weights margin max_component st ids =
     (let (decided, components) = st; (left_ids, right_ids) = ids; index = length components in
      if int (max (length left_ids) (length right_ids)) > max_component
      then Inr (fold (\<lambda>(side, x) d. d((side, x) \<mapsto> \<lparr>d_id = x, d_status = OVERSIZED, d_partner = None, d_component = Some index\<rparr>))
             (map (Pair ''L'') left_ids @ map (Pair ''R'') right_ids) decided,
             components @ [\<lparr>c_left = left_ids, c_right = right_ids, c_best = None\<rparr>])
      else bindE (resolve left_ids right_ids weights margin) (\<lambda>(best, left_dec, right_dec).
        Inr ((\<lambda>(side, x). case (if side = ''L'' then left_dec x else if side = ''R'' then right_dec x else None) of
               None \<Rightarrow> decided (side, x)
             | Some (status, partner) \<Rightarrow>
                 Some \<lparr>d_id = x, d_status = status, d_partner = partner, d_component = Some index\<rparr>),
             components @ [\<lparr>c_left = left_ids, c_right = right_ids, c_best = Some best\<rparr>])))"

definition assign_decision :: "(node \<rightharpoonup> ADecision) \<Rightarrow> string \<Rightarrow> string \<Rightarrow> ADecision" where
  "assign_decision decided side x =
     (case decided (side, x) of
        None \<Rightarrow> \<lparr>d_id = x, d_status = NO_CANDIDATE_EDGE, d_partner = None, d_component = None\<rparr>
      | Some d \<Rightarrow> d)"

definition assign :: "string list \<Rightarrow> string list \<Rightarrow> Edge list \<Rightarrow> int \<Rightarrow> int \<Rightarrow> AssignResult result" where
  "assign lefts rights edges margin max_component =
     bindE (validated lefts rights edges margin max_component) (\<lambda>(lefts, rights, weights).
     bindE (foldE (component_decisions weights margin max_component) (Map.empty, []) (assign_components weights))
       (\<lambda>(decided, components).
     Inr \<lparr>r_left = map (assign_decision decided ''L'') lefts,
          r_right = map (assign_decision decided ''R'') rights, r_components = components\<rparr>))"

end
