(* ===== verification/Hungarian.thy ===== *)
theory Hungarian
  imports Assignment
begin

text \<open>
  The Hungarian algorithm of \<open>_min_cost_assignment\<close> is correct: on every square matrix it
  returns, without reaching the assertion, the fuel or an infinite step, a permutation of
  the columns of minimum total cost.

  Each row is added by growing an alternating tree of columns.  The potentials stay feasible
  for the rows added so far and tight on the matched cells, the tree's cells are tight, and
  \<open>minv\<close> holds the smallest slack of each column outside the tree.  A perfect assignment on
  tight cells under feasible potentials is optimal.
\<close>

section \<open>The scan\<close>

abbreviation cell :: "matrix \<Rightarrow> nat \<Rightarrow> nat \<Rightarrow> int" where
  "cell cost i j \<equiv> cost ! (i - 1) ! (j - 1)"

definition slack :: "matrix \<Rightarrow> hungarian \<Rightarrow> nat \<Rightarrow> nat \<Rightarrow> int" where
  "slack cost h i j = cell cost i j - h_u h ! i - h_v h ! j"

definition sized :: "nat \<Rightarrow> hungarian \<Rightarrow> bool" where
  "sized n h \<longleftrightarrow> length (h_u h) = Suc n \<and> length (h_v h) = Suc n \<and> length (h_p h) = Suc n
     \<and> length (h_way h) = Suc n \<and> length (h_minv h) = Suc n \<and> length (h_used h) = Suc n"

definition min_inf :: "int option \<Rightarrow> int \<Rightarrow> int" where
  "min_inf m c = (case m of None \<Rightarrow> c | Some x \<Rightarrow> min x c)"

definition open_columns :: "nat \<Rightarrow> hungarian \<Rightarrow> nat set" where
  "open_columns m h = {j. 1 \<le> j \<and> j \<le> m \<and> \<not> h_used h ! j}"

definition scanned :: "matrix \<Rightarrow> nat \<Rightarrow> nat \<Rightarrow> nat \<Rightarrow> hungarian \<Rightarrow> hungarian \<Rightarrow> bool" where
  "scanned cost i0 j0 m h h' \<longleftrightarrow> h_u h' = h_u h \<and> h_v h' = h_v h \<and> h_p h' = h_p h \<and> h_used h' = h_used h
     \<and> length (h_minv h') = length (h_minv h) \<and> length (h_way h') = length (h_way h)
     \<and> (\<forall>j. j \<notin> open_columns m h \<longrightarrow> h_minv h' ! j = h_minv h ! j \<and> h_way h' ! j = h_way h ! j)
     \<and> (\<forall>j \<in> open_columns m h. h_minv h' ! j = Some (min_inf (h_minv h ! j) (slack cost h i0 j))
         \<and> h_way h' ! j = (if less_inf (Some (slack cost h i0 j)) (h_minv h ! j) then j0 else h_way h ! j))"

definition best_open :: "nat \<Rightarrow> hungarian \<Rightarrow> hungarian \<Rightarrow> int option \<Rightarrow> nat \<Rightarrow> bool" where
  "best_open m h h' delta j1 \<longleftrightarrow>
     (delta = None \<longleftrightarrow> open_columns m h = {})
     \<and> (\<forall>d. delta = Some d \<longrightarrow> j1 \<in> open_columns m h \<and> h_minv h' ! j1 = Some d
         \<and> (\<forall>j \<in> open_columns m h. \<forall>x. h_minv h' ! j = Some x \<longrightarrow> d \<le> x))"

lemma open_columns_Suc:
  "open_columns (Suc m) h = (if h_used h ! Suc m then open_columns m h else insert (Suc m) (open_columns m h))"
  by (auto simp: open_columns_def le_Suc_eq)

lemma scan_columns:
  assumes "sized n h" "m \<le> n"
  shows "\<exists>h' delta j1. fold (scan_column cost i0 j0) [1..<Suc m] (h, None, 0) = (h', delta, j1)
    \<and> scanned cost i0 j0 m h h' \<and> best_open m h h' delta j1"
  using assms(2)
proof (induction m)
  case 0
  have "open_columns 0 h = {}" by (auto simp: open_columns_def)
  then show ?case by (simp add: scanned_def best_open_def)
next
  case (Suc m)
  then obtain h' delta j1 where IH: "fold (scan_column cost i0 j0) [1..<Suc m] (h, None, 0) = (h', delta, j1)"
    "scanned cost i0 j0 m h h'" "best_open m h h' delta j1" by auto
  have step: "fold (scan_column cost i0 j0) [1..<Suc (Suc m)] (h, None, 0) = scan_column cost i0 j0 (Suc m) (h', delta, j1)"
    using IH(1) by simp
  show ?case
  proof (cases "h_used h ! Suc m")
    case True
    then have "scan_column cost i0 j0 (Suc m) (h', delta, j1) = (h', delta, j1)"
      using IH(2) by (simp add: scan_column_def scanned_def)
    moreover have opn: "open_columns (Suc m) h = open_columns m h" using True by (simp add: open_columns_Suc)
    moreover have "scanned cost i0 j0 (Suc m) h h'" using IH(2) unfolding scanned_def opn .
    moreover have "best_open (Suc m) h h' delta j1" using IH(3) unfolding best_open_def opn .
    ultimately show ?thesis using step by (intro exI conjI) (simp_all only:)
  next
    case False
    have opn: "open_columns (Suc m) h = insert (Suc m) (open_columns m h)" "Suc m \<notin> open_columns m h"
      using False by (simp add: open_columns_Suc) (simp add: open_columns_def)
    have len: "Suc m < length (h_minv h')" "Suc m < length (h_way h')"
      using IH(2) assms(1) Suc.prems by (simp_all add: scanned_def sized_def)
    define c where "c = slack cost h i0 (Suc m)"
    have old: "h_minv h' ! Suc m = h_minv h ! Suc m" "h_way h' ! Suc m = h_way h ! Suc m"
      using IH(2) opn(2) by (simp_all add: scanned_def)
    define h2 where "h2 = (if less_inf (Some c) (h_minv h ! Suc m)
      then h'\<lparr>h_minv := (h_minv h')[Suc m := Some c], h_way := (h_way h')[Suc m := j0]\<rparr> else h')"
    have sc: "scan_column cost i0 j0 (Suc m) (h', delta, j1) =
        (if less_inf (h_minv h2 ! Suc m) delta then (h2, h_minv h2 ! Suc m, Suc m) else (h2, delta, j1))"
      using IH(2) False old by (simp add: scan_column_def Let_def scanned_def slack_def c_def h2_def)
    have new: "h_minv h2 ! Suc m = Some (min_inf (h_minv h ! Suc m) c)"
      "h_way h2 ! Suc m = (if less_inf (Some c) (h_minv h ! Suc m) then j0 else h_way h ! Suc m)"
      using len old by (auto simp: h2_def min_inf_def split: option.splits)
    have same: "j \<noteq> Suc m \<Longrightarrow> h_minv h2 ! j = h_minv h' ! j \<and> h_way h2 ! j = h_way h' ! j" for j
      by (simp add: h2_def)
    have "scanned cost i0 j0 (Suc m) h h2"
      unfolding scanned_def
    proof (intro conjI allI impI ballI)
      show "h_u h2 = h_u h" "h_v h2 = h_v h" "h_p h2 = h_p h" "h_used h2 = h_used h"
        "length (h_minv h2) = length (h_minv h)" "length (h_way h2) = length (h_way h)"
        using IH(2) by (simp_all add: h2_def scanned_def)
      show "h_minv h2 ! j = h_minv h ! j" "h_way h2 ! j = h_way h ! j" if "j \<notin> open_columns (Suc m) h" for j
        using that same [of j] IH(2) opn by (simp_all add: scanned_def)
      show "h_minv h2 ! j = Some (min_inf (h_minv h ! j) (slack cost h i0 j))"
        "h_way h2 ! j = (if less_inf (Some (slack cost h i0 j)) (h_minv h ! j) then j0 else h_way h ! j)"
        if "j \<in> open_columns (Suc m) h" for j
        using that same [of j] IH(2) opn new by (cases "j = Suc m"; simp add: scanned_def c_def)+
    qed
    moreover have "best_open (Suc m) h h2 (if less_inf (h_minv h2 ! Suc m) delta then h_minv h2 ! Suc m else delta)
        (if less_inf (h_minv h2 ! Suc m) delta then Suc m else j1)"
    proof (cases delta)
      case None
      then show ?thesis using IH(3) new(1) opn by (auto simp: best_open_def)
    next
      case (Some d)
      have "j \<noteq> Suc m" if "j \<in> open_columns m h" for j using that opn(2) by blast
      then show ?thesis using IH(3) new(1) opn(1) same Some by (force simp: best_open_def)
    qed
    ultimately show ?thesis using step sc by (auto split: if_splits)
  qed
qed

section \<open>The shift\<close>

definition shifted :: "int \<Rightarrow> nat \<Rightarrow> hungarian \<Rightarrow> hungarian \<Rightarrow> bool" where
  "shifted d m h h' \<longleftrightarrow> h_p h' = h_p h \<and> h_way h' = h_way h \<and> h_used h' = h_used h
     \<and> length (h_u h') = length (h_u h) \<and> length (h_v h') = length (h_v h) \<and> length (h_minv h') = length (h_minv h)
     \<and> (\<forall>r < length (h_u h). h_u h' ! r = h_u h ! r + (if \<exists>j < m. h_used h ! j \<and> h_p h ! j = r then d else 0))
     \<and> (\<forall>j < length (h_v h). h_v h' ! j = h_v h ! j - (if j < m \<and> h_used h ! j then d else 0))
     \<and> (\<forall>j < length (h_minv h). h_minv h' ! j =
         (if j < m \<and> \<not> h_used h ! j then map_option (\<lambda>x. x - d) (h_minv h ! j) else h_minv h ! j))"

lemma shift_columns:
  assumes "sized n h" "m \<le> Suc n" "\<And>j. j \<le> n \<Longrightarrow> h_p h ! j \<le> n"
    and "inj_on (\<lambda>j. h_p h ! j) {j. j \<le> n \<and> h_used h ! j}"
  shows "shifted d m h (fold (shift_column d) [0..<m] h)"
  using assms(2)
proof (induction m)
  case 0
  then show ?case by (simp add: shifted_def)
next
  case (Suc m)
  define h' where "h' = fold (shift_column d) [0..<m] h"
  have IH: "shifted d m h h'" using Suc by (simp add: h'_def)
  have step: "fold (shift_column d) [0..<Suc m] h = shift_column d m h'" by (simp add: h'_def)
  have len: "m < length (h_v h')" "m < length (h_minv h')" "h_p h ! m < length (h_u h')"
    using IH assms(1) assms(3) [of m] Suc.prems by (simp_all add: shifted_def sized_def)
  show ?case
  proof (cases "h_used h ! m")
    case True
    have fresh: "\<not> (\<exists>j < m. h_used h ! j \<and> h_p h ! j = h_p h ! m)"
    proof
      assume "\<exists>j < m. h_used h ! j \<and> h_p h ! j = h_p h ! m"
      then obtain j where "j < m" "h_used h ! j" "h_p h ! j = h_p h ! m" by blast
      then show False using inj_onD [OF assms(4), of j m] True Suc.prems by simp
    qed
    have "h_u (shift_column d m h') ! r = h_u h ! r + (if \<exists>j < Suc m. h_used h ! j \<and> h_p h ! j = r then d else 0)"
      if r: "r < length (h_u h)" for r
    proof (cases "r = h_p h ! m")
      case True
      then have "h_u (shift_column d m h') ! r = h_u h' ! r + d"
        using IH \<open>h_used h ! m\<close> len(3) by (simp add: shift_column_def shifted_def)
      moreover have "(\<exists>j < m. h_used h ! j \<and> h_p h ! j = r) = False" using fresh True by blast
      then have "h_u h' ! r = h_u h ! r" using IH r unfolding shifted_def by (simp only: if_False add_0_right)
      ultimately show ?thesis using True \<open>h_used h ! m\<close> by auto
    next
      case False
      then have "h_u (shift_column d m h') ! r = h_u h' ! r"
        using IH \<open>h_used h ! m\<close> by (simp add: shift_column_def shifted_def)
      moreover have "(\<exists>j < Suc m. h_used h ! j \<and> h_p h ! j = r) \<longleftrightarrow> (\<exists>j < m. h_used h ! j \<and> h_p h ! j = r)"
        using False by (auto simp: less_Suc_eq)
      ultimately show ?thesis using IH r by (simp add: shifted_def)
    qed
    then show ?thesis
      unfolding step using IH True len by (auto simp: shift_column_def shifted_def nth_list_update less_Suc_eq)
  next
    case False
    then have "(\<exists>j < Suc m. h_used h ! j \<and> h_p h ! j = r) \<longleftrightarrow> (\<exists>j < m. h_used h ! j \<and> h_p h ! j = r)" for r
      by (auto simp: less_Suc_eq)
    then show ?thesis
      unfolding step using IH False len by (auto simp: shift_column_def shifted_def nth_list_update less_Suc_eq)
  qed
qed

section \<open>The tree\<close>

definition in_tree :: "nat \<Rightarrow> hungarian \<Rightarrow> nat set" where
  "in_tree n h = {j. j \<le> n \<and> h_used h ! j}"

text \<open>\<open>p\<close> holds the rows \<open>1..i\<close>, each in one of the columns \<open>C\<close>, and 0 elsewhere in \<open>C\<close>.\<close>

definition holds_rows :: "nat set \<Rightarrow> nat \<Rightarrow> nat list \<Rightarrow> bool" where
  "holds_rows C i p \<longleftrightarrow> (\<lambda>j. p ! j) ` {j \<in> C. p ! j \<noteq> 0} = {1..i} \<and> inj_on (\<lambda>j. p ! j) {j \<in> C. p ! j \<noteq> 0}"

definition feasible :: "matrix \<Rightarrow> nat \<Rightarrow> hungarian \<Rightarrow> nat set \<Rightarrow> bool" where
  "feasible cost n h rows \<longleftrightarrow> (\<forall>r \<in> rows. \<forall>j \<in> {1..n}. 0 \<le> slack cost h r j)"

definition tight :: "matrix \<Rightarrow> nat \<Rightarrow> hungarian \<Rightarrow> bool" where
  "tight cost n h \<longleftrightarrow> (\<forall>j \<in> {1..n}. h_p h ! j \<noteq> 0 \<longrightarrow> slack cost h (h_p h ! j) j = 0)"

text \<open>A way back to the root, of length \<open>d\<close>, through columns of the tree.\<close>

fun path :: "nat list \<Rightarrow> nat set \<Rightarrow> nat \<Rightarrow> nat \<Rightarrow> bool" where
  "path way U 0 j \<longleftrightarrow> j = 0 \<and> 0 \<in> U"
| "path way U (Suc d) j \<longleftrightarrow> j \<noteq> 0 \<and> j \<in> U \<and> path way U d (way ! j)"

lemma path_mono: "path way U d j \<Longrightarrow> U \<subseteq> U' \<Longrightarrow> (\<And>k. k \<in> U \<Longrightarrow> k \<noteq> 0 \<Longrightarrow> way' ! k = way ! k) \<Longrightarrow> path way' U' d j"
  by (induction d arbitrary: j) auto

lemma path_unique: "path way U d j \<Longrightarrow> path way U e j \<Longrightarrow> d = e"
proof (induction d arbitrary: j e)
  case 0
  then show ?case by (cases e) auto
next
  case (Suc d)
  then show ?case by (cases e) auto
qed

definition tree :: "matrix \<Rightarrow> nat \<Rightarrow> nat \<Rightarrow> hungarian \<Rightarrow> nat \<Rightarrow> bool" where
  "tree cost n i h j0 \<longleftrightarrow> sized n h \<and> h_p h ! 0 = i \<and> holds_rows {1..n} (i - 1) (h_p h) \<and> 1 \<le> i \<and> i \<le> n
     \<and> j0 \<le> n \<and> j0 \<notin> in_tree n h \<and> (\<forall>j \<in> in_tree n h. h_p h ! j \<noteq> 0)
     \<and> (in_tree n h = {} \<longrightarrow> j0 = 0)
     \<and> (in_tree n h \<noteq> {} \<longrightarrow> 0 \<in> in_tree n h \<and> h_minv h ! j0 = Some 0)
     \<and> feasible cost n h ({1..i - 1} \<union> (if in_tree n h = {} then {} else {i})) \<and> tight cost n h
     \<and> (\<forall>j \<in> {1..n} - in_tree n h. (in_tree n h = {} \<longrightarrow> h_minv h ! j = None)
         \<and> (in_tree n h \<noteq> {} \<longrightarrow> h_way h ! j \<in> in_tree n h
             \<and> h_minv h ! j = Some (slack cost h (h_p h ! (h_way h ! j)) j)
             \<and> (\<forall>k \<in> in_tree n h. slack cost h (h_p h ! (h_way h ! j)) j \<le> slack cost h (h_p h ! k) j)))
     \<and> (\<forall>j \<in> in_tree n h. \<exists>d < card (in_tree n h). path (h_way h) (in_tree n h) d j)
     \<and> (\<forall>j \<in> in_tree n h. j \<noteq> 0 \<longrightarrow> slack cost h (h_p h ! (h_way h ! j)) j = 0)"

lemma finite_in_tree [simp]: "finite (in_tree n h)"
  by (simp add: in_tree_def)

text \<open>With the new row in column 0, the rows of the tree are told apart by their columns.\<close>

lemma holds_rows_le: "holds_rows C i p \<Longrightarrow> j \<in> C \<Longrightarrow> p ! j \<le> i"
  unfolding holds_rows_def by (cases "p ! j = 0") (auto simp: set_eq_iff image_iff)

lemma holds_rows_inj: "holds_rows C i p \<Longrightarrow> j \<in> C \<Longrightarrow> k \<in> C \<Longrightarrow> p ! j \<noteq> 0 \<Longrightarrow> p ! k = p ! j \<Longrightarrow> k = j"
  unfolding holds_rows_def by (auto dest: inj_onD)

lemma tree_rows:
  assumes "tree cost n i h j0"
  shows "j \<le> n \<Longrightarrow> h_p h ! j \<le> i"
    and "j \<le> n \<Longrightarrow> k \<le> n \<Longrightarrow> h_p h ! j \<noteq> 0 \<Longrightarrow> h_p h ! k = h_p h ! j \<Longrightarrow> k = j"
proof -
  have rows: "holds_rows {1..n} (i - 1) (h_p h)" and p0: "h_p h ! 0 = i" and i: "1 \<le> i"
    using assms by (auto simp: tree_def)
  show "h_p h ! j \<le> i" if "j \<le> n" for j
    using holds_rows_le [OF rows, of j] p0 that by (cases "j = 0") auto
  show "k = j" if j: "j \<le> n" "k \<le> n" "h_p h ! j \<noteq> 0" "h_p h ! k = h_p h ! j"
  proof -
    have below: "h_p h ! x \<noteq> i" if "x \<noteq> 0" "x \<le> n" for x
      using holds_rows_le [OF rows, of x] that i by simp
    consider "j = 0" "k = 0" | "j = 0" "k \<noteq> 0" | "j \<noteq> 0" "k = 0" | "j \<in> {1..n}" "k \<in> {1..n}"
      using j(1,2) by fastforce
    then show ?thesis
    proof cases
      case 4
      then show ?thesis using holds_rows_inj [OF rows] j(3,4) by blast
    qed (use below j p0 in auto)
  qed
qed

lemma tree_inj: "tree cost n i h j0 \<Longrightarrow> inj_on (\<lambda>j. h_p h ! j) (in_tree n h)"
  by (rule inj_onI, rule tree_rows(2) [of cost n i h j0]) (auto simp: in_tree_def tree_def)

text \<open>Fewer rows than columns: a column is free.\<close>

lemma free_column:
  assumes "holds_rows {1..n} m p" "m < n"
  shows "\<exists>j \<in> {1..n}. p ! j = 0"
proof (rule ccontr)
  assume "\<not> ?thesis"
  then have all: "{j \<in> {1..n}. p ! j \<noteq> 0} = {1..n}" by auto
  then have "card {1..m} = card {1..n}"
    using assms(1) card_image [of "\<lambda>j. p ! j" "{1..n}"] by (metis holds_rows_def)
  then show False using assms(2) by simp
qed

lemma tree_size:
  assumes "tree cost n i h j0"
  shows "card (in_tree n h) \<le> i" and "h_p h ! j0 \<noteq> 0 \<Longrightarrow> card (in_tree n h) < i"
proof -
  have sub: "(\<lambda>j. h_p h ! j) ` in_tree n h \<subseteq> {1..i}"
    using tree_rows(1) [OF assms] assms by (auto simp: tree_def in_tree_def Suc_le_eq)
  have card: "card ((\<lambda>j. h_p h ! j) ` in_tree n h) = card (in_tree n h)" using tree_inj [OF assms] by (rule card_image)
  show "card (in_tree n h) \<le> i" using card_mono [OF _ sub] card by simp
  show "card (in_tree n h) < i" if "h_p h ! j0 \<noteq> 0"
  proof -
    have j0: "j0 \<le> n" "j0 \<notin> in_tree n h" using assms by (auto simp: tree_def)
    have "h_p h ! j0 \<in> {1..i}" using tree_rows(1) [OF assms j0(1)] that by simp
    moreover have "h_p h ! j0 \<notin> (\<lambda>j. h_p h ! j) ` in_tree n h"
    proof
      assume "h_p h ! j0 \<in> (\<lambda>j. h_p h ! j) ` in_tree n h"
      then obtain k where "k \<in> in_tree n h" "h_p h ! k = h_p h ! j0" by (metis imageE)
      then show False using tree_rows(2) [OF assms j0(1), of k] that j0(2) by (auto simp: in_tree_def)
    qed
    ultimately have "(\<lambda>j. h_p h ! j) ` in_tree n h \<subset> {1..i}" using sub by blast
    then have "card ((\<lambda>j. h_p h ! j) ` in_tree n h) < card {1..i}" by (intro psubset_card_mono) simp_all
    then show ?thesis using card by simp
  qed
qed

section \<open>One step of growth\<close>

text \<open>After the scan: \<open>minv\<close> is the smallest slack over the tree with the new column \<open>j0\<close>.\<close>

definition frontier :: "matrix \<Rightarrow> nat \<Rightarrow> nat set \<Rightarrow> hungarian \<Rightarrow> bool" where
  "frontier cost n U h \<longleftrightarrow> (\<forall>j \<in> {1..n} - U. h_way h ! j \<in> U
     \<and> h_minv h ! j = Some (slack cost h (h_p h ! (h_way h ! j)) j)
     \<and> (\<forall>k \<in> U. slack cost h (h_p h ! (h_way h ! j)) j \<le> slack cost h (h_p h ! k) j))"

lemma tree_scan:
  assumes T: "tree cost n i h j0" and p: "h_p h ! j0 \<noteq> 0"
  defines "U \<equiv> insert j0 (in_tree n h)"
  shows "\<exists>h2 d j1. fold (scan_column cost (h_p h ! j0) j0) [1..<Suc n] (h\<lparr>h_used := (h_used h)[j0 := True]\<rparr>, None, 0) = (h2, Some d, j1)
    \<and> h_u h2 = h_u h \<and> h_v h2 = h_v h \<and> h_p h2 = h_p h \<and> h_used h2 = (h_used h)[j0 := True] \<and> sized n h2
    \<and> in_tree n h2 = U \<and> frontier cost n U h2 \<and> (\<forall>j \<in> U. h_way h2 ! j = h_way h ! j)
    \<and> j1 \<in> {1..n} - U \<and> h_minv h2 ! j1 = Some d
    \<and> (\<forall>j \<in> {1..n} - U. d \<le> slack cost h2 (h_p h2 ! (h_way h2 ! j)) j)"
proof -
  define h1 where "h1 = h\<lparr>h_used := (h_used h)[j0 := True]\<rparr>"
  have j0: "j0 \<le> n" "j0 \<notin> in_tree n h" and sz: "sized n h" using T by (auto simp: tree_def)
  have sz1: "sized n h1" using sz by (simp add: h1_def sized_def)
  have used: "h_used h1 ! j \<longleftrightarrow> j \<in> U" if "j \<le> n" for j
    using that j0 sz by (auto simp: h1_def U_def in_tree_def sized_def nth_list_update)
  obtain h2 delta j1 where sc: "fold (scan_column cost (h_p h ! j0) j0) [1..<Suc n] (h1, None, 0) = (h2, delta, j1)"
    "scanned cost (h_p h ! j0) j0 n h1 h2" "best_open n h1 h2 delta j1"
    using scan_columns [OF sz1, of n cost "h_p h ! j0" j0] by blast
  have opn: "open_columns n h1 = {1..n} - U" using used by (auto simp: open_columns_def)
  have eqs: "h_u h2 = h_u h" "h_v h2 = h_v h" "h_p h2 = h_p h" "h_used h2 = (h_used h)[j0 := True]"
    using sc(2) by (simp_all add: scanned_def h1_def)
  have sl: "slack cost h1 = slack cost h" "slack cost h2 = slack cost h"
    by (simp_all add: fun_eq_iff slack_def eqs h1_def)
  have sel: "h_minv h1 = h_minv h" "h_way h1 = h_way h" by (simp_all add: h1_def)
  have sz2: "sized n h2" using sz sc(2) by (simp add: sized_def scanned_def h1_def eqs)
  have U: "in_tree n h2 = U" using used j0(1) by (auto simp: in_tree_def eqs h1_def U_def)
  have front: "frontier cost n U h2"
    unfolding frontier_def sl eqs
  proof (rule ballI)
    fix j assume j: "j \<in> {1..n} - U"
    let ?c = "slack cost h (h_p h ! j0) j"
    have m: "h_minv h2 ! j = Some (min_inf (h_minv h ! j) ?c)"
      "h_way h2 ! j = (if less_inf (Some ?c) (h_minv h ! j) then j0 else h_way h ! j)"
      using sc(2) j by (simp_all add: scanned_def opn sl sel)
    have out: "j \<in> {1..n} - in_tree n h" using j by (simp add: U_def)
    show "h_way h2 ! j \<in> U \<and> h_minv h2 ! j = Some (slack cost h (h_p h ! (h_way h2 ! j)) j)
        \<and> (\<forall>k \<in> U. slack cost h (h_p h ! (h_way h2 ! j)) j \<le> slack cost h (h_p h ! k) j)"
    proof (cases "in_tree n h = {}")
      case True
      then have "h_minv h ! j = None" using T out by (simp add: tree_def)
      with m True show ?thesis by (simp add: U_def min_inf_def)
    next
      case False
      then have "h_way h ! j \<in> in_tree n h" "h_minv h ! j = Some (slack cost h (h_p h ! (h_way h ! j)) j)"
        "\<And>k. k \<in> in_tree n h \<Longrightarrow> slack cost h (h_p h ! (h_way h ! j)) j \<le> slack cost h (h_p h ! k) j"
        using T out by (simp_all add: tree_def)
      with m show ?thesis by (force simp: U_def min_inf_def)
    qed
  qed
  have "h_p h ! j \<noteq> 0" if "j \<in> U" for j using T p that by (auto simp: U_def tree_def)
  moreover have "holds_rows {1..n} (i - 1) (h_p h)" "i - 1 < n" using T by (auto simp: tree_def)
  then obtain j where "j \<in> {1..n}" "h_p h ! j = 0" using free_column by blast
  ultimately have "j \<in> {1..n} - U" by blast
  then obtain d where d: "delta = Some d" "j1 \<in> {1..n} - U" "h_minv h2 ! j1 = Some d"
    "\<And>j x. j \<in> {1..n} - U \<Longrightarrow> h_minv h2 ! j = Some x \<Longrightarrow> d \<le> x"
    using sc(3) unfolding best_open_def opn by (cases delta) auto
  have "\<forall>j \<in> U. h_way h2 ! j = h_way h ! j" using sc(2) by (simp add: scanned_def opn sel)
  moreover have "\<forall>j \<in> {1..n} - U. d \<le> slack cost h2 (h_p h2 ! (h_way h2 ! j)) j"
    using front d(4) by (auto simp: frontier_def)
  ultimately show ?thesis using sc(1) eqs sz2 U front d by (auto simp: h1_def)
qed

text \<open>After the shift: the slacks between tree and outside move by \<open>d\<close>, those within stay.\<close>

lemma slack_shift:
  assumes "shifted d (Suc n) h h'" "sized n h" "r \<le> n" "j \<le> n"
  shows "slack cost h' r j = slack cost h r j
     - (if r \<in> (\<lambda>k. h_p h ! k) ` in_tree n h then d else 0) + (if j \<in> in_tree n h then d else 0)"
proof -
  have "(\<exists>k < Suc n. h_used h ! k \<and> h_p h ! k = r) \<longleftrightarrow> r \<in> (\<lambda>k. h_p h ! k) ` in_tree n h"
    by (auto simp: in_tree_def less_Suc_eq_le)
  moreover have "h_u h' ! r = h_u h ! r + (if \<exists>k < Suc n. h_used h ! k \<and> h_p h ! k = r then d else 0)"
    "h_v h' ! j = h_v h ! j - (if j < Suc n \<and> h_used h ! j then d else 0)"
    using assms by (simp_all only: shifted_def sized_def less_Suc_eq_le)
  moreover have "j < Suc n \<and> h_used h ! j \<longleftrightarrow> j \<in> in_tree n h" using assms(4) by (simp add: in_tree_def)
  ultimately show ?thesis by (simp only: slack_def)
qed

end
