(* ===== verification/Hungarian_Grow.thy ===== *)
theory Hungarian_Grow
  imports Hungarian
begin

text \<open>
  The growth of the alternating tree: one shift of the potentials by the smallest slack keeps
  them feasible and the tree tight, adds a column to it, and so reaches a free column in at most
  as many rounds as there are columns.
\<close>

lemma in_tree_shift: "shifted d m h h' \<Longrightarrow> in_tree n h' = in_tree n h"
  by (simp add: shifted_def in_tree_def)

lemma treeD:
  assumes "tree cost n i h j0"
  shows "j \<in> in_tree n h \<Longrightarrow> \<exists>d < card (in_tree n h). path (h_way h) (in_tree n h) d j"
    and "feasible cost n h ({1..i - 1} \<union> (if in_tree n h = {} then {} else {i}))"
    and "holds_rows {1..n} (i - 1) (h_p h)"
    and "in_tree n h \<noteq> {} \<Longrightarrow> 0 \<in> in_tree n h \<and> h_minv h ! j0 = Some 0"
    and "in_tree n h \<noteq> {} \<Longrightarrow> j \<in> {1..n} - in_tree n h \<Longrightarrow>
      h_way h ! j \<in> in_tree n h \<and> h_minv h ! j = Some (slack cost h (h_p h ! (h_way h ! j)) j)"
proof -
  note * = assms [unfolded tree_def]
  have "\<forall>j \<in> in_tree n h. \<exists>d < card (in_tree n h). path (h_way h) (in_tree n h) d j" using * by (elim conjE)
  then show "j \<in> in_tree n h \<Longrightarrow> \<exists>d < card (in_tree n h). path (h_way h) (in_tree n h) d j" by (rule bspec)
  show "feasible cost n h ({1..i - 1} \<union> (if in_tree n h = {} then {} else {i}))" using * by (elim conjE)
  show "holds_rows {1..n} (i - 1) (h_p h)" using * by (elim conjE)
  show "0 \<in> in_tree n h \<and> h_minv h ! j0 = Some 0" if "in_tree n h \<noteq> {}" using * that by (elim conjE) blast
  show "h_way h ! j \<in> in_tree n h \<and> h_minv h ! j = Some (slack cost h (h_p h ! (h_way h ! j)) j)"
    if "in_tree n h \<noteq> {}" "j \<in> {1..n} - in_tree n h" using * that by (elim conjE) blast
qed

lemma feasible_mono: "feasible cost n h A \<Longrightarrow> B \<subseteq> A \<Longrightarrow> feasible cost n h B"
  by (auto simp: feasible_def)

lemma path_in: "path way U d j \<Longrightarrow> j \<in> U"
  by (cases d) auto

lemma tree_paths:
  assumes T: "tree cost n i h j0" and "j \<in> insert j0 (in_tree n h)"
  shows "\<exists>e < card (insert j0 (in_tree n h)). path (h_way h) (insert j0 (in_tree n h)) e j
    \<and> (j \<noteq> 0 \<longrightarrow> h_way h ! j \<in> insert j0 (in_tree n h) \<and> slack cost h (h_p h ! (h_way h ! j)) j = 0)"
proof -
  let ?W = "in_tree n h" and ?U = "insert j0 (in_tree n h)"
  have j0: "j0 \<le> n" "j0 \<notin> ?W" using T by (auto simp: tree_def)
  have up: "\<exists>e < card ?W. path (h_way h) ?U e k \<and> path (h_way h) ?W e k" if k: "k \<in> ?W" for k
  proof -
    obtain e where "e < card ?W" "path (h_way h) ?W e k" using treeD(1) [OF T k] by blast
    then show ?thesis using path_mono [of "h_way h" ?W e k ?U "h_way h"] by blast
  qed
  consider "j \<in> ?W" | "j = j0" "?W = {}" | "j = j0" "?W \<noteq> {}" using assms(2) by blast
  then show ?thesis
  proof cases
    case 1
    from up [OF 1] obtain e where e: "e < card ?W" "path (h_way h) ?U e j" "path (h_way h) ?W e j" by blast
    have "h_way h ! j \<in> ?W \<and> slack cost h (h_p h ! (h_way h ! j)) j = 0" if "j \<noteq> 0"
    proof
      show "slack cost h (h_p h ! (h_way h ! j)) j = 0" using T 1 that by (simp add: tree_def)
      show "h_way h ! j \<in> ?W" using e(3) that path_in by (cases e) auto
    qed
    then show ?thesis using e j0(2) by (intro exI [of _ e]) simp
  next
    case 2
    then have "j0 = 0" using T by (simp add: tree_def)
    then show ?thesis using 2 by (intro exI [of _ 0]) simp
  next
    case 3
    have "0 \<in> ?W" using treeD(4) [OF T 3(2)] by simp
    then have "j0 \<noteq> 0" using j0(2) by metis
    then have "j0 \<in> {1..n} - ?W" using j0 by simp
    then have way: "h_way h ! j0 \<in> ?W" and "slack cost h (h_p h ! (h_way h ! j0)) j0 = 0"
      using treeD(4,5) [OF T 3(2)] by auto
    moreover from up [OF way] obtain e where "e < card ?W" "path (h_way h) ?U e (h_way h ! j0)" by blast
    ultimately show ?thesis using way 3(1) j0(2) \<open>j0 \<noteq> 0\<close> by (intro exI [of _ "Suc e"]) simp
  qed
qed

lemma tree_grow:
  assumes T: "tree cost n i h j0" and p: "h_p h ! j0 \<noteq> 0"
  shows "\<exists>h2 d j1. fold (scan_column cost (h_p h ! j0) j0) [1..<Suc n] (h\<lparr>h_used := (h_used h)[j0 := True]\<rparr>, None, 0) = (h2, Some d, j1)
    \<and> tree cost n i (fold (shift_column d) [0..<Suc n] h2) j1
    \<and> card (in_tree n (fold (shift_column d) [0..<Suc n] h2)) = Suc (card (in_tree n h))"
proof -
  let ?W = "in_tree n h"
  define U where "U = insert j0 ?W"
  from tree_scan [OF T p] obtain h2 d j1 where
    sc: "fold (scan_column cost (h_p h ! j0) j0) [1..<Suc n] (h\<lparr>h_used := (h_used h)[j0 := True]\<rparr>, None, 0) = (h2, Some d, j1)"
    and eqs: "h_u h2 = h_u h" "h_v h2 = h_v h" "h_p h2 = h_p h" and sz2: "sized n h2" and U2: "in_tree n h2 = U"
    and front: "frontier cost n U h2" and way: "\<And>j. j \<in> U \<Longrightarrow> h_way h2 ! j = h_way h ! j"
    and j1: "j1 \<in> {1..n} - U" "h_minv h2 ! j1 = Some d"
    and least: "\<And>j. j \<in> {1..n} - U \<Longrightarrow> d \<le> slack cost h2 (h_p h2 ! (h_way h2 ! j)) j"
    unfolding U_def by blast
  have sl: "slack cost h2 = slack cost h" by (simp add: fun_eq_iff slack_def eqs)
  have j0: "j0 \<le> n" "j0 \<notin> ?W" and i: "1 \<le> i" "i \<le> n" "h_p h ! 0 = i" using T by (auto simp: tree_def)
  have Un: "U \<subseteq> {..n}" using j0 by (auto simp: U_def in_tree_def)
  have root: "0 \<in> U" using T by (cases "?W = {}") (auto simp: U_def tree_def)
  have nz: "h_p h ! j \<noteq> 0" if "j \<in> U" for j using T p that by (auto simp: U_def tree_def)
  have pi: "h_p h ! j \<le> i" if "j \<le> n" for j using tree_rows(1) [OF T that] .
  have inj: "k = j" if "j \<in> U" "k \<le> n" "h_p h ! k = h_p h ! j" for j k
    using tree_rows(2) [OF T, of j k] nz [OF that(1)] that Un by auto
  define h3 where "h3 = fold (shift_column d) [0..<Suc n] h2"
  have sh: "shifted d (Suc n) h2 h3"
    unfolding h3_def
  proof (rule shift_columns [OF sz2])
    show "h_p h2 ! j \<le> n" if "j \<le> n" for j using pi [OF that] i(2) eqs by simp
    have "{j. j \<le> n \<and> h_used h2 ! j} = U" using U2 by (simp add: in_tree_def)
    then show "inj_on (\<lambda>j. h_p h2 ! j) {j. j \<le> n \<and> h_used h2 ! j}"
      using inj Un by (auto simp: inj_on_def eqs)
  qed simp
  have U3: "in_tree n h3 = U" using in_tree_shift [OF sh] U2 by simp
  have eq3: "h_p h3 = h_p h" "h_way h3 = h_way h2" "sized n h3" using sh sz2 eqs by (simp_all add: shifted_def sized_def)
  define P where "P = (\<lambda>k. h_p h ! k) ` U"
  have sl3: "slack cost h3 r j = slack cost h r j - (if r \<in> P then d else 0) + (if j \<in> U then d else 0)"
    if "r \<le> n" "j \<le> n" for r j
    using slack_shift [OF sh sz2 that, of cost] by (simp add: U2 eqs sl P_def)
  have P: "P \<subseteq> {1..i}" "i \<in> P" using nz pi Un root i(3) by (force simp: P_def Suc_le_eq)+
  have big: "?W \<noteq> {}" if "j \<in> U" "j \<noteq> 0" for j using T that by (auto simp: U_def tree_def)
  have feas: "0 \<le> slack cost h r j" if "r \<in> {1..i - 1} \<or> (r \<in> {1..i} \<and> ?W \<noteq> {})" "j \<in> {1..n}" for r j
  proof -
    have F: "feasible cost n h ({1..i - 1} \<union> (if ?W = {} then {} else {i}))" using T by (rule treeD)
    have "r \<in> {1..i - 1} \<union> (if ?W = {} then {} else {i})" using that(1) by (cases "r = i") auto
    then show ?thesis using F that(2) unfolding feasible_def by blast
  qed
  have outside: "d \<le> slack cost h (h_p h ! (h_way h2 ! j)) j" "h_way h2 ! j \<in> U"
    "h_minv h2 ! j = Some (slack cost h (h_p h ! (h_way h2 ! j)) j)"
    "\<And>k. k \<in> U \<Longrightarrow> slack cost h (h_p h ! (h_way h2 ! j)) j \<le> slack cost h (h_p h ! k) j" if "j \<in> {1..n} - U" for j
    using front least [OF that] that by (simp_all add: frontier_def sl eqs)
  have d0: "0 \<le> d" if "?W \<noteq> {}"
  proof -
    have "d = slack cost h (h_p h ! (h_way h2 ! j1)) j1" using outside(3) [OF j1(1)] j1(2) by simp
    moreover have "h_p h ! (h_way h2 ! j1) \<in> {1..i}" using P(1) outside(2) [OF j1(1)] by (auto simp: P_def)
    ultimately show ?thesis using feas that j1(1) by auto
  qed
  have feas3: "feasible cost n h3 {1..i}"
    unfolding feasible_def
  proof (intro ballI)
    fix r j assume r: "r \<in> {1..i}" and j: "j \<in> {1..n}"
    then have le: "r \<le> n" "j \<le> n" using i(2) by auto
    show "0 \<le> slack cost h3 r j"
    proof (cases "j \<in> U")
      case True
      with j big have W: "?W \<noteq> {}" by auto
      then show ?thesis using sl3 [OF le] feas [of r j] d0 r j True by (auto split: if_splits)
    next
      case False
      then have out: "j \<in> {1..n} - U" using j by blast
      show ?thesis
      proof (cases "r \<in> P")
        case True
        then obtain k where "k \<in> U" "r = h_p h ! k" by (auto simp: P_def)
        then show ?thesis using outside(1,4) [OF out] sl3 [OF le] False True by fastforce
      next
        case notP: False
        then have "r \<in> {1..i - 1}" using r P(2) by (cases "r = i") auto
        then show ?thesis using feas j sl3 [OF le] False notP by simp
      qed
    qed
  qed
  have tight3: "tight cost n h3"
    unfolding tight_def eq3
  proof (intro ballI impI)
    fix j assume j: "j \<in> {1..n}" "h_p h ! j \<noteq> 0"
    then have le: "h_p h ! j \<le> n" "j \<le> n" using pi [of j] i(2) by simp_all
    have "h_p h ! j \<in> P \<longleftrightarrow> j \<in> U" using inj le(2) by (auto simp: P_def)
    moreover have "slack cost h (h_p h ! j) j = 0" using T j by (auto simp: tree_def tight_def)
    ultimately show "slack cost h3 (h_p h ! j) j = 0" using sl3 [OF le] by simp
  qed
  have front3: "frontier cost n U h3 \<and> h_minv h3 ! j1 = Some 0"
  proof -
    have mv: "h_minv h3 ! j = map_option (\<lambda>x. x - d) (h_minv h2 ! j)" if "j \<in> {1..n} - U" for j
      using that sh sz2 U2 by (auto simp: shifted_def sized_def in_tree_def less_Suc_eq_le)
    have s3: "slack cost h3 (h_p h ! k) j = slack cost h (h_p h ! k) j - d" if "j \<in> {1..n} - U" "k \<in> U" for j k
      using that Un pi [of k] i(2) sl3 [of "h_p h ! k" j] by (auto simp: P_def)
    show ?thesis
      using outside mv s3 j1 by (auto simp: frontier_def eq3)
  qed
  have paths3: "\<exists>e < card U. path (h_way h3) U e j \<and> (j \<noteq> 0 \<longrightarrow> slack cost h3 (h_p h ! (h_way h3 ! j)) j = 0)"
    if "j \<in> U" for j
  proof -
    obtain e where e: "e < card U" "path (h_way h) U e j" "j \<noteq> 0 \<longrightarrow> h_way h ! j \<in> U \<and> slack cost h (h_p h ! (h_way h ! j)) j = 0"
      using tree_paths [OF T \<open>j \<in> U\<close> [unfolded U_def]] unfolding U_def by blast
    have "path (h_way h3) U e j" using path_mono [OF e(2) subset_refl] way eq3(2) by simp
    moreover have "slack cost h3 (h_p h ! (h_way h3 ! j)) j = 0" if "j \<noteq> 0"
    proof -
      have w: "h_way h ! j \<in> U" "slack cost h (h_p h ! (h_way h ! j)) j = 0" using e(3) that by simp_all
      then have "h_p h ! (h_way h ! j) \<le> n" "j \<le> n" "h_p h ! (h_way h ! j) \<in> P"
        using pi [of "h_way h ! j"] Un i(2) \<open>j \<in> U\<close> by (auto simp: P_def)
      then show ?thesis using sl3 w way \<open>j \<in> U\<close> eq3(2) by simp
    qed
    ultimately show ?thesis using e(1) by blast
  qed
  have "tree cost n i h3 j1"
    unfolding tree_def U3 eq3(1)
  proof (intro conjI impI ballI)
    show "holds_rows {1..n} (i - 1) (h_p h)" using T by (rule treeD)
    show "feasible cost n h3 ({1..i - 1} \<union> (if U = {} then {} else {i}))"
      using feas3 i(1) root by (elim feasible_mono) auto
    show "\<exists>d < card U. path (h_way h3) U d j" if "j \<in> U" for j using paths3 [OF that] by blast
    show "slack cost h3 (h_p h ! (h_way h3 ! j)) j = 0" if "j \<in> U" "j \<noteq> 0" for j using paths3 that by blast
  qed (use i eq3 j1(1) nz root tight3 front3 in \<open>auto simp: frontier_def\<close>)
  moreover have "card (in_tree n h3) = Suc (card ?W)" using U3 j0(2) by (simp add: U_def)
  ultimately show ?thesis using sc h3_def by blast
qed

text \<open>The tree reaches a free column within as many steps as rows were added.\<close>

lemma grow_spec:
  assumes "tree cost n i h j0" "i < k + card (in_tree n h)"
  shows "\<exists>h' j. grow cost n k h j0 = Inr (h', j) \<and> tree cost n i h' j \<and> h_p h' ! j = 0"
  using assms
proof (induction k arbitrary: h j0)
  case 0
  then show ?case using tree_size(1) [OF "0.prems"(1)] by simp
next
  case (Suc k)
  show ?case
  proof (cases "h_p h ! j0 = 0")
    case True
    then show ?thesis using Suc.prems by simp
  next
    case False
    from tree_grow [OF Suc.prems(1) False] obtain h2 d j1 where
      sc: "fold (scan_column cost (h_p h ! j0) j0) [1..<Suc n] (h\<lparr>h_used := (h_used h)[j0 := True]\<rparr>, None, 0) = (h2, Some d, j1)"
      and T: "tree cost n i (fold (shift_column d) [0..<Suc n] h2) j1"
        "card (in_tree n (fold (shift_column d) [0..<Suc n] h2)) = Suc (card (in_tree n h))" by blast
    from sc False have "grow cost n (Suc k) h j0 = grow cost n k (fold (shift_column d) [0..<Suc n] h2) j1"
      by (simp del: upt_Suc)
    then show ?thesis using Suc.IH [OF T(1)] T(2) Suc.prems(2) by simp
  qed
qed

end
