(* ===== verification/Hungarian_Correct.thy ===== *)
theory Hungarian_Correct
  imports Hungarian_Grow
begin

text \<open>
  The augmentation along the tree, the loop over the rows, and the optimality of the
  assignment it leaves.
\<close>

section \<open>Augmentation\<close>

text \<open>Moving the row of column \<open>w\<close> into the hole \<open>j\<close> makes \<open>w\<close> the hole.\<close>

lemma holds_rows_move:
  assumes H: "holds_rows (C - {j}) i p" and j: "j \<in> C" "j < length p" and w: "w \<in> C" "w \<noteq> j" "p ! w \<noteq> 0"
  shows "holds_rows (C - {w}) i (p[j := p ! w])"
proof -
  let ?p = "p[j := p ! w]"
  define A where "A = {k \<in> C - {j}. p ! k \<noteq> 0}"
  have A: "(\<lambda>k. p ! k) ` A = {1..i}" "inj_on (\<lambda>k. p ! k) A" "w \<in> A" "j \<notin> A"
    using H w by (auto simp: holds_rows_def A_def)
  have new: "{k \<in> C - {w}. ?p ! k \<noteq> 0} = insert j (A - {w})"
    using j w by (auto simp: A_def nth_list_update)
  have same: "?p ! k = p ! k" if "k \<in> A" for k using that A(4) by (cases "k = j") auto
  have "(\<lambda>k. ?p ! k) ` insert j (A - {w}) = insert (p ! w) ((\<lambda>k. p ! k) ` (A - {w}))"
    using j(2) same by auto
  also have "\<dots> = {1..i}" using A(1,3) by auto
  finally have img: "(\<lambda>k. ?p ! k) ` insert j (A - {w}) = {1..i}" .
  have "inj_on (\<lambda>k. ?p ! k) (insert j (A - {w}))"
  proof (rule inj_onI)
    fix x y assume x: "x \<in> insert j (A - {w})" and y: "y \<in> insert j (A - {w})" and eq: "?p ! x = ?p ! y"
    show "x = y"
      using x y eq same j(2) A(3,4) inj_onD [OF A(2), of x y] inj_onD [OF A(2), of w x] inj_onD [OF A(2), of w y]
      by (cases "x = j"; cases "y = j") auto
  qed
  then show ?thesis using img unfolding holds_rows_def new by blast
qed

definition hole :: "(nat \<Rightarrow> nat \<Rightarrow> int) \<Rightarrow> nat \<Rightarrow> nat \<Rightarrow> nat list \<Rightarrow> nat set \<Rightarrow> nat list \<Rightarrow> nat \<Rightarrow> nat \<Rightarrow> bool" where
  "hole S n i way U p e j \<longleftrightarrow> length p = Suc n \<and> U \<subseteq> {..n} \<and> path way U e j \<and> holds_rows ({..n} - {j}) i p
     \<and> (\<forall>k \<in> {1..n} - {j}. p ! k \<noteq> 0 \<longrightarrow> S (p ! k) k = 0)
     \<and> (\<forall>d k. path way U d k \<longrightarrow> d < e \<longrightarrow> p ! k \<noteq> 0)
     \<and> (\<forall>d k. path way U d k \<longrightarrow> d \<le> e \<longrightarrow> k \<noteq> 0 \<longrightarrow> S (p ! (way ! k)) k = 0)"

lemma hole_step:
  assumes H: "hole S n i way U p (Suc e) j"
  shows "hole S n i way U (p[j := p ! (way ! j)]) e (way ! j)"
proof -
  let ?w = "way ! j" and ?p = "p[j := p ! (way ! j)]"
  have j: "j \<noteq> 0" "j \<in> U" "path way U e ?w" "j \<le> n" "path way U (Suc e) j"
    using H by (auto simp: hole_def)
  have w: "?w \<in> U" "?w \<le> n" using path_in [OF j(3)] H by (auto simp: hole_def)
  have off: "k \<noteq> j" if "path way U d k" "d \<le> e" for d k using path_unique [OF that(1)] j(5) that(2) by fastforce
  have wj: "?w \<noteq> j" using off [OF j(3)] by simp
  have pw: "p ! ?w \<noteq> 0" using H j(3) by (auto simp: hole_def)
  show ?thesis
    unfolding hole_def
  proof (intro conjI allI ballI impI)
    show "holds_rows ({..n} - {?w}) i ?p"
      by (rule holds_rows_move) (use H j w wj pw in \<open>auto simp: hole_def\<close>)
    have "S (p ! ?w) j = 0" using H j(1,5) unfolding hole_def by blast
    then show "S (?p ! k) k = 0" if "k \<in> {1..n} - {?w}" "?p ! k \<noteq> 0" for k
      using H that j by (cases "k = j") (auto simp: hole_def)
    show "?p ! k \<noteq> 0" if "path way U d k" "d < e" for d k using H that off [of d k] by (auto simp: hole_def)
    show "S (?p ! (way ! k)) k = 0" if k: "path way U d k" "d \<le> e" "k \<noteq> 0" for d k
    proof -
      from k obtain d' where "d = Suc d'" "path way U d' (way ! k)" by (cases d) auto
      then have "way ! k \<noteq> j" using off [of d' "way ! k"] k(2) by simp
      then show ?thesis using H k by (auto simp: hole_def)
    qed
  qed (use H j in \<open>auto simp: hole_def\<close>)
qed

lemma augment_spec:
  assumes "hole S n i way U p e j" "e \<le> k"
  shows "\<exists>p'. augment k way p j = Inr p' \<and> length p' = Suc n \<and> holds_rows {1..n} i p'
    \<and> (\<forall>j \<in> {1..n}. p' ! j \<noteq> 0 \<longrightarrow> S (p' ! j) j = 0)"
  using assms
proof (induction e arbitrary: p j k)
  case 0
  have "{..n} - {0} = {1..n}" by auto
  then show ?case using 0 by (auto simp: hole_def augment.simps)
next
  case (Suc e)
  then obtain k' where k: "k = Suc k'" "e \<le> k'" by (cases k) auto
  have "j \<noteq> 0" using Suc.prems by (simp add: hole_def)
  then have "augment k way p j = augment k' way (p[j := p ! (way ! j)]) (way ! j)"
    using k by (simp add: augment.simps)
  then show ?case using Suc.IH [OF hole_step [OF Suc.prems(1)] k(2)] by simp
qed

section \<open>The loop over the rows\<close>

definition rows_done :: "matrix \<Rightarrow> nat \<Rightarrow> nat \<Rightarrow> hungarian \<Rightarrow> bool" where
  "rows_done cost n i h \<longleftrightarrow> length (h_u h) = Suc n \<and> length (h_v h) = Suc n \<and> length (h_p h) = Suc n
     \<and> length (h_way h) = Suc n \<and> holds_rows {1..n} i (h_p h) \<and> feasible cost n h {1..i} \<and> tight cost n h"

lemma start_tree:
  assumes R: "rows_done cost n i h" and "i < n"
  shows "tree cost n (Suc i)
    (h\<lparr>h_p := (h_p h)[0 := Suc i], h_minv := replicate (Suc n) None, h_used := replicate (Suc n) False\<rparr>) 0"
    (is "tree _ _ _ ?h _")
proof -
  note replicate_Suc [simp del]
  have U: "in_tree n ?h = {}" by (auto simp: in_tree_def)
  have p: "(h_p h)[0 := Suc i] ! j = h_p h ! j" if "j \<noteq> 0" for j using that by simp
  have sl: "slack cost ?h = slack cost h" by (simp add: fun_eq_iff slack_def)
  have "{j \<in> {1..n}. (h_p h)[0 := Suc i] ! j \<noteq> 0} = {j \<in> {1..n}. h_p h ! j \<noteq> 0}" using p by auto
  then have rows: "holds_rows {1..n} i ((h_p h)[0 := Suc i])"
    using R p by (auto simp: rows_done_def holds_rows_def inj_on_def image_def)
  have "tight cost n ?h" using R p by (auto simp: tight_def sl rows_done_def)
  moreover have "feasible cost n ?h {1..i}" using R by (simp add: feasible_def sl rows_done_def)
  ultimately show ?thesis
    using R rows \<open>i < n\<close> unfolding tree_def U
    by (auto simp: rows_done_def sized_def)
qed

lemma tree_hole:
  assumes T: "tree cost n i h j" and free: "h_p h ! j = 0"
  shows "\<exists>e \<le> n. hole (slack cost h) n i (h_way h) (insert j (in_tree n h)) (h_p h) e j"
proof -
  let ?U = "insert j (in_tree n h)"
  have sz: "sized n h" and i: "1 \<le> i" "h_p h ! 0 = i" and j: "j \<le> n" "j \<notin> in_tree n h"
    and nz: "\<And>k. k \<in> in_tree n h \<Longrightarrow> h_p h ! k \<noteq> 0" and ti: "tight cost n h" using T by (simp_all add: tree_def)
  have U: "?U \<subseteq> {..n}" using j by (auto simp: in_tree_def)
  have paths: "\<exists>e < card ?U. path (h_way h) ?U e k"
    "k \<noteq> 0 \<Longrightarrow> slack cost h (h_p h ! (h_way h ! k)) k = 0" if "k \<in> ?U" for k
    using tree_paths [OF T that] by blast+
  obtain e where e: "e < card ?U" "path (h_way h) ?U e j" using paths(1) [of j] by blast
  have "card ?U \<le> card {..n}" using U by (intro card_mono) simp_all
  then have "e \<le> n" using e(1) by simp
  have "j \<noteq> 0" using i free by (cases "j = 0") simp_all
  have rows: "holds_rows {1..n} (i - 1) (h_p h)" using T by (rule treeD)
  have A: "{k \<in> {..n} - {j}. h_p h ! k \<noteq> 0} = insert 0 {k \<in> {1..n}. h_p h ! k \<noteq> 0}"
    using free i \<open>j \<noteq> 0\<close> by (auto simp: Suc_le_eq)
  have "(\<lambda>k. h_p h ! k) ` insert 0 {k \<in> {1..n}. h_p h ! k \<noteq> 0} = insert i {1..i - 1}"
    using rows i(2) by (simp add: holds_rows_def)
  also have "\<dots> = {1..i}" using i(1) by auto
  finally have img: "(\<lambda>k. h_p h ! k) ` {k \<in> {..n} - {j}. h_p h ! k \<noteq> 0} = {1..i}" unfolding A .
  have inj: "inj_on (\<lambda>k. h_p h ! k) {k \<in> {..n} - {j}. h_p h ! k \<noteq> 0}"
    by (rule inj_onI) (use tree_rows(2) [OF T] in auto)
  have "hole (slack cost h) n i (h_way h) ?U (h_p h) e j"
    unfolding hole_def
  proof (intro conjI allI ballI impI)
    show "holds_rows ({..n} - {j}) i (h_p h)" using img inj by (simp add: holds_rows_def)
    show "h_p h ! k \<noteq> 0" if "path (h_way h) ?U d k" "d < e" for d k
      using path_in [OF that(1)] nz path_unique [OF that(1)] e(2) that(2) by (cases "k = j") auto
    show "slack cost h (h_p h ! (h_way h ! k)) k = 0" if "path (h_way h) ?U d k" "d \<le> e" "k \<noteq> 0" for d k
      using paths(2) path_in [OF that(1)] that(3) by blast
  qed (use sz U e(2) ti in \<open>auto simp: sized_def tight_def\<close>)
  then show ?thesis using \<open>e \<le> n\<close> by blast
qed

lemma row_step_spec:
  assumes R: "rows_done cost n i h" and "i < n"
  shows "\<exists>h'. row_step cost n h (Suc i) = Inr h' \<and> rows_done cost n (Suc i) h'"
proof -
  let ?h = "h\<lparr>h_p := (h_p h)[0 := Suc i], h_minv := replicate (Suc n) None, h_used := replicate (Suc n) False\<rparr>"
  obtain h' j where g: "grow cost n (Suc n) ?h 0 = Inr (h', j)" and T: "tree cost n (Suc i) h' j" "h_p h' ! j = 0"
    using grow_spec [OF start_tree [OF R \<open>i < n\<close>], of "Suc n"] \<open>i < n\<close> by auto
  from tree_hole [OF T] obtain e where "e \<le> Suc n"
    "hole (slack cost h') n (Suc i) (h_way h') (insert j (in_tree n h')) (h_p h') e j" by (auto intro: le_SucI)
  from augment_spec [OF this(2,1)] obtain p' where a: "augment (Suc n) (h_way h') (h_p h') j = Inr p'" "length p' = Suc n"
    "holds_rows {1..n} (Suc i) p'" "\<And>j. j \<in> {1..n} \<Longrightarrow> p' ! j \<noteq> 0 \<Longrightarrow> slack cost h' (p' ! j) j = 0" by blast
  have sl: "slack cost (h'\<lparr>h_p := p'\<rparr>) = slack cost h'" by (simp add: fun_eq_iff slack_def)
  have "h_p h' ! 0 = Suc i" using T(1) by (simp add: tree_def)
  then have "j \<noteq> 0" using T(2) by (cases "j = 0") simp_all
  then have "in_tree n h' \<noteq> {}" using T(1) by (auto simp: tree_def)
  then have "feasible cost n h' {1..Suc i}" using treeD(2) [OF T(1)] by (elim feasible_mono) auto
  then have "rows_done cost n (Suc i) (h'\<lparr>h_p := p'\<rparr>)"
    using a T(1) by (simp add: rows_done_def feasible_def tight_def sl tree_def sized_def)
  moreover have "row_step cost n h (Suc i) = Inr (h'\<lparr>h_p := p'\<rparr>)"
    using g a(1) by (simp add: row_step_def del: grow.simps augment.simps replicate_Suc)
  ultimately show ?thesis by blast
qed

lemma all_rows:
  "m \<le> n \<Longrightarrow> \<exists>h. foldE (row_step cost n) (init_hungarian n) [1..<Suc m] = Inr h \<and> rows_done cost n m h"
proof (induction m)
  case 0
  have zero: "h_p (init_hungarian n) ! j = 0" if "j \<le> n" for j
    using that by (simp add: init_hungarian_def del: replicate_Suc)
  then have "{j \<in> {1..n}. h_p (init_hungarian n) ! j \<noteq> 0} = {}" by auto
  then have "holds_rows {1..n} 0 (h_p (init_hungarian n))" by (simp only: holds_rows_def) simp
  moreover have "tight cost n (init_hungarian n)" using zero by (simp add: tight_def)
  ultimately show ?case by (simp add: rows_done_def feasible_def) (simp add: init_hungarian_def)
next
  case (Suc m)
  then obtain h where "foldE (row_step cost n) (init_hungarian n) [1..<Suc m] = Inr h" "rows_done cost n m h" by auto
  then show ?case using row_step_spec [of cost n m h] Suc.prems by (auto simp: foldE_append)
qed

section \<open>Optimality\<close>

definition square :: "matrix \<Rightarrow> bool" where
  "square cost \<longleftrightarrow> (\<forall>row \<in> set cost. length row = length cost)"

definition permutes_below :: "nat \<Rightarrow> (nat \<Rightarrow> nat) \<Rightarrow> bool" where
  "permutes_below n q \<longleftrightarrow> bij_betw q {..<n} {..<n}"

definition cost_of :: "matrix \<Rightarrow> (nat \<Rightarrow> nat) \<Rightarrow> int" where
  "cost_of cost q = (\<Sum>i < length cost. cost ! i ! q i)"

lemma full_rows:
  assumes "holds_rows {1..n} n p"
  shows "bij_betw (\<lambda>j. p ! j) {1..n} {1..n}"
proof -
  let ?A = "{j \<in> {1..n}. p ! j \<noteq> 0}"
  have "card ?A = card {1..n}" using assms card_image [of "\<lambda>j. p ! j" ?A] by (simp add: holds_rows_def)
  then have "?A = {1..n}" by (intro card_subset_eq) auto
  then show ?thesis using assms by (simp add: holds_rows_def bij_betw_def)
qed

lemma row_to_col_spec:
  assumes "bij_betw (\<lambda>j. p ! j) {1..n} {1..n}" "m \<le> n"
  shows "length (fold (\<lambda>j r. r[p ! j - 1 := j - 1]) [1..<Suc m] (replicate n 0)) = n
    \<and> (\<forall>j \<in> {1..m}. fold (\<lambda>j r. r[p ! j - 1 := j - 1]) [1..<Suc m] (replicate n 0) ! (p ! j - 1) = j - 1)"
  using assms(2)
proof (induction m)
  case (Suc m)
  have range: "p ! j \<in> {1..n}" if "j \<in> {1..n}" for j using assms(1) that by (auto simp: bij_betw_def)
  have "p ! j - 1 \<noteq> p ! Suc m - 1" if "j \<in> {1..m}" for j
  proof -
    have "p ! j \<noteq> p ! Suc m" using assms(1) that Suc.prems by (auto simp: bij_betw_def dest: inj_onD)
    then show ?thesis using range [of j] range [of "Suc m"] that Suc.prems by auto
  qed
  note other = this
  have here: "p ! Suc m - 1 < n" using range [of "Suc m"] Suc.prems by auto
  let ?F = "\<lambda>m. fold (\<lambda>j r. r[p ! j - 1 := j - 1]) [1..<Suc m] (replicate n 0)"
  have step: "?F (Suc m) = (?F m)[p ! Suc m - 1 := Suc m - 1]" by simp
  have len: "length (?F m) = n" and IH: "\<And>j. j \<in> {1..m} \<Longrightarrow> ?F m ! (p ! j - 1) = j - 1" using Suc by auto
  have "?F (Suc m) ! (p ! j - 1) = j - 1" if "j \<in> {1..Suc m}" for j
    unfolding step
  proof (cases "j = Suc m")
    case True
    then show "(?F m)[p ! Suc m - 1 := Suc m - 1] ! (p ! j - 1) = j - 1" using here len by simp
  next
    case False
    then have "j \<in> {1..m}" using that by auto
    then show "(?F m)[p ! Suc m - 1 := Suc m - 1] ! (p ! j - 1) = j - 1"
      using IH [OF \<open>j \<in> {1..m}\<close>] other [OF \<open>j \<in> {1..m}\<close>] by (simp del: upt_Suc)
  qed
  then show ?case using len step by simp
qed simp

lemma potentials_bound:
  assumes "\<And>i j. i < n \<Longrightarrow> j < n \<Longrightarrow> (u i :: int) + v j \<le> c i j" "permutes_below n q"
  shows "(\<Sum>i < n. u i) + (\<Sum>j < n. v j) \<le> (\<Sum>i < n. c i (q i))"
proof -
  have "(\<Sum>j < n. v j) = (\<Sum>i < n. v (q i))" using assms(2) by (simp add: permutes_below_def sum.reindex_bij_betw)
  then have "(\<Sum>i < n. u i) + (\<Sum>j < n. v j) = (\<Sum>i < n. u i + v (q i))" by (simp add: sum.distrib)
  also have "\<dots> \<le> (\<Sum>i < n. c i (q i))"
    using assms by (intro sum_mono) (auto simp: permutes_below_def bij_betw_def)
  finally show ?thesis .
qed

lemma min_cost_assignment_optimal:
  "\<exists>total column. min_cost_assignment cost = Inr (total, column) \<and> length column = length cost
    \<and> permutes_below (length cost) ((!) column) \<and> total = cost_of cost ((!) column)
    \<and> (\<forall>q. permutes_below (length cost) q \<longrightarrow> total \<le> cost_of cost q)"
proof -
  define n where "n = length cost"
  obtain h where h: "foldE (row_step cost n) (init_hungarian n) [1..<Suc n] = Inr h" "rows_done cost n n h"
    using all_rows [of n n cost] by blast
  define col where "col = fold (\<lambda>j r. r[h_p h ! j - 1 := j - 1]) [1..<Suc n] (replicate n 0)"
  have bij: "bij_betw (\<lambda>j. h_p h ! j) {1..n} {1..n}" using h(2) by (intro full_rows) (simp add: rows_done_def)
  have col: "length col = n" "\<And>j. j \<in> {1..n} \<Longrightarrow> col ! (h_p h ! j - 1) = j - 1"
    using row_to_col_spec [OF bij, of n] by (simp_all add: col_def)
  have inv: "\<exists>j \<in> {1..n}. h_p h ! j = Suc i \<and> col ! i = j - 1" if "i < n" for i
  proof -
    have "Suc i \<in> (\<lambda>j. h_p h ! j) ` {1..n}" using bij that by (simp add: bij_betw_def)
    then obtain j where j: "j \<in> {1..n}" "h_p h ! j = Suc i" by (metis (no_types, lifting) imageE)
    then show ?thesis using col(2) [OF j(1)] by auto
  qed
  have "inj_on ((!) col) {..<n}"
  proof (rule inj_onI)
    fix x y assume "x \<in> {..<n}" "y \<in> {..<n}" and eq: "col ! x = col ! y"
    then obtain j k where "j \<in> {1..n}" "k \<in> {1..n}" "h_p h ! j = Suc x" "h_p h ! k = Suc y" "col ! x = j - 1" "col ! y = k - 1"
      using inv by (metis lessThan_iff)
    moreover from this eq have "j = k" by auto
    ultimately show "x = y" by simp
  qed
  moreover have "(!) col ` {..<n} \<subseteq> {..<n}" using inv by force
  ultimately have perm: "permutes_below n ((!) col)"
    by (simp add: permutes_below_def bij_betw_def endo_inj_surj)
  have tight: "cost ! i ! (col ! i) = h_u h ! Suc i + h_v h ! Suc (col ! i)" if i: "i < n" for i
  proof -
    obtain j where j: "j \<in> {1..n}" "h_p h ! j = Suc i" "col ! i = j - 1" using inv [OF i] by blast
    have "\<forall>j \<in> {1..n}. h_p h ! j \<noteq> 0 \<longrightarrow> slack cost h (h_p h ! j) j = 0"
      using h(2) unfolding rows_done_def tight_def by (elim conjE)
    then have "slack cost h (Suc i) j = 0" using j by force
    moreover have "Suc (col ! i) = j" using j by auto
    ultimately show ?thesis using j by (simp add: slack_def)
  qed
  have feas: "h_u h ! Suc i + h_v h ! Suc j \<le> cost ! i ! j" if "i < n" "j < n" for i j
    using h(2) that by (force simp: rows_done_def feasible_def slack_def dest: bspec [of _ _ "Suc i"] bspec [of _ _ "Suc j"])
  have "cost_of cost ((!) col) = (\<Sum>i < n. h_u h ! Suc i) + (\<Sum>i < n. h_v h ! Suc (col ! i))"
    using tight by (simp add: cost_of_def flip: n_def sum.distrib)
  also have "(\<Sum>i < n. h_v h ! Suc (col ! i)) = (\<Sum>j < n. h_v h ! Suc j)"
    using perm sum.reindex_bij_betw [of "(!) col" "{..<n}" "{..<n}" "\<lambda>j. h_v h ! Suc j"]
    by (simp only: permutes_below_def)
  finally have total: "cost_of cost ((!) col) \<le> cost_of cost q" if "permutes_below n q" for q
    using potentials_bound [OF feas that] by (simp add: cost_of_def flip: n_def)
  have "min_cost_assignment cost = Inr (\<Sum>i\<leftarrow>[0..<n]. cost ! i ! (col ! i), col)"
    using h(1) by (simp add: min_cost_assignment_def Let_def col_def del: upt_Suc flip: n_def)
  moreover have "(\<Sum>i\<leftarrow>[0..<n]. cost ! i ! (col ! i)) = cost_of cost ((!) col)"
    by (simp add: cost_of_def interv_sum_list_conv_sum_set_nat atLeast0LessThan flip: n_def)
  ultimately show ?thesis using total perm col(1) unfolding n_def
    by (intro exI [of _ "cost_of cost ((!) col)"] exI [of _ col] conjI allI impI) simp_all
qed

text \<open>
  C25 On a square matrix \<open>_min_cost_assignment\<close> always returns: no assertion fails, no infinite
  step is taken, the augmenting walk ends.  What it returns is a permutation of the columns
  with its total cost, and no permutation costs less.
\<close>

theorem min_cost_assignment_correct:
  assumes "square cost"
  shows "\<exists>total column. min_cost_assignment cost = Inr (total, column) \<and> length column = length cost
    \<and> permutes_below (length cost) ((!) column) \<and> total = cost_of cost ((!) column)
    \<and> (\<forall>q. permutes_below (length cost) q \<longrightarrow> total \<le> cost_of cost q)"
  by (rule min_cost_assignment_optimal)

end
