(* ===== verification/Resolve.thy ===== *)
theory Resolve
  imports Hungarian_Correct
begin

text \<open>
  What the decisions of one component mean: the square matrix of \<open>_resolve\<close> has exactly the
  matchings of the component as its permutations without a forbidden cell, so its optimum is the
  heaviest matching, and a record is decided exactly when every matching within the margin of
  the optimum agrees on it.
\<close>

section \<open>Matchings\<close>

type_synonym pairing = "(string \<times> string) set"

definition weight_of :: "weights \<Rightarrow> string \<times> string \<Rightarrow> int" where
  "weight_of weights e = (case map_of weights e of None \<Rightarrow> 0 | Some w \<Rightarrow> w)"

definition edges_between :: "string list \<Rightarrow> string list \<Rightarrow> weights \<Rightarrow> pairing" where
  "edges_between ls rs weights = {e \<in> set ls \<times> set rs. map_of weights e \<noteq> None}"

definition matching :: "string list \<Rightarrow> string list \<Rightarrow> weights \<Rightarrow> pairing \<Rightarrow> bool" where
  "matching ls rs weights M \<longleftrightarrow> M \<subseteq> edges_between ls rs weights \<and> inj_on fst M \<and> inj_on snd M"

definition total_weight :: "weights \<Rightarrow> pairing \<Rightarrow> int" where
  "total_weight weights M = (\<Sum>e \<in> M. weight_of weights e)"

text \<open>The matchings within the margin of a total.\<close>

definition near_optimal :: "string list \<Rightarrow> string list \<Rightarrow> weights \<Rightarrow> int \<Rightarrow> pairing set" where
  "near_optimal ls rs weights least = {M. matching ls rs weights M \<and> total_weight weights M \<ge> least}"

text \<open>A component: ids are distinct, weights positive, and every record has an edge.\<close>

definition solvable :: "string list \<Rightarrow> string list \<Rightarrow> weights \<Rightarrow> bool" where
  "solvable ls rs weights \<longleftrightarrow> distinct ls \<and> distinct rs
     \<and> (\<forall>e \<in> edges_between ls rs weights. 1 \<le> weight_of weights e)
     \<and> (\<forall>x \<in> set ls. \<exists>y \<in> set rs. map_of weights (x, y) \<noteq> None)
     \<and> (\<forall>y \<in> set rs. \<exists>x \<in> set ls. map_of weights (x, y) \<noteq> None)"

lemma finite_edges [simp]: "finite (edges_between ls rs weights)"
  by (rule finite_subset [of _ "set ls \<times> set rs"]) (auto simp: edges_between_def)

lemma matching_finite: "matching ls rs weights M \<Longrightarrow> finite M"
  by (meson finite_edges finite_subset matching_def)

lemma matching_empty: "matching ls rs weights {}"
  by (simp add: matching_def)

lemma matching_single: "e \<in> edges_between ls rs weights \<Longrightarrow> matching ls rs weights {e}"
  by (simp add: matching_def)

section \<open>Permutations and matchings\<close>

text \<open>The column of each row, when the matching is carried out and everyone else stays alone.\<close>

definition perm_of :: "string list \<Rightarrow> string list \<Rightarrow> pairing \<Rightarrow> nat \<Rightarrow> nat" where
  "perm_of ls rs M row =
     (let nl = length ls; nr = length rs in
      if row < nl then
        (case find (\<lambda>j. (ls ! row, rs ! j) \<in> M) [0..<nr] of Some j \<Rightarrow> j | None \<Rightarrow> nr + row)
      else
        (case find (\<lambda>i. (ls ! i, rs ! (row - nl)) \<in> M) [0..<nl] of Some i \<Rightarrow> nr + i | None \<Rightarrow> row - nl))"

lemma find_upt_Some: "find P [0..<n] = Some k \<Longrightarrow> k < n \<and> P k"
  by (auto simp: find_Some_iff)

lemma find_upt_None: "find P [0..<n] = None \<Longrightarrow> i < n \<Longrightarrow> \<not> P i"
  by (auto simp: find_None_iff)

lemma find_upt_unique:
  assumes "P k" "k < n" "\<And>i. i < n \<Longrightarrow> P i \<Longrightarrow> i = k"
  shows "find P [0..<n] = Some k"
proof (cases "find P [0..<n]")
  case None
  from find_upt_None [OF None assms(2)] show ?thesis using assms(1) by contradiction
next
  case (Some j)
  then show ?thesis using find_upt_Some [OF Some] assms(3) by simp
qed

lemma find_upt_none: "(\<And>i. i < n \<Longrightarrow> \<not> P i) \<Longrightarrow> find P [0..<n] = None"
  by (simp add: find_None_iff)

lemma matching_same:
  assumes "matching ls rs weights M" "(x, y) \<in> M" "(x', y') \<in> M"
  shows "x = x' \<longleftrightarrow> y = y'"
  using assms inj_onD [of fst M "(x, y)" "(x', y')"] inj_onD [of snd M "(x, y)" "(x', y')"]
  by (auto simp: matching_def)

lemma matching_index:
  assumes "matching ls rs weights M" "distinct ls" "distinct rs" "(ls ! i, rs ! j) \<in> M" "(ls ! i', rs ! j') \<in> M"
    and "i < length ls" "i' < length ls" "j < length rs" "j' < length rs"
  shows "i = i' \<longleftrightarrow> j = j'"
  using matching_same [OF assms(1,4,5)] assms by (simp add: nth_eq_iff_index_eq)

lemma matching_partner:
  assumes M: "matching ls rs weights M" "distinct ls" "distinct rs"
    and e: "(ls ! i, rs ! j) \<in> M" "i < length ls" "j < length rs"
  shows "perm_of ls rs M i = j" "perm_of ls rs M (length ls + j) = length rs + i"
proof -
  have "find (\<lambda>j. (ls ! i, rs ! j) \<in> M) [0..<length rs] = Some j"
    by (rule find_upt_unique) (use e matching_index [OF M e(1) _ e(2,2,3)] in blast)+
  then show "perm_of ls rs M i = j" using e(2) by (simp add: perm_of_def)
  have "find (\<lambda>i. (ls ! i, rs ! j) \<in> M) [0..<length ls] = Some i"
    by (rule find_upt_unique) (use e matching_index [OF M e(1) _ e(2) _ e(3,3)] in blast)+
  then show "perm_of ls rs M (length ls + j) = length rs + i" by (simp add: perm_of_def)
qed

lemma perm_left_cases:
  assumes "i < length ls"
  obtains (alone) "perm_of ls rs M i = length rs + i" "\<And>j. j < length rs \<Longrightarrow> (ls ! i, rs ! j) \<notin> M"
    | (paired) j where "j < length rs" "perm_of ls rs M i = j" "(ls ! i, rs ! j) \<in> M"
proof (cases "find (\<lambda>j. (ls ! i, rs ! j) \<in> M) [0..<length rs]")
  case None
  then show ?thesis using alone find_upt_None [OF None] assms by (simp add: perm_of_def)
next
  case (Some j)
  then show ?thesis using paired find_upt_Some [OF Some] assms by (simp add: perm_of_def)
qed

lemma perm_right_cases:
  assumes "j < length rs"
  obtains (alone) "perm_of ls rs M (length ls + j) = j" "\<And>i. i < length ls \<Longrightarrow> (ls ! i, rs ! j) \<notin> M"
    | (paired) i where "i < length ls" "perm_of ls rs M (length ls + j) = length rs + i" "(ls ! i, rs ! j) \<in> M"
proof (cases "find (\<lambda>i. (ls ! i, rs ! j) \<in> M) [0..<length ls]")
  case None
  then show ?thesis using alone find_upt_None [OF None] by (simp add: perm_of_def)
next
  case (Some i)
  then show ?thesis using paired find_upt_Some [OF Some] by (simp add: perm_of_def)
qed

lemma perm_of_inj:
  assumes M: "matching ls rs weights M" "distinct ls" "distinct rs"
    and r: "r < length ls + length rs" "r' < length ls + length rs" "perm_of ls rs M r = perm_of ls rs M r'"
  shows "r = r'"
proof -
  have right: "\<exists>j. k = length ls + j \<and> j < length rs" if "k < length ls + length rs" "\<not> k < length ls" for k
    using that by (intro exI [of _ "k - length ls"]) simp
  have mixed: "perm_of ls rs M i \<noteq> perm_of ls rs M (length ls + j)" if i: "i < length ls" and j: "j < length rs" for i j
    by (rule perm_left_cases [OF i, of rs M]; rule perm_right_cases [OF j, of ls M]) (use i j in auto)
  consider (ll) "r < length ls" "r' < length ls" | (lr) "r < length ls" "\<not> r' < length ls"
    | (rl) "\<not> r < length ls" "r' < length ls" | (rr) "\<not> r < length ls" "\<not> r' < length ls" by blast
  then show ?thesis
  proof cases
    case ll
    show ?thesis
    proof (rule perm_left_cases [OF ll(1), of rs M])
      assume a: "perm_of ls rs M r = length rs + r"
      show ?thesis by (rule perm_left_cases [OF ll(2), of rs M]) (use a r(3) in auto)
    next
      fix j assume j: "j < length rs" "perm_of ls rs M r = j" "(ls ! r, rs ! j) \<in> M"
      show ?thesis
        by (rule perm_left_cases [OF ll(2), of rs M]) (use j r(3) matching_index [OF M j(3), of r' j] ll in auto)
    qed
  next
    case lr
    then show ?thesis using mixed right [OF r(2)] r(3) by blast
  next
    case rl
    then show ?thesis using mixed right [OF r(1)] r(3) by metis
  next
    case rr
    then obtain j j' where j: "r = length ls + j" "j < length rs" "r' = length ls + j'" "j' < length rs"
      using right r by blast
    show ?thesis
    proof (rule perm_right_cases [OF j(2), of ls M])
      assume a: "perm_of ls rs M (length ls + j) = j"
      show ?thesis by (rule perm_right_cases [OF j(4), of ls M]) (use a r(3) j in auto)
    next
      fix i assume i: "i < length ls" "perm_of ls rs M (length ls + j) = length rs + i" "(ls ! i, rs ! j) \<in> M"
      show ?thesis
        by (rule perm_right_cases [OF j(4), of ls M]) (use i j r(3) matching_index [OF M i(3), of i j'] in auto)
    qed
  qed
qed

lemma perm_of_less:
  assumes "r < length ls + length rs"
  shows "perm_of ls rs M r < length ls + length rs"
proof (cases "r < length ls")
  case True
  show ?thesis by (rule perm_left_cases [OF True, of rs M]) (use True in auto)
next
  case False
  then have "r - length ls < length rs" using assms by simp
  then show ?thesis by (rule perm_right_cases [of "r - length ls" rs ls M]) (use False assms in auto)
qed

lemma perm_of_permutes:
  assumes "matching ls rs weights M" "distinct ls" "distinct rs"
  shows "permutes_below (length ls + length rs) (perm_of ls rs M)"
proof -
  have "inj_on (perm_of ls rs M) {..<length ls + length rs}"
    by (rule inj_onI) (use perm_of_inj [OF assms] in blast)
  moreover have "perm_of ls rs M ` {..<length ls + length rs} \<subseteq> {..<length ls + length rs}"
    using perm_of_less by auto
  ultimately show ?thesis by (simp add: permutes_below_def bij_betw_def endo_inj_surj)
qed

section \<open>The cost matrix\<close>

lemma cost_matrix_cell:
  assumes "row < length ls + length rs" "col < length ls + length rs"
  shows "cost_matrix ls rs weights ! row ! col = cost_cell ls rs weights row col"
  using assms by (simp add: cost_matrix_def Let_def)

lemma length_cost_matrix [simp]: "length (cost_matrix ls rs weights) = length ls + length rs"
  by (simp add: cost_matrix_def Let_def)

text \<open>The matching a permutation carries out.\<close>

definition pairs_of :: "string list \<Rightarrow> string list \<Rightarrow> (nat \<Rightarrow> nat) \<Rightarrow> pairing" where
  "pairs_of ls rs q = (\<lambda>i. (ls ! i, rs ! q i)) ` {i. i < length ls \<and> q i < length rs}"

text \<open>A permutation that meets no forbidden cell.\<close>

definition allowed :: "string list \<Rightarrow> string list \<Rightarrow> weights \<Rightarrow> nat \<Rightarrow> nat \<Rightarrow> bool" where
  "allowed ls rs weights row col \<longleftrightarrow>
     (if row < length ls
      then (if col < length rs then map_of weights (ls ! row, rs ! col) \<noteq> None else col = length rs + row)
      else col < length rs \<longrightarrow> row = length ls + col)"

lemma cost_cell_allowed:
  assumes "row < length ls + length rs" "col < length ls + length rs"
  shows "cost_cell ls rs weights row col =
    (if \<not> allowed ls rs weights row col then forbidden_cost ls rs weights
     else if row < length ls \<and> col < length rs then - weight_of weights (ls ! row, rs ! col) else 0)"
  using assms by (auto simp: cost_cell_def allowed_def Let_def get_weight_def weight_of_def split: option.splits)

text \<open>The matrix with some cells of its own forbidden too, as \<open>near_optimal_without\<close> makes it.\<close>

definition clean :: "string list \<Rightarrow> string list \<Rightarrow> weights \<Rightarrow> (nat \<times> nat) set \<Rightarrow> (nat \<Rightarrow> nat) \<Rightarrow> bool" where
  "clean ls rs weights B q \<longleftrightarrow> (\<forall>r < length ls + length rs. allowed ls rs weights r (q r) \<and> (r, q r) \<notin> B)"

definition blocked_matrix :: "string list \<Rightarrow> string list \<Rightarrow> weights \<Rightarrow> (nat \<times> nat) set \<Rightarrow> matrix \<Rightarrow> bool" where
  "blocked_matrix ls rs weights B C \<longleftrightarrow> length C = length ls + length rs
     \<and> (\<forall>r < length ls + length rs. \<forall>c < length ls + length rs.
          C ! r ! c = (if (r, c) \<in> B then forbidden_cost ls rs weights else cost_cell ls rs weights r c))"

lemma blocked_none: "blocked_matrix ls rs weights {} (cost_matrix ls rs weights)"
  by (simp add: blocked_matrix_def cost_matrix_cell)

lemma blocked_one:
  assumes "row < length ls + length rs" "col < length ls + length rs"
  shows "blocked_matrix ls rs weights {(row, col)}
    ((cost_matrix ls rs weights)[row := (cost_matrix ls rs weights ! row)[col := forbidden_cost ls rs weights]])"
proof -
  have "length (cost_matrix ls rs weights ! row) = length ls + length rs"
    using assms by (simp add: cost_matrix_def Let_def)
  then show ?thesis using assms by (simp add: blocked_matrix_def cost_matrix_cell nth_list_update)
qed

lemma permutes_less: "permutes_below n q \<Longrightarrow> r < n \<Longrightarrow> q r < n"
  by (force simp: permutes_below_def bij_betw_def)

lemma permutes_inj: "permutes_below n q \<Longrightarrow> r < n \<Longrightarrow> r' < n \<Longrightarrow> q r = q r' \<Longrightarrow> r = r'"
  by (auto simp: permutes_below_def bij_betw_def dest: inj_onD)

lemma weight_of_nonneg:
  assumes "solvable ls rs weights" "e \<in> set ls \<times> set rs"
  shows "0 \<le> weight_of weights e"
proof (cases "map_of weights e")
  case (Some w)
  then have "e \<in> edges_between ls rs weights" using assms(2) by (simp add: edges_between_def)
  then have "1 \<le> weight_of weights e" using assms(1) by (simp add: solvable_def)
  then show ?thesis by simp
qed (simp add: weight_of_def)

lemma forbidden_cost_sum:
  assumes "distinct ls" "distinct rs"
  shows "forbidden_cost ls rs weights = 1 + (\<Sum>e \<in> set ls \<times> set rs. weight_of weights e)"
proof -
  have "(\<Sum>x\<leftarrow>ls. \<Sum>y\<leftarrow>rs. weight_of weights (x, y)) = (\<Sum>x \<in> set ls. \<Sum>y \<in> set rs. weight_of weights (x, y))"
    using assms by (simp add: sum_list_distinct_conv_sum_set)
  also have "\<dots> = (\<Sum>e \<in> set ls \<times> set rs. weight_of weights e)" by (simp add: sum.cartesian_product)
  finally show ?thesis by (simp add: forbidden_cost_def get_weight_def weight_of_def)
qed

text \<open>The weight of the pairs a permutation carries out, row by row.\<close>

definition row_weight :: "string list \<Rightarrow> string list \<Rightarrow> weights \<Rightarrow> (nat \<Rightarrow> nat) \<Rightarrow> nat \<Rightarrow> int" where
  "row_weight ls rs weights q r = (if r < length ls \<and> q r < length rs then weight_of weights (ls ! r, rs ! q r) else 0)"

lemma pairs_inj:
  assumes "distinct ls"
  shows "inj_on (\<lambda>i. (ls ! i, rs ! q i)) {i. i < length ls \<and> q i < length rs}"
  using assms by (auto simp: inj_on_def nth_eq_iff_index_eq)

lemma row_weight_sum:
  assumes "distinct ls"
  shows "(\<Sum>r < length ls + length rs. row_weight ls rs weights q r) = total_weight weights (pairs_of ls rs q)"
proof -
  let ?A = "{i. i < length ls \<and> q i < length rs}"
  have "(\<Sum>r < length ls + length rs. row_weight ls rs weights q r) = (\<Sum>r \<in> ?A. row_weight ls rs weights q r)"
    by (rule sum.mono_neutral_right) (auto simp: row_weight_def)
  also have "\<dots> = (\<Sum>r \<in> ?A. weight_of weights (ls ! r, rs ! q r))" by (rule sum.cong) (auto simp: row_weight_def)
  also have "\<dots> = total_weight weights (pairs_of ls rs q)"
    unfolding total_weight_def pairs_of_def by (simp add: sum.reindex [OF pairs_inj [OF assms]])
  finally show ?thesis .
qed

lemma clean_cost:
  assumes C: "blocked_matrix ls rs weights B C" and q: "permutes_below (length ls + length rs) q"
    and "clean ls rs weights B q" "distinct ls"
  shows "cost_of C q = - total_weight weights (pairs_of ls rs q)"
proof -
  have "C ! r ! q r = - row_weight ls rs weights q r" if "r < length ls + length rs" for r
    using assms(1,3) that permutes_less [OF q that]
    by (auto simp: blocked_matrix_def clean_def cost_cell_allowed row_weight_def)
  then show ?thesis
    using C row_weight_sum [OF assms(4), of rs weights q] by (simp add: cost_of_def blocked_matrix_def sum_negf)
qed

lemma dirty_cost:
  assumes S: "solvable ls rs weights" and C: "blocked_matrix ls rs weights B C"
    and q: "permutes_below (length ls + length rs) q" and dirty: "\<not> clean ls rs weights B q"
  shows "cost_of C q > 0"
proof -
  let ?n = "length ls + length rs"
  let ?g = "row_weight ls rs weights q"
  let ?F = "forbidden_cost ls rs weights"
  have dl: "distinct ls" "distinct rs" using S by (simp_all add: solvable_def)
  obtain r0 where r0: "r0 < ?n" "C ! r0 ! q r0 = ?F"
    using dirty C permutes_less [OF q] by (auto simp: clean_def blocked_matrix_def cost_cell_allowed)
  have g: "0 \<le> ?g r" for r using weight_of_nonneg [OF S] by (simp add: row_weight_def)
  have F: "0 \<le> ?F" using weight_of_nonneg [OF S] forbidden_cost_sum [OF dl, of weights] by (simp add: sum_nonneg)
  have low: "- ?g r \<le> C ! r ! q r" if "r < ?n" for r
  proof -
    have c: "C ! r ! q r = (if (r, q r) \<in> B then ?F else cost_cell ls rs weights r (q r))"
      using C that permutes_less [OF q that] by (simp add: blocked_matrix_def)
    then have "C ! r ! q r = ?F \<or> C ! r ! q r = - ?g r"
      using cost_cell_allowed [OF that permutes_less [OF q that], of weights] by (auto simp: row_weight_def)
    then show ?thesis using F g [of r] by linarith
  qed
  have "pairs_of ls rs q \<subseteq> set ls \<times> set rs" by (auto simp: pairs_of_def)
  then have "total_weight weights (pairs_of ls rs q) \<le> (\<Sum>e \<in> set ls \<times> set rs. weight_of weights e)"
    unfolding total_weight_def using weight_of_nonneg [OF S] by (intro sum_mono2) auto
  then have bound: "(\<Sum>r < ?n. ?g r) < ?F" using row_weight_sum [OF dl(1), of rs weights q] forbidden_cost_sum [OF dl, of weights] by simp
  have "cost_of C q = C ! r0 ! q r0 + (\<Sum>r \<in> {..<?n} - {r0}. C ! r ! q r)"
    using r0(1) C by (simp add: cost_of_def blocked_matrix_def sum.remove)
  also have "\<dots> \<ge> ?F + (\<Sum>r \<in> {..<?n} - {r0}. - ?g r)"
    using r0(2) low by (intro add_mono sum_mono) auto
  finally have "cost_of C q \<ge> ?F - (\<Sum>r \<in> {..<?n} - {r0}. ?g r)" by (simp add: sum_negf)
  moreover have "(\<Sum>r \<in> {..<?n} - {r0}. ?g r) \<le> (\<Sum>r < ?n. ?g r)" using g by (intro sum_mono2) auto
  ultimately show ?thesis using bound by linarith
qed

lemma pairs_matching:
  assumes S: "solvable ls rs weights" and q: "permutes_below (length ls + length rs) q" "clean ls rs weights B q"
  shows "matching ls rs weights (pairs_of ls rs q)"
proof -
  have dl: "distinct ls" "distinct rs" using S by (simp_all add: solvable_def)
  have "pairs_of ls rs q \<subseteq> edges_between ls rs weights"
  proof
    fix e assume "e \<in> pairs_of ls rs q"
    then obtain i where i: "i < length ls" "q i < length rs" "e = (ls ! i, rs ! q i)" by (auto simp: pairs_of_def)
    then have "allowed ls rs weights i (q i)" using q(2) by (simp add: clean_def)
    then show "e \<in> edges_between ls rs weights" using i by (simp add: allowed_def edges_between_def)
  qed
  moreover have "inj_on fst (pairs_of ls rs q)"
    using dl(1) by (auto simp: pairs_of_def inj_on_def nth_eq_iff_index_eq)
  moreover have "inj_on snd (pairs_of ls rs q)"
  proof (rule inj_onI)
    fix e f assume "e \<in> pairs_of ls rs q" "f \<in> pairs_of ls rs q" and eq: "snd e = snd f"
    then obtain i k where i: "i < length ls" "q i < length rs" "e = (ls ! i, rs ! q i)"
      and k: "k < length ls" "q k < length rs" "f = (ls ! k, rs ! q k)" by (auto simp: pairs_of_def)
    then have "q i = q k" using eq dl(2) by (simp add: nth_eq_iff_index_eq)
    then have "i = k" using permutes_inj [OF q(1), of i k] i(1) k(1) by simp
    then show "e = f" using i k by simp
  qed
  ultimately show ?thesis by (simp add: matching_def)
qed

lemma perm_of_pairs:
  assumes "matching ls rs weights M" "distinct ls" "distinct rs"
  shows "pairs_of ls rs (perm_of ls rs M) = M"
proof (intro set_eqI iffI)
  fix e assume "e \<in> pairs_of ls rs (perm_of ls rs M)"
  then obtain i where i: "i < length ls" "perm_of ls rs M i < length rs" "e = (ls ! i, rs ! perm_of ls rs M i)"
    by (auto simp: pairs_of_def)
  show "e \<in> M" by (rule perm_left_cases [OF i(1), of rs M]) (use i in auto)
next
  fix e assume e: "e \<in> M"
  then have "e \<in> set ls \<times> set rs" using assms(1) by (auto simp: matching_def edges_between_def)
  then obtain i j where ij: "i < length ls" "j < length rs" "e = (ls ! i, rs ! j)" by (auto simp: in_set_conv_nth)
  then have "perm_of ls rs M i = j" using matching_partner [OF assms] e by blast
  then show "e \<in> pairs_of ls rs (perm_of ls rs M)" using ij by (force simp: pairs_of_def)
qed

lemma perm_of_allowed:
  assumes M: "matching ls rs weights M" and r: "r < length ls + length rs"
  shows "allowed ls rs weights r (perm_of ls rs M r)"
proof (cases "r < length ls")
  case True
  have "map_of weights e \<noteq> None" if "e \<in> M" for e using M that by (auto simp: matching_def edges_between_def)
  then show ?thesis by (rule_tac perm_left_cases [OF True, of rs M]) (use True in \<open>auto simp: allowed_def\<close>)
next
  case False
  then have "r - length ls < length rs" using r by simp
  then show ?thesis by (rule perm_right_cases [of "r - length ls" rs ls M]) (use False in \<open>auto simp: allowed_def\<close>)
qed

section \<open>Optimum\<close>

text \<open>
  With some cells blocked, and a matching left that avoids them, the Hungarian algorithm finds
  the heaviest matching that avoids them.
\<close>

definition avoids :: "string list \<Rightarrow> string list \<Rightarrow> (nat \<times> nat) set \<Rightarrow> pairing \<Rightarrow> bool" where
  "avoids ls rs B M \<longleftrightarrow> (\<forall>r < length ls + length rs. (r, perm_of ls rs M r) \<notin> B)"

lemma blocked_optimum:
  assumes S: "solvable ls rs weights" and C: "blocked_matrix ls rs weights B C"
    and M0: "matching ls rs weights M0" "avoids ls rs B M0"
  obtains tot column where "min_cost_assignment C = Inr (tot, column)" "length column = length ls + length rs"
    "permutes_below (length ls + length rs) ((!) column)" "clean ls rs weights B ((!) column)"
    "- tot = total_weight weights (pairs_of ls rs ((!) column))"
    "\<And>M. matching ls rs weights M \<Longrightarrow> avoids ls rs B M \<Longrightarrow> total_weight weights M \<le> - tot"
proof -
  have dl: "distinct ls" "distinct rs" using S by (simp_all add: solvable_def)
  have len: "length C = length ls + length rs" using C by (simp add: blocked_matrix_def)
  obtain tot column where mc: "min_cost_assignment C = Inr (tot, column)" "length column = length ls + length rs"
    and perm: "permutes_below (length ls + length rs) ((!) column)" and tot: "tot = cost_of C ((!) column)"
    and least: "\<And>q. permutes_below (length ls + length rs) q \<Longrightarrow> tot \<le> cost_of C q"
    using min_cost_assignment_optimal [of C] len by auto
  have cost: "cost_of C (perm_of ls rs M) = - total_weight weights M" "tot \<le> - total_weight weights M"
    if M: "matching ls rs weights M" "avoids ls rs B M" for M
  proof -
    have "clean ls rs weights B (perm_of ls rs M)"
      using M perm_of_allowed [OF M(1)] by (simp add: clean_def avoids_def)
    then show "cost_of C (perm_of ls rs M) = - total_weight weights M"
      using clean_cost [OF C perm_of_permutes [OF M(1) dl] _ dl(1)] by (simp add: perm_of_pairs [OF M(1) dl])
    then show "tot \<le> - total_weight weights M" using least [OF perm_of_permutes [OF M(1) dl]] by simp
  qed
  have "0 \<le> total_weight weights M0"
    unfolding total_weight_def using M0(1) weight_of_nonneg [OF S]
    by (intro sum_nonneg) (auto simp: matching_def edges_between_def)
  then have "\<not> cost_of C ((!) column) > 0" using cost(2) [OF M0] tot by linarith
  then have clean: "clean ls rs weights B ((!) column)" using dirty_cost [OF S C perm] by blast
  show ?thesis
    using that [OF mc perm clean] clean_cost [OF C perm clean dl(1)] tot cost(2) by force
qed

lemma avoids_single: "row < length ls + length rs \<Longrightarrow> avoids ls rs {(row, col)} M \<longleftrightarrow> perm_of ls rs M row \<noteq> col"
  by (auto simp: avoids_def)

text \<open>A left record that stays alone occupies its own column, a right record its own row.\<close>

lemma avoids_left_alone:
  assumes "i < length ls"
  shows "avoids ls rs {(i, length rs + i)} M \<longleftrightarrow> (\<exists>j < length rs. (ls ! i, rs ! j) \<in> M)"
  by (rule perm_left_cases [OF assms, of rs M]) (use assms in \<open>auto simp: avoids_single\<close>)

lemma avoids_right_alone:
  assumes "j < length rs"
  shows "avoids ls rs {(length ls + j, j)} M \<longleftrightarrow> (\<exists>i < length ls. (ls ! i, rs ! j) \<in> M)"
  by (rule perm_right_cases [OF assms, of ls M]) (use assms in \<open>auto simp: avoids_single\<close>)

lemma avoids_pair:
  assumes "matching ls rs weights M" "distinct ls" "distinct rs" "i < length ls" "j < length rs"
  shows "avoids ls rs {(i, j)} M \<longleftrightarrow> (ls ! i, rs ! j) \<notin> M"
proof -
  have "(ls ! i, rs ! j) \<in> M \<longleftrightarrow> perm_of ls rs M i = j"
  proof
    assume "perm_of ls rs M i = j"
    then show "(ls ! i, rs ! j) \<in> M" by (rule_tac perm_left_cases [OF assms(4), of rs M]) (use assms(5) in auto)
  qed (use matching_partner [OF assms(1-3)] assms(4,5) in blast)
  then show ?thesis using assms(4) by (auto simp: avoids_single)
qed

lemma mem_pairs_of:
  assumes "distinct ls" "distinct rs" "i < length ls" "j < length rs"
  shows "(ls ! i, rs ! j) \<in> pairs_of ls rs q \<longleftrightarrow> q i = j"
  using assms by (auto simp: pairs_of_def nth_eq_iff_index_eq)

text \<open>The cells a decision of the optimum can occupy: a row of a left record, or the diagonal of a right one.\<close>

definition decision_cell :: "string list \<Rightarrow> string list \<Rightarrow> nat \<times> nat \<Rightarrow> bool" where
  "decision_cell ls rs rc \<longleftrightarrow> snd rc < length ls + length rs
     \<and> (fst rc < length ls \<or> (fst rc = length ls + snd rc \<and> snd rc < length rs))"

lemma clean_avoids:
  assumes dl: "distinct ls" "distinct rs" and q: "permutes_below (length ls + length rs) q" "clean ls rs weights B q"
    and cell: "decision_cell ls rs rc" "rc \<in> B"
  shows "avoids ls rs {rc} (pairs_of ls rs q)"
proof -
  obtain row col where rc: "rc = (row, col)" by (cases rc)
  have allow: "allowed ls rs weights r (q r)" "(r, q r) \<notin> B" if "r < length ls + length rs" for r
    using q(2) that by (simp_all add: clean_def)
  show ?thesis
  proof (cases "row < length ls")
    case True
    have "perm_of ls rs (pairs_of ls rs q) row = q row"
    proof (rule perm_left_cases [OF True, of rs "pairs_of ls rs q"])
      fix j assume "j < length rs" "perm_of ls rs (pairs_of ls rs q) row = j" "(ls ! row, rs ! j) \<in> pairs_of ls rs q"
      then show ?thesis using mem_pairs_of [OF dl True] by simp
    next
      assume "perm_of ls rs (pairs_of ls rs q) row = length rs + row"
        and "\<And>j. j < length rs \<Longrightarrow> (ls ! row, rs ! j) \<notin> pairs_of ls rs q"
      then show ?thesis using mem_pairs_of [OF dl True] allow(1) [of row] True by (auto simp: allowed_def split: if_splits)
    qed
    then show ?thesis using allow(2) [of row] True cell(2) by (auto simp: rc avoids_single)
  next
    case False
    then have col: "col < length rs" "row = length ls + col" using cell(1) by (auto simp: decision_cell_def rc)
    have "col \<in> q ` {..<length ls + length rs}" using q(1) col(1) by (simp add: permutes_below_def bij_betw_def)
    then obtain r where r: "r < length ls + length rs" "q r = col" by auto
    have "r < length ls" using allow [OF r(1)] r(2) col cell(2) by (auto simp: allowed_def rc split: if_splits)
    then show ?thesis using mem_pairs_of [OF dl _ col(1)] r(2) by (auto simp: rc col(2) avoids_right_alone [OF col(1)])
  qed
qed

lemma without_iff:
  assumes S: "solvable ls rs weights" and cell: "decision_cell ls rs rc"
    and M0: "matching ls rs weights M0" "avoids ls rs {rc} M0"
  shows "near_optimal_without (cost_matrix ls rs weights) (forbidden_cost ls rs weights) tot margin (fst rc) (snd rc)
    = Inr (\<exists>M \<in> near_optimal ls rs weights (- tot - margin). avoids ls rs {rc} M)"
proof -
  have bounds: "fst rc < length ls + length rs" "snd rc < length ls + length rs" using cell by (auto simp: decision_cell_def)
  have C: "blocked_matrix ls rs weights {rc} ((cost_matrix ls rs weights)[fst rc :=
      (cost_matrix ls rs weights ! fst rc)[snd rc := forbidden_cost ls rs weights]])"
    using blocked_one [OF bounds, of weights] by simp
  obtain alt column where alt: "min_cost_assignment ((cost_matrix ls rs weights)[fst rc :=
      (cost_matrix ls rs weights ! fst rc)[snd rc := forbidden_cost ls rs weights]]) = Inr (alt, column)"
    and perm: "permutes_below (length ls + length rs) ((!) column)" and clean: "clean ls rs weights {rc} ((!) column)"
    and val: "- alt = total_weight weights (pairs_of ls rs ((!) column))"
    and best: "\<And>M. matching ls rs weights M \<Longrightarrow> avoids ls rs {rc} M \<Longrightarrow> total_weight weights M \<le> - alt"
    by (rule blocked_optimum [OF S C M0]) blast
  have "avoids ls rs {rc} (pairs_of ls rs ((!) column))"
    using S by (intro clean_avoids [OF _ _ perm clean cell]) (simp_all add: solvable_def)
  moreover have "matching ls rs weights (pairs_of ls rs ((!) column))" by (rule pairs_matching [OF S perm clean])
  ultimately have "alt - tot \<le> margin \<longleftrightarrow> (\<exists>M \<in> near_optimal ls rs weights (- tot - margin). avoids ls rs {rc} M)"
    using val best by (force simp: near_optimal_def)
  then show ?thesis by (simp add: near_optimal_without_def alt)
qed

section \<open>What the decisions mean\<close>

text \<open>
  A decision on one record of a side, read off the near-optimal matchings: \<open>mine\<close> and \<open>other\<close>
  are the ends of a pair.
\<close>

fun agreed :: "pairing set \<Rightarrow> (string \<times> string \<Rightarrow> string) \<Rightarrow> (string \<times> string \<Rightarrow> string) \<Rightarrow> string
    \<Rightarrow> AStatus \<times> string option \<Rightarrow> bool" where
  "agreed near mine other x (MATCHED, Some y) \<longleftrightarrow> (\<forall>M \<in> near. \<exists>e \<in> M. mine e = x \<and> other e = y)"
| "agreed near mine other x (UNMATCHED, None) \<longleftrightarrow> (\<forall>M \<in> near. x \<notin> mine ` M)"
| "agreed near mine other x (AMBIGUOUS, None) \<longleftrightarrow>
     \<not> (\<exists>y. \<forall>M \<in> near. \<exists>e \<in> M. mine e = x \<and> other e = y) \<and> \<not> (\<forall>M \<in> near. x \<notin> mine ` M)"
| "agreed near mine other x d \<longleftrightarrow> False"

lemma agreed_pair:
  assumes e: "e \<in> M" "M \<in> near" and one: "\<And>f. f \<in> M \<Longrightarrow> mine f = mine e \<Longrightarrow> f = e"
    and key: "\<And>f. mine f = mine e \<Longrightarrow> other f = other e \<Longrightarrow> f = e"
  shows "agreed near mine other (mine e) (if \<exists>M \<in> near. e \<notin> M then (AMBIGUOUS, None) else (MATCHED, Some (other e)))"
proof (cases "\<exists>M \<in> near. e \<notin> M")
  case True
  then obtain M' where M': "M' \<in> near" "e \<notin> M'" by blast
  have "\<not> (\<forall>M \<in> near. \<exists>f \<in> M. mine f = mine e \<and> other f = y)" for y
  proof
    assume all: "\<forall>M \<in> near. \<exists>f \<in> M. mine f = mine e \<and> other f = y"
    then have "y = other e" using e one by blast
    then show False using all M' key by blast
  qed
  then show ?thesis using True e by auto
qed (use e in auto)

lemma agreed_alone:
  assumes "M \<in> near" "x \<notin> mine ` M"
  shows "agreed near mine other x (if \<exists>M \<in> near. x \<in> mine ` M then AMBIGUOUS else UNMATCHED, None)"
proof -
  have "\<not> (\<forall>M \<in> near. \<exists>e \<in> M. mine e = x \<and> other e = y)" for y using assms by blast
  then show ?thesis by simp
qed

definition resolved :: "string list \<Rightarrow> string list \<Rightarrow> weights \<Rightarrow> int \<Rightarrow> int \<Rightarrow> decided \<Rightarrow> decided \<Rightarrow> bool" where
  "resolved ls rs weights margin best left_dec right_dec \<longleftrightarrow>
     (\<exists>M. matching ls rs weights M \<and> total_weight weights M = best)
     \<and> (\<forall>M. matching ls rs weights M \<longrightarrow> total_weight weights M \<le> best)
     \<and> dom left_dec = set ls \<and> dom right_dec = set rs
     \<and> (\<forall>x \<in> set ls. agreed (near_optimal ls rs weights (best - margin)) fst snd x (the (left_dec x)))
     \<and> (\<forall>y \<in> set rs. agreed (near_optimal ls rs weights (best - margin)) snd fst y (the (right_dec y)))"

section \<open>The loops\<close>

definition left_outcomes ::
    "(nat \<Rightarrow> AStatus \<times> string option) \<Rightarrow> string list \<Rightarrow> nat \<Rightarrow> decided \<Rightarrow> bool" where
  "left_outcomes f ids k dec \<longleftrightarrow> dom dec = (!) ids ` {..<k} \<and> (\<forall>i < k. dec (ids ! i) = Some (f i))"

lemma outcomes_upd:
  assumes "left_outcomes f ids k dec" "distinct ids" "k < length ids"
  shows "left_outcomes f ids (Suc k) (dec(ids ! k \<mapsto> f k))"
  using assms by (auto simp: left_outcomes_def lessThan_Suc less_Suc_eq nth_eq_iff_index_eq)

lemma decide_left_loop:
  assumes dl: "distinct ls" "distinct rs" and inj: "inj_on ((!) column) {..<length ls}"
    and pair: "\<And>i. i < length ls \<Longrightarrow> column ! i < length rs \<Longrightarrow> without i (column ! i) = Inr (amb i)"
    and alone: "\<And>i. i < length ls \<Longrightarrow> \<not> column ! i < length rs \<Longrightarrow> without i (length rs + i) = Inr (amb i)"
    and k: "k \<le> length ls"
  shows "\<exists>L R. foldE (decide_left without ls rs column) (Map.empty, Map.empty) [0..<k] = Inr (L, R)
    \<and> left_outcomes (\<lambda>i. if column ! i < length rs
        then (if amb i then (AMBIGUOUS, None) else (MATCHED, Some (rs ! (column ! i))))
        else (if amb i then AMBIGUOUS else UNMATCHED, None)) ls k L
    \<and> dom R = {rs ! (column ! i) | i. i < k \<and> column ! i < length rs}
    \<and> (\<forall>i < k. column ! i < length rs \<longrightarrow>
        R (rs ! (column ! i)) = Some (if amb i then (AMBIGUOUS, None) else (MATCHED, Some (ls ! i))))"
  using k
proof (induction k)
  case 0
  then show ?case by (simp add: left_outcomes_def)
next
  case (Suc k)
  let ?f = "\<lambda>i. if column ! i < length rs
        then (if amb i then (AMBIGUOUS, None) else (MATCHED, Some (rs ! (column ! i))))
        else (if amb i then AMBIGUOUS else UNMATCHED, None)"
  let ?g = "\<lambda>i. if amb i then (AMBIGUOUS, None) else (MATCHED, Some (ls ! i))"
  obtain L R where LR: "foldE (decide_left without ls rs column) (Map.empty, Map.empty) [0..<k] = Inr (L, R)"
    and L: "left_outcomes ?f ls k L" and R: "dom R = {rs ! (column ! i) | i. i < k \<and> column ! i < length rs}"
      "\<And>i. i < k \<Longrightarrow> column ! i < length rs \<Longrightarrow> R (rs ! (column ! i)) = Some (?g i)"
    using Suc by force
  have kl: "k < length ls" using Suc.prems by simp
  have step: "decide_left without ls rs column (L, R) k
      = Inr (L(ls ! k \<mapsto> ?f k), if column ! k < length rs then R(rs ! (column ! k) \<mapsto> ?g k) else R)"
    using pair [OF kl] alone [OF kl] by (simp add: decide_left_def Let_def)
  have fresh: "rs ! (column ! i) \<noteq> rs ! (column ! k)" if "i < k" "column ! i < length rs" "column ! k < length rs" for i
    using that kl dl(2) inj by (auto simp: nth_eq_iff_index_eq dest: inj_onD)
  let ?R = "if column ! k < length rs then R(rs ! (column ! k) \<mapsto> ?g k) else R"
  have "dom ?R = {rs ! (column ! i) | i. i < Suc k \<and> column ! i < length rs}"
    using R(1) by (auto simp: less_Suc_eq)
  moreover have "?R (rs ! (column ! i)) = Some (?g i)" if "i < Suc k" "column ! i < length rs" for i
  proof (cases "i = k")
    case False
    then have i: "i < k" using that(1) by simp
    show ?thesis using R(2) [OF i that(2)] fresh [OF i that(2)] by (cases "column ! k < length rs") simp_all
  qed (use that in simp)
  ultimately show ?case
    using LR step outcomes_upd [OF L dl(1) kl] by (simp add: foldE_append)
qed

lemma decide_right_loop:
  assumes dl: "distinct rs" and k: "k \<le> length rs"
    and alone: "\<And>j. j < length rs \<Longrightarrow> j \<notin> set (take (length ls) column) \<Longrightarrow> without (length ls + j) j = Inr (amb j)"
  shows "\<exists>R'. foldE (decide_right without ls rs column) R [0..<k] = Inr R'
    \<and> dom R' = dom R \<union> {rs ! j | j. j < k \<and> j \<notin> set (take (length ls) column)}
    \<and> (\<forall>j < length rs. R' (rs ! j) = (if j < k \<and> j \<notin> set (take (length ls) column)
        then Some (if amb j then AMBIGUOUS else UNMATCHED, None) else R (rs ! j)))"
  using k
proof (induction k)
  case (Suc k)
  then obtain R' where R': "foldE (decide_right without ls rs column) R [0..<k] = Inr R'"
    "dom R' = dom R \<union> {rs ! j | j. j < k \<and> j \<notin> set (take (length ls) column)}"
    "\<And>j. j < length rs \<Longrightarrow> R' (rs ! j) = (if j < k \<and> j \<notin> set (take (length ls) column)
        then Some (if amb j then AMBIGUOUS else UNMATCHED, None) else R (rs ! j))" by auto
  let ?R = "if k \<in> set (take (length ls) column) then R' else R'(rs ! k \<mapsto> (if amb k then AMBIGUOUS else UNMATCHED, None))"
  have "decide_right without ls rs column R' k = Inr ?R"
    using alone [of k] Suc.prems by (simp add: decide_right_def)
  moreover have "dom ?R = dom R \<union> {rs ! j | j. j < Suc k \<and> j \<notin> set (take (length ls) column)}"
    using R'(2) by (auto simp: less_Suc_eq)
  moreover have "?R (rs ! j) = (if j < Suc k \<and> j \<notin> set (take (length ls) column)
        then Some (if amb j then AMBIGUOUS else UNMATCHED, None) else R (rs ! j))" if j: "j < length rs" for j
    using R'(3) [OF j] Suc.prems j dl by (auto simp: less_Suc_eq nth_eq_iff_index_eq)
  ultimately show ?case using R'(1) by (simp add: foldE_append)
qed simp

section \<open>One component\<close>

lemma near_iff: "matching ls rs weights M \<Longrightarrow> total_weight weights M \<ge> least \<Longrightarrow> M \<in> near_optimal ls rs weights least"
  by (simp add: near_optimal_def)

lemma fst_mem_matching:
  assumes "matching ls rs weights M" "x \<in> set ls"
  shows "x \<in> fst ` M \<longleftrightarrow> (\<exists>j < length rs. (x, rs ! j) \<in> M)"
  using assms by (force simp: matching_def edges_between_def in_set_conv_nth)

lemma snd_mem_matching:
  assumes "matching ls rs weights M" "y \<in> set rs"
  shows "y \<in> snd ` M \<longleftrightarrow> (\<exists>i < length ls. (ls ! i, y) \<in> M)"
  using assms by (force simp: matching_def edges_between_def in_set_conv_nth)

lemma without_pair:
  assumes S: "solvable ls rs weights" and ij: "i < length ls" "j < length rs"
  shows "near_optimal_without (cost_matrix ls rs weights) (forbidden_cost ls rs weights) tot margin i j
    = Inr (\<exists>M \<in> near_optimal ls rs weights (- tot - margin). (ls ! i, rs ! j) \<notin> M)"
proof -
  have dl: "distinct ls" "distinct rs" using S by (simp_all add: solvable_def)
  have "decision_cell ls rs (i, j)" using ij by (simp add: decision_cell_def)
  moreover have "avoids ls rs {(i, j)} {}" using avoids_pair [OF matching_empty dl ij] by simp
  ultimately show ?thesis
    using without_iff [OF S _ matching_empty, of "(i, j)" tot margin] avoids_pair [OF _ dl ij]
    by (auto simp: near_optimal_def)
qed

lemma without_left_alone:
  assumes S: "solvable ls rs weights" and i: "i < length ls"
  shows "near_optimal_without (cost_matrix ls rs weights) (forbidden_cost ls rs weights) tot margin i (length rs + i)
    = Inr (\<exists>M \<in> near_optimal ls rs weights (- tot - margin). ls ! i \<in> fst ` M)"
proof -
  have "\<exists>y \<in> set rs. map_of weights (ls ! i, y) \<noteq> None" using S i by (simp add: solvable_def)
  then obtain j where j: "j < length rs" "map_of weights (ls ! i, rs ! j) \<noteq> None" by (auto simp: in_set_conv_nth)
  then have m: "matching ls rs weights {(ls ! i, rs ! j)}" using i by (intro matching_single) (simp add: edges_between_def)
  have "avoids ls rs {(i, length rs + i)} {(ls ! i, rs ! j)}" using j(1) by (auto simp: avoids_left_alone [OF i])
  moreover have "decision_cell ls rs (i, length rs + i)" using i by (simp add: decision_cell_def)
  ultimately show ?thesis
    using without_iff [OF S _ m, of "(i, length rs + i)" tot margin] fst_mem_matching [of ls rs weights _ "ls ! i"] i
    by (auto simp: near_optimal_def avoids_left_alone [OF i])
qed

lemma without_right_alone:
  assumes S: "solvable ls rs weights" and j: "j < length rs"
  shows "near_optimal_without (cost_matrix ls rs weights) (forbidden_cost ls rs weights) tot margin (length ls + j) j
    = Inr (\<exists>M \<in> near_optimal ls rs weights (- tot - margin). rs ! j \<in> snd ` M)"
proof -
  have "\<exists>x \<in> set ls. map_of weights (x, rs ! j) \<noteq> None" using S j by (simp add: solvable_def)
  then obtain i where i: "i < length ls" "map_of weights (ls ! i, rs ! j) \<noteq> None" by (auto simp: in_set_conv_nth)
  then have m: "matching ls rs weights {(ls ! i, rs ! j)}" using j by (intro matching_single) (simp add: edges_between_def)
  have "avoids ls rs {(length ls + j, j)} {(ls ! i, rs ! j)}" using i(1) by (auto simp: avoids_right_alone [OF j])
  moreover have "decision_cell ls rs (length ls + j, j)" using j by (simp add: decision_cell_def)
  ultimately show ?thesis
    using without_iff [OF S _ m, of "(length ls + j, j)" tot margin] snd_mem_matching [of ls rs weights _ "rs ! j"] j
    by (auto simp: near_optimal_def avoids_right_alone [OF j])
qed

text \<open>The optimum the code starts from: a column for each row, and the matching it carries out.\<close>

definition optimum :: "string list \<Rightarrow> string list \<Rightarrow> weights \<Rightarrow> int \<Rightarrow> nat list \<Rightarrow> bool" where
  "optimum ls rs weights tot column \<longleftrightarrow> length column = length ls + length rs
     \<and> inj_on ((!) column) {..<length ls}
     \<and> matching ls rs weights (pairs_of ls rs ((!) column)) \<and> total_weight weights (pairs_of ls rs ((!) column)) = - tot
     \<and> (\<forall>M. matching ls rs weights M \<longrightarrow> total_weight weights M \<le> - tot)"

lemma optimum_found:
  assumes S: "solvable ls rs weights"
  shows "\<exists>tot column. min_cost_assignment (cost_matrix ls rs weights) = Inr (tot, column) \<and> optimum ls rs weights tot column"
proof -
  obtain tot column where mc: "min_cost_assignment (cost_matrix ls rs weights) = Inr (tot, column)"
    and len: "length column = length ls + length rs" and perm: "permutes_below (length ls + length rs) ((!) column)"
    and clean: "clean ls rs weights {} ((!) column)" and val: "- tot = total_weight weights (pairs_of ls rs ((!) column))"
    and best: "\<And>M. matching ls rs weights M \<Longrightarrow> avoids ls rs {} M \<Longrightarrow> total_weight weights M \<le> - tot"
    by (rule blocked_optimum [OF S blocked_none matching_empty]) (auto simp: avoids_def)
  have "inj_on ((!) column) {..<length ls}" using permutes_inj [OF perm] by (auto simp: inj_on_def)
  then show ?thesis
    using mc len pairs_matching [OF S perm clean] val best by (auto simp: optimum_def avoids_def)
qed

lemma optimum_pair:
  assumes "solvable ls rs weights" "optimum ls rs weights tot column" "i < length ls" "j < length rs"
  shows "(ls ! i, rs ! j) \<in> pairs_of ls rs ((!) column) \<longleftrightarrow> column ! i = j"
  using assms mem_pairs_of [of ls rs i j] by (simp add: solvable_def)

lemma optimum_taken:
  assumes "optimum ls rs weights tot column"
  shows "j \<in> set (take (length ls) column) \<longleftrightarrow> (\<exists>i < length ls. column ! i = j)"
  using assms by (auto simp: optimum_def in_set_conv_nth)

lemma optimum_agrees_pair:
  assumes S: "solvable ls rs weights" and P: "optimum ls rs weights tot column" and near: "pairs_of ls rs ((!) column) \<in> near"
    and ij: "i < length ls" "j < length rs" "column ! i = j"
  shows "agreed near fst snd (ls ! i) (if \<exists>M \<in> near. (ls ! i, rs ! j) \<notin> M then (AMBIGUOUS, None) else (MATCHED, Some (rs ! j)))"
    "agreed near snd fst (rs ! j) (if \<exists>M \<in> near. (ls ! i, rs ! j) \<notin> M then (AMBIGUOUS, None) else (MATCHED, Some (ls ! i)))"
proof -
  let ?M = "pairs_of ls rs ((!) column)" and ?e = "(ls ! i, rs ! j)"
  have M: "matching ls rs weights ?M" using P by (simp add: optimum_def)
  have e: "?e \<in> ?M" using optimum_pair [OF S P ij(1,2)] ij(3) by simp
  have same: "f = ?e" if "f \<in> ?M" "fst f = fst ?e \<or> snd f = snd ?e" for f
  proof -
    have "(fst f, snd f) \<in> ?M" using that(1) by simp
    from matching_same [OF M this e] show ?thesis using that(2) by (auto simp: prod_eq_iff)
  qed
  show "agreed near fst snd (ls ! i) (if \<exists>M \<in> near. ?e \<notin> M then (AMBIGUOUS, None) else (MATCHED, Some (rs ! j)))"
  proof -
    have "agreed near fst snd (fst ?e) (if \<exists>M \<in> near. ?e \<notin> M then (AMBIGUOUS, None) else (MATCHED, Some (snd ?e)))"
      by (rule agreed_pair [OF e near]) (use same in \<open>blast, simp add: prod_eq_iff\<close>)
    then show ?thesis by (simp only: fst_conv snd_conv)
  qed
  show "agreed near snd fst (rs ! j) (if \<exists>M \<in> near. ?e \<notin> M then (AMBIGUOUS, None) else (MATCHED, Some (ls ! i)))"
  proof -
    have "agreed near snd fst (snd ?e) (if \<exists>M \<in> near. ?e \<notin> M then (AMBIGUOUS, None) else (MATCHED, Some (fst ?e)))"
      by (rule agreed_pair [OF e near]) (use same in \<open>blast, simp add: prod_eq_iff\<close>)
    then show ?thesis by (simp only: fst_conv snd_conv)
  qed
qed

lemma optimum_agrees_alone:
  assumes S: "solvable ls rs weights" and P: "optimum ls rs weights tot column" and near: "pairs_of ls rs ((!) column) \<in> near"
  shows "i < length ls \<Longrightarrow> \<not> column ! i < length rs \<Longrightarrow>
      agreed near fst snd (ls ! i) (if \<exists>M \<in> near. ls ! i \<in> fst ` M then AMBIGUOUS else UNMATCHED, None)"
    "j < length rs \<Longrightarrow> j \<notin> set (take (length ls) column) \<Longrightarrow>
      agreed near snd fst (rs ! j) (if \<exists>M \<in> near. rs ! j \<in> snd ` M then AMBIGUOUS else UNMATCHED, None)"
proof -
  let ?M = "pairs_of ls rs ((!) column)"
  have M: "matching ls rs weights ?M" using P by (simp add: optimum_def)
  show "agreed near fst snd (ls ! i) (if \<exists>M \<in> near. ls ! i \<in> fst ` M then AMBIGUOUS else UNMATCHED, None)"
    if "i < length ls" "\<not> column ! i < length rs"
    using that fst_mem_matching [OF M, of "ls ! i"] optimum_pair [OF S P that(1)] by (intro agreed_alone [OF near]) auto
  show "agreed near snd fst (rs ! j) (if \<exists>M \<in> near. rs ! j \<in> snd ` M then AMBIGUOUS else UNMATCHED, None)"
    if "j < length rs" "j \<notin> set (take (length ls) column)"
    using that snd_mem_matching [OF M, of "rs ! j"] optimum_pair [OF S P _ that(1)] optimum_taken [OF P, of j]
    by (intro agreed_alone [OF near]) auto
qed

lemma resolve_resolved:
  assumes S: "solvable ls rs weights" and margin: "0 \<le> margin"
  shows "\<exists>best L R. resolve ls rs weights margin = Inr (best, L, R) \<and> resolved ls rs weights margin best L R"
proof -
  have dl: "distinct ls" "distinct rs" using S by (simp_all add: solvable_def)
  obtain tot column where mc: "min_cost_assignment (cost_matrix ls rs weights) = Inr (tot, column)"
    and P: "optimum ls rs weights tot column" using optimum_found [OF S] by blast
  define near where "near = near_optimal ls rs weights (- tot - margin)"
  have Mnear: "pairs_of ls rs ((!) column) \<in> near" using P margin by (simp add: near_def near_optimal_def optimum_def)
  define without where "without = near_optimal_without (cost_matrix ls rs weights) (forbidden_cost ls rs weights) tot margin"
  define amb where "amb i = (if column ! i < length rs then \<exists>M \<in> near. (ls ! i, rs ! (column ! i)) \<notin> M
      else \<exists>M \<in> near. ls ! i \<in> fst ` M)" for i
  define amb' where "amb' j = (\<exists>M \<in> near. rs ! j \<in> snd ` M)" for j
  have "inj_on ((!) column) {..<length ls}" using P by (simp add: optimum_def)
  from decide_left_loop [OF dl this, of without amb "length ls"] obtain L R where
    LR: "foldE (decide_left without ls rs column) (Map.empty, Map.empty) [0..<length ls] = Inr (L, R)"
    and L: "left_outcomes (\<lambda>i. if column ! i < length rs
        then (if amb i then (AMBIGUOUS, None) else (MATCHED, Some (rs ! (column ! i))))
        else (if amb i then AMBIGUOUS else UNMATCHED, None)) ls (length ls) L"
    and R: "dom R = {rs ! (column ! i) | i. i < length ls \<and> column ! i < length rs}"
      "\<And>i. i < length ls \<Longrightarrow> column ! i < length rs \<Longrightarrow>
        R (rs ! (column ! i)) = Some (if amb i then (AMBIGUOUS, None) else (MATCHED, Some (ls ! i)))"
    using without_pair [OF S] without_left_alone [OF S] by (auto simp: without_def amb_def near_def)
  from decide_right_loop [OF dl(2) order_refl, of ls column without amb' R] obtain R' where
    R': "foldE (decide_right without ls rs column) R [0..<length rs] = Inr R'"
      "dom R' = dom R \<union> {rs ! j | j. j < length rs \<and> j \<notin> set (take (length ls) column)}"
      "\<And>j. j < length rs \<Longrightarrow> R' (rs ! j) = (if j \<notin> set (take (length ls) column)
        then Some (if amb' j then AMBIGUOUS else UNMATCHED, None) else R (rs ! j))"
    using without_right_alone [OF S] by (auto simp: without_def amb'_def near_def)
  have lefts: "agreed near fst snd (ls ! i) (the (L (ls ! i)))" if i: "i < length ls" for i
    using optimum_agrees_pair(1) [OF S P Mnear i _ refl] optimum_agrees_alone(1) [OF S P Mnear i] L i
    by (cases "column ! i < length rs") (simp_all add: left_outcomes_def amb_def del: agreed.simps)
  have rights: "agreed near snd fst (rs ! j) (the (R' (rs ! j)))" if j: "j < length rs" for j
  proof (cases "j \<in> set (take (length ls) column)")
    case True
    then obtain i where i: "i < length ls" "column ! i = j" using optimum_taken [OF P] by blast
    then show ?thesis using optimum_agrees_pair(2) [OF S P Mnear i(1) j i(2)] R'(3) [OF j] R(2) [OF i(1)] j True
      by (simp add: amb_def del: agreed.simps)
  qed (use optimum_agrees_alone(2) [OF S P Mnear j] R'(3) [OF j] in \<open>simp add: amb'_def del: agreed.simps\<close>)
  have "resolve ls rs weights margin = Inr (- tot, L, R')"
    using mc LR R'(1) by (simp add: resolve_def Let_def without_def)
  moreover have "dom L = set ls" using L by (auto simp: left_outcomes_def set_conv_nth)
  moreover have "dom R' = set rs" unfolding R'(2) R(1) using optimum_taken [OF P] by (auto simp: set_conv_nth)
  moreover have "\<forall>x \<in> set ls. agreed near fst snd x (the (L x))" "\<forall>y \<in> set rs. agreed near snd fst y (the (R' y))"
    using lefts rights by (auto simp: in_set_conv_nth)
  ultimately show ?thesis using P unfolding resolved_def near_def optimum_def by auto
qed

end
