(* ===== verification/Assign_Props.thy ===== *)
theory Assign_Props
  imports Resolve
begin

text \<open>
  The whole of \<open>assign\<close>: the walk finds the connected components of the candidate graph, every
  record gets exactly one decision, and the decision is the one the near-optimal matchings of its
  component agree on.
\<close>

declare split_paired_All [simp del] split_paired_Ex [simp del]

section \<open>The walk\<close>

definition edge_rel :: "weights \<Rightarrow> (node \<times> node) set" where
  "edge_rel weights = {(a, b). b \<in> neighbours weights a}"

definition reach :: "weights \<Rightarrow> node \<Rightarrow> node set" where
  "reach weights n = (edge_rel weights)\<^sup>* `` {n}"

lemma neighbours_iff:
  "b \<in> neighbours weights a \<longleftrightarrow>
     (\<exists>l r. (l, r) \<in> fst ` set weights \<and> (a = (''L'', l) \<and> b = (''R'', r) \<or> a = (''R'', r) \<and> b = (''L'', l)))"
  by (force simp: neighbours_def)

lemma nodes_iff:
  "n \<in> nodes weights \<longleftrightarrow> (\<exists>l r. (l, r) \<in> fst ` set weights \<and> (n = (''L'', l) \<or> n = (''R'', r)))"
  by (force simp: nodes_def)

lemma neighbours_nodes: "b \<in> neighbours weights a \<Longrightarrow> a \<in> nodes weights \<and> b \<in> nodes weights"
  by (auto simp: neighbours_iff nodes_iff)

lemma finite_nodes [simp]: "finite (nodes weights)" "finite (neighbours weights n)"
  by (simp_all add: nodes_def neighbours_def)

lemma node_has_neighbour: "n \<in> nodes weights \<Longrightarrow> \<exists>b. b \<in> neighbours weights n"
  unfolding neighbours_iff nodes_iff by blast

lemma sym_edge_rel: "sym (edge_rel weights)"
  by (auto simp: edge_rel_def neighbours_iff intro!: symI)

lemma reach_refl [simp]: "n \<in> reach weights n"
  by (simp add: reach_def)

lemma reach_step: "a \<in> reach weights n \<Longrightarrow> b \<in> neighbours weights a \<Longrightarrow> b \<in> reach weights n"
  by (auto simp: reach_def edge_rel_def intro: rtrancl_into_rtrancl)

lemma reach_sym: "a \<in> reach weights n \<longleftrightarrow> n \<in> reach weights a"
  using sym_rtrancl [OF sym_edge_rel, of weights] by (auto simp: reach_def dest: symD)

lemma reach_eq: "a \<in> reach weights n \<Longrightarrow> reach weights a = reach weights n"
  using reach_sym [of a weights n] unfolding reach_def by (blast intro: rtrancl_trans)

lemma reach_nodes: "n \<in> nodes weights \<Longrightarrow> reach weights n \<subseteq> nodes weights"
proof
  fix b assume "n \<in> nodes weights" "b \<in> reach weights n"
  then have "(n, b) \<in> (edge_rel weights)\<^sup>*" by (simp add: reach_def)
  then show "b \<in> nodes weights"
    by (induction rule: rtrancl_induct) (use \<open>n \<in> nodes weights\<close> neighbours_nodes in \<open>auto simp: edge_rel_def\<close>)
qed

lemma reach_least:
  assumes "n \<in> A" "\<And>a. a \<in> A \<Longrightarrow> neighbours weights a \<subseteq> A"
  shows "reach weights n \<subseteq> A"
proof
  fix b assume "b \<in> reach weights n"
  then have "(n, b) \<in> (edge_rel weights)\<^sup>*" by (simp add: reach_def)
  then show "b \<in> A" by (induction rule: rtrancl_induct) (use assms in \<open>auto simp: edge_rel_def\<close>)
qed

lemma fold_visit:
  assumes "set ms \<inter> old = {}" "distinct ms"
  shows "\<exists>ms'. fold visit xs (old \<union> set ms, ms) = (old \<union> set (ms @ ms'), ms @ ms')
    \<and> distinct (ms @ ms') \<and> set (ms @ ms') \<inter> old = {} \<and> set (ms @ ms') \<union> old = set ms \<union> old \<union> set xs"
  using assms
proof (induction xs arbitrary: ms)
  case (Cons x xs)
  show ?case
  proof (cases "x \<in> old \<union> set ms")
    case True
    then have "visit x (old \<union> set ms, ms) = (old \<union> set ms, ms)" by (simp add: visit_def)
    then show ?thesis using Cons.IH [OF Cons.prems] True by auto
  next
    case False
    then have "visit x (old \<union> set ms, ms) = (old \<union> set (ms @ [x]), ms @ [x])" by (auto simp: visit_def)
    moreover have "set (ms @ [x]) \<inter> old = {}" "distinct (ms @ [x])" using False Cons.prems by auto
    from Cons.IH [OF this] obtain ms' where "fold visit xs (old \<union> set (ms @ [x]), ms @ [x])
        = (old \<union> set ((ms @ [x]) @ ms'), (ms @ [x]) @ ms')" "distinct ((ms @ [x]) @ ms')" "set ((ms @ [x]) @ ms') \<inter> old = {}"
        "set ((ms @ [x]) @ ms') \<union> old = set (ms @ [x]) \<union> old \<union> set xs" by blast
    ultimately show ?thesis by (intro exI [of _ "x # ms'"]) auto
  qed
qed (use assms in auto)

text \<open>
  The walk: the queue holds members of the component, those read have their neighbours in it, and
  what was reached before is left alone.
\<close>

lemma walk_spec:
  assumes start: "start \<in> nodes weights" and old: "old \<inter> reach weights start = {}"
    and ms: "distinct ms" "set ms \<subseteq> reach weights start" "start \<in> set ms" "k \<le> length ms"
    and read: "\<And>i. i < k \<Longrightarrow> neighbours weights (ms ! i) \<subseteq> set ms" and n: "n = card (nodes weights)" "k \<le> n"
  shows "\<exists>ms'. walk (neighbours weights) [k..<n] (old \<union> set ms, ms) = (old \<union> reach weights start, ms')
    \<and> distinct ms' \<and> set ms' = reach weights start"
  using ms read n(2)
proof (induction "n - k" arbitrary: k ms)
  case (0 k ms)
  have "length ms = card (set ms)" using 0 by (simp add: distinct_card)
  also have "\<dots> \<le> n" unfolding n(1) using 0 reach_nodes [OF start] by (intro card_mono) auto
  finally have "k = length ms" using 0 by simp
  then have "neighbours weights a \<subseteq> set ms" if "a \<in> set ms" for a using 0 that by (auto simp: in_set_conv_nth)
  then have "set ms = reach weights start" using reach_least [of start "set ms" weights] 0 by auto
  then show ?case using 0 by (intro exI [of _ ms]) simp
next
  case (Suc d k ms)
  then have kn: "[k..<n] = k # [Suc k..<n]" by (simp add: upt_rec)
  show ?case
  proof (cases "k = length ms")
    case True
    then have "neighbours weights a \<subseteq> set ms" if "a \<in> set ms" for a using Suc.prems that by (auto simp: in_set_conv_nth)
    then have "set ms = reach weights start" using reach_least [of start "set ms" weights] Suc.prems by auto
    then show ?thesis unfolding kn using Suc.prems(1) by (intro exI [of _ ms]) (simp add: True)
  next
    case False
    then have k: "k < length ms" using Suc.prems by simp
    let ?xs = "sorted_list_of_set (neighbours weights (ms ! k))"
    have "set ms \<inter> old = {}" using old Suc.prems by auto
    from fold_visit [OF this Suc.prems(1), of ?xs] obtain ms' where ms':
      "fold visit ?xs (old \<union> set ms, ms) = (old \<union> set (ms @ ms'), ms @ ms')" "distinct (ms @ ms')"
      "set (ms @ ms') \<inter> old = {}" "set (ms @ ms') \<union> old = set ms \<union> old \<union> set ?xs" by blast
    have "ms ! k \<in> reach weights start" using Suc.prems k by auto
    then have nb: "neighbours weights (ms ! k) \<subseteq> reach weights start" using reach_step by blast
    have sub: "set (ms @ ms') \<subseteq> reach weights start"
    proof
      fix a assume "a \<in> set (ms @ ms')"
      then have "a \<in> set ms \<union> set ?xs" using ms'(3,4) by blast
      then show "a \<in> reach weights start" using nb Suc.prems(2) by auto
    qed
    have "set ?xs \<inter> old = {}" using nb old by auto
    then have new: "set ?xs \<subseteq> set (ms @ ms')" using ms'(4) by blast
    have "neighbours weights ((ms @ ms') ! i) \<subseteq> set (ms @ ms')" if "i < Suc k" for i
    proof (cases "i = k")
      case True
      then show ?thesis using new k by (simp add: nth_append)
    next
      case False
      then show ?thesis using that Suc.prems(5) [of i] k by (fastforce simp: nth_append)
    qed
    then have "\<exists>ms''. walk (neighbours weights) [Suc k..<n] (old \<union> set (ms @ ms'), ms @ ms') = (old \<union> reach weights start, ms'')
      \<and> distinct ms'' \<and> set ms'' = reach weights start"
      using Suc.prems Suc.hyps(2) k ms'(2) sub by (intro Suc.hyps(1)) auto
    then show ?thesis using False ms'(1) by (simp add: kn)
  qed
qed

section \<open>Components\<close>

definition side_reach :: "weights \<Rightarrow> string \<Rightarrow> node \<Rightarrow> string list" where
  "side_reach weights side n = sorted_list_of_set {x. (side, x) \<in> reach weights n}"

lemma finite_side: "n \<in> nodes weights \<Longrightarrow> finite {x. (side, x) \<in> reach weights n}"
proof -
  assume "n \<in> nodes weights"
  then have "finite (reach weights n)" by (rule finite_subset [OF reach_nodes finite_nodes(1)])
  then have "finite (snd ` reach weights n)" by simp
  moreover have "{x. (side, x) \<in> reach weights n} \<subseteq> snd ` reach weights n"
  proof
    fix x assume "x \<in> {x. (side, x) \<in> reach weights n}"
    then show "x \<in> snd ` reach weights n" by (intro image_eqI [of _ _ "(side, x)"]) simp_all
  qed
  ultimately show ?thesis by (rule rev_finite_subset)
qed

lemma set_side_reach [simp]: "n \<in> nodes weights \<Longrightarrow> set (side_reach weights side n) = {x. (side, x) \<in> reach weights n}"
  by (simp add: side_reach_def finite_side)

lemma distinct_side_reach [simp]: "distinct (side_reach weights side n)"
  by (simp add: side_reach_def)

lemma side_reach_eq: "a \<in> reach weights n \<Longrightarrow> side_reach weights side a = side_reach weights side n"
  by (simp add: side_reach_def reach_eq)

lemma side_ids_reach:
  assumes "distinct ms" "set ms = reach weights n"
  shows "side_ids side ms = side_reach weights side n"
proof -
  have "{x. (side, x) \<in> reach weights n} = set (map snd (filter (\<lambda>m. fst m = side) ms))"
    unfolding assms(2) [symmetric] by force
  moreover have "distinct (map snd (filter (\<lambda>m. fst m = side) ms))"
    using assms(1) by (auto simp: distinct_map inj_on_def prod_eq_iff)
  ultimately show ?thesis
    unfolding side_ids_def side_reach_def by (simp only: sorted_list_of_set_sort_remdups distinct_remdups_id)
qed

definition component_pair :: "weights \<Rightarrow> node \<Rightarrow> string list \<times> string list" where
  "component_pair weights n = (side_reach weights ''L'' n, side_reach weights ''R'' n)"

text \<open>
  The components come out once each, for starting records none of which reaches another, and
  together they reach every record with an edge.
\<close>

lemma components_fold:
  assumes "set ns \<subseteq> nodes weights"
  shows "\<exists>starts. fold (component_step weights) ns ({}, []) = (\<Union> (reach weights ` set starts), map (component_pair weights) starts)
    \<and> set starts \<subseteq> nodes weights \<and> set ns \<subseteq> \<Union> (reach weights ` set starts)
    \<and> (\<forall>i < length starts. \<forall>j < i. starts ! i \<notin> reach weights (starts ! j))"
  using assms
proof (induction ns rule: rev_induct)
  case Nil
  then show ?case by (intro exI [of _ "[]"]) simp
next
  case (snoc n ns)
  then obtain starts where st: "fold (component_step weights) ns ({}, []) = (\<Union> (reach weights ` set starts), map (component_pair weights) starts)"
    "set starts \<subseteq> nodes weights" "set ns \<subseteq> \<Union> (reach weights ` set starts)"
    "\<forall>i < length starts. \<forall>j < i. starts ! i \<notin> reach weights (starts ! j)" by auto
  let ?old = "\<Union> (reach weights ` set starts)"
  have n: "n \<in> nodes weights" using snoc.prems by simp
  show ?case
  proof (cases "n \<in> ?old")
    case True
    then have "component_step weights n (?old, map (component_pair weights) starts) = (?old, map (component_pair weights) starts)"
      by (simp add: component_step_def)
    then show ?thesis using st True by (intro exI [of _ starts]) simp
  next
    case False
    have "?old \<inter> reach weights n = {}"
    proof (rule ccontr)
      assume "?old \<inter> reach weights n \<noteq> {}"
      then obtain a s where "s \<in> set starts" "a \<in> reach weights s" "a \<in> reach weights n" by blast
      then have "n \<in> reach weights s" using reach_eq reach_refl by metis
      then show False using False \<open>s \<in> set starts\<close> by blast
    qed
    from walk_spec [OF n this, of "[n]" 0 "card (nodes weights)"] obtain ms where
      ms: "walk (neighbours weights) [0..<card (nodes weights)] (insert n ?old, [n]) = (?old \<union> reach weights n, ms)"
        "distinct ms" "set ms = reach weights n" by auto
    have "component_step weights n (?old, map (component_pair weights) starts)
        = (?old \<union> reach weights n, map (component_pair weights) (starts @ [n]))"
      using False ms(1) side_ids_reach [OF ms(2,3)] by (simp add: component_step_def component_pair_def)
    moreover have "\<forall>i < length (starts @ [n]). \<forall>j < i. (starts @ [n]) ! i \<notin> reach weights ((starts @ [n]) ! j)"
      using st(4) False by (auto simp: nth_append less_Suc_eq)
    ultimately show ?thesis using st n by (intro exI [of _ "starts @ [n]"]) auto
  qed
qed

lemma assign_components_spec:
  obtains starts where "assign_components weights = map (component_pair weights) starts"
    "set starts \<subseteq> nodes weights" "nodes weights = \<Union> (reach weights ` set starts)"
    "\<And>i j. i < length starts \<Longrightarrow> j < i \<Longrightarrow> starts ! i \<notin> reach weights (starts ! j)"
proof -
  obtain starts where st: "fold (component_step weights) (sorted_list_of_set (nodes weights)) ({}, [])
      = (\<Union> (reach weights ` set starts), map (component_pair weights) starts)" "set starts \<subseteq> nodes weights"
    "nodes weights \<subseteq> \<Union> (reach weights ` set starts)"
    "\<forall>i < length starts. \<forall>j < i. starts ! i \<notin> reach weights (starts ! j)"
    using components_fold [of "sorted_list_of_set (nodes weights)" weights] by auto
  have "reach weights s \<subseteq> nodes weights" if "s \<in> set starts" for s using st(2) that by (intro reach_nodes) blast
  then have "nodes weights = \<Union> (reach weights ` set starts)" using st(3) by blast
  moreover have "assign_components weights = map (component_pair weights) starts" by (simp add: assign_components_def st(1))
  ultimately show ?thesis using that [of starts] st(2,4) by blast
qed

section \<open>Validation\<close>

definition edge_weights :: "Edge list \<Rightarrow> weights" where
  "edge_weights edges = map (\<lambda>e. ((e_left e, e_right e), e_weight e)) edges"

definition valid_edges :: "string list \<Rightarrow> string list \<Rightarrow> Edge list \<Rightarrow> bool" where
  "valid_edges lefts rights edges \<longleftrightarrow> distinct (map (\<lambda>e. (e_left e, e_right e)) edges)
     \<and> (\<forall>e \<in> set edges. e_left e \<in> set lefts \<and> e_right e \<in> set rights \<and> 1 \<le> e_weight e \<and> e_weight e \<le> MAX_WEIGHT)"

definition valid_input :: "string list \<Rightarrow> string list \<Rightarrow> Edge list \<Rightarrow> int \<Rightarrow> int \<Rightarrow> bool" where
  "valid_input lefts rights edges margin max_component \<longleftrightarrow>
     0 \<le> margin \<and> 1 \<le> max_component \<and> distinct lefts \<and> distinct rights \<and> valid_edges lefts rights edges"

lemma dict_put_fresh: "k \<notin> fst ` set d \<Longrightarrow> dict_put k v d = d @ [(k, v)]"
  by (induction d) auto

lemma validate_edges:
  "if valid_edges lefts rights edges
   then foldE (validate_edge lefts rights) [] edges = Inr (edge_weights edges)
   else (\<exists>x. foldE (validate_edge lefts rights) [] edges = Inl x)"
proof (induction edges rule: rev_induct)
  case Nil
  then show ?case by (simp add: valid_edges_def edge_weights_def)
next
  case (snoc e es)
  show ?case
  proof (cases "valid_edges lefts rights es")
    case True
    then have fs: "foldE (validate_edge lefts rights) [] es = Inr (edge_weights es)" using snoc by simp
    have keys: "fst ` set (edge_weights es) = (\<lambda>e. (e_left e, e_right e)) ` set es" by (simp add: edge_weights_def image_image)
    show ?thesis
    proof (cases "valid_edges lefts rights (es @ [e])")
      case v: True
      then have "(e_left e, e_right e) \<notin> fst ` set (edge_weights es)" unfolding keys by (auto simp: valid_edges_def)
      then have "validate_edge lefts rights (edge_weights es) e = Inr (edge_weights (es @ [e]))"
        using v by (simp add: validate_edge_def valid_edges_def dict_put_fresh) (simp add: edge_weights_def)
      then show ?thesis using v fs by (simp add: foldE_append)
    next
      case nv: False
      have "\<exists>x. validate_edge lefts rights (edge_weights es) e = Inl x"
      proof (rule ccontr)
        assume "\<not> ?thesis"
        then have "e_left e \<in> set lefts" "e_right e \<in> set rights" "(e_left e, e_right e) \<notin> fst ` set (edge_weights es)"
          "1 \<le> e_weight e" "e_weight e \<le> MAX_WEIGHT" by (auto simp: validate_edge_def split: if_splits)
        then show False using nv True unfolding keys by (auto simp: valid_edges_def)
      qed
      then show ?thesis using nv fs by (auto simp: foldE_append)
    qed
  next
    case False
    then have "\<exists>x. foldE (validate_edge lefts rights) [] es = Inl x" using snoc by simp
    moreover have "\<not> valid_edges lefts rights (es @ [e])" using False by (auto simp: valid_edges_def)
    ultimately show ?thesis by (auto simp: foldE_append)
  qed
qed

lemma validated_cases:
  "if valid_input lefts rights edges margin max_component
   then validated lefts rights edges margin max_component = Inr (sort lefts, sort rights, edge_weights edges)
   else (\<exists>x. validated lefts rights edges margin max_component = Inl x)"
  using validate_edges [of lefts rights edges]
  by (auto simp: validated_def valid_input_def checkE_def split: if_splits)

section \<open>Decisions\<close>

definition best_of :: "string list \<Rightarrow> string list \<Rightarrow> weights \<Rightarrow> int \<Rightarrow> bool" where
  "best_of ls rs weights best \<longleftrightarrow> (\<exists>M. matching ls rs weights M \<and> total_weight weights M = best)
     \<and> (\<forall>M. matching ls rs weights M \<longrightarrow> total_weight weights M \<le> best)"

text \<open>What is decided of a record, from the component it can reach.\<close>

definition decided_by ::
    "weights \<Rightarrow> int \<Rightarrow> int \<Rightarrow> (string \<times> string \<Rightarrow> string) \<Rightarrow> (string \<times> string \<Rightarrow> string) \<Rightarrow> string \<Rightarrow> ADecision \<Rightarrow> bool" where
  "decided_by weights margin max_component mine other side d \<longleftrightarrow>
     (let n = (side, d_id d); ls = side_reach weights ''L'' n; rs = side_reach weights ''R'' n in
      if n \<notin> nodes weights then d_status d = NO_CANDIDATE_EDGE \<and> d_partner d = None \<and> d_component d = None
      else if int (max (length ls) (length rs)) > max_component then d_status d = OVERSIZED \<and> d_partner d = None
      else (\<exists>best. best_of ls rs weights best
        \<and> agreed (near_optimal ls rs weights (best - margin)) mine other (d_id d) (d_status d, d_partner d)))"

lemma component_solvable:
  assumes W: "weights = edge_weights edges" "valid_edges lefts rights edges" and n: "n \<in> nodes weights"
  shows "solvable (side_reach weights ''L'' n) (side_reach weights ''R'' n) weights"
proof -
  have w: "1 \<le> weight_of weights e" if "map_of weights e \<noteq> None" for e
  proof -
    obtain w where w: "map_of weights e = Some w" using \<open>map_of weights e \<noteq> None\<close> by blast
    then have "(e, w) \<in> set weights" by (rule map_of_SomeD)
    then show ?thesis using W w by (auto simp: edge_weights_def valid_edges_def weight_of_def)
  qed
  have key: "map_of weights (l, r) \<noteq> None \<longleftrightarrow> (l, r) \<in> fst ` set weights" for l r by (simp add: map_of_eq_None_iff)
  have "\<exists>y \<in> set (side_reach weights ''R'' n). map_of weights (x, y) \<noteq> None" if x: "x \<in> set (side_reach weights ''L'' n)" for x
  proof -
    have r: "(''L'', x) \<in> reach weights n" using x n by simp
    then obtain b where b: "b \<in> neighbours weights (''L'', x)" using node_has_neighbour reach_nodes [OF n] by blast
    then obtain y where y: "b = (''R'', y)" "(x, y) \<in> fst ` set weights" by (auto simp: neighbours_iff)
    have "y \<in> set (side_reach weights ''R'' n)" using reach_step [OF r b] n y by simp
    then show ?thesis using key y(2) by blast
  qed
  moreover have "\<exists>x \<in> set (side_reach weights ''L'' n). map_of weights (x, y) \<noteq> None" if y: "y \<in> set (side_reach weights ''R'' n)" for y
  proof -
    have r: "(''R'', y) \<in> reach weights n" using y n by simp
    then obtain b where b: "b \<in> neighbours weights (''R'', y)" using node_has_neighbour reach_nodes [OF n] by blast
    then obtain x where x: "b = (''L'', x)" "(x, y) \<in> fst ` set weights" by (auto simp: neighbours_iff)
    have "x \<in> set (side_reach weights ''L'' n)" using reach_step [OF r b] n x by simp
    then show ?thesis using key x(2) by blast
  qed
  moreover have "\<forall>e \<in> edges_between (side_reach weights ''L'' n) (side_reach weights ''R'' n) weights. 1 \<le> weight_of weights e"
    using w by (simp add: edges_between_def)
  ultimately show ?thesis unfolding solvable_def by simp
qed

definition node_decided :: "weights \<Rightarrow> int \<Rightarrow> int \<Rightarrow> node \<Rightarrow> ADecision \<Rightarrow> bool" where
  "node_decided weights margin max_component m d \<longleftrightarrow> d_id d = snd m
     \<and> (fst m = ''L'' \<longrightarrow> decided_by weights margin max_component fst snd ''L'' d)
     \<and> (fst m = ''R'' \<longrightarrow> decided_by weights margin max_component snd fst ''R'' d)"

lemma nodes_sides: "m \<in> nodes weights \<Longrightarrow> fst m = ''L'' \<or> fst m = ''R''"
  by (auto simp: nodes_iff)

lemma reach_pairs:
  assumes n: "n \<in> nodes weights"
  shows "set (map (Pair ''L'') (side_reach weights ''L'' n) @ map (Pair ''R'') (side_reach weights ''R'' n)) = reach weights n"
proof -
  have "m \<in> reach weights n \<Longrightarrow> m = (''L'', snd m) \<or> m = (''R'', snd m)" for m
    using reach_nodes [OF n] nodes_sides [of m weights] by (auto simp: prod_eq_iff)
  then show ?thesis using n by (auto simp: image_iff)
qed

lemma fold_upd_all:
  "fold (\<lambda>(side, x) d. d((side, x) \<mapsto> f x)) ms dec = (\<lambda>m. if m \<in> set ms then Some (f (snd m)) else dec m)"
proof (induction ms arbitrary: dec)
  case (Cons m ms)
  then show ?case by (cases m) (auto simp: fun_eq_iff)
qed simp

lemma resolvedD:
  assumes "resolved ls rs weights margin best L R"
  shows "x \<in> set ls \<Longrightarrow> \<exists>s p. L x = Some (s, p) \<and> agreed (near_optimal ls rs weights (best - margin)) fst snd x (s, p)"
    "y \<in> set rs \<Longrightarrow> \<exists>s p. R y = Some (s, p) \<and> agreed (near_optimal ls rs weights (best - margin)) snd fst y (s, p)"
proof -
  have some: "\<exists>s p. m z = Some (s, p) \<and> P (s, p)" if "z \<in> dom m" "P (the (m z))" for m :: decided and z P
    using that by (cases "m z") auto
  show "\<exists>s p. L x = Some (s, p) \<and> agreed (near_optimal ls rs weights (best - margin)) fst snd x (s, p)" if "x \<in> set ls"
    using assms that by (intro some) (auto simp: resolved_def simp del: agreed.simps)
  show "\<exists>s p. R y = Some (s, p) \<and> agreed (near_optimal ls rs weights (best - margin)) snd fst y (s, p)" if "y \<in> set rs"
    using assms that by (intro some) (auto simp: resolved_def simp del: agreed.simps)
qed

lemma component_decides:
  assumes W: "weights = edge_weights edges" "valid_edges lefts rights edges" and n: "n \<in> nodes weights" and margin: "0 \<le> margin"
  shows "\<exists>dec' comps'. component_decisions weights margin max_component (dec, comps) (component_pair weights n) = Inr (dec', comps')
    \<and> (\<forall>m \<in> reach weights n. \<exists>d. dec' m = Some d \<and> node_decided weights margin max_component m d)
    \<and> (\<forall>m. m \<notin> reach weights n \<longrightarrow> dec' m = dec m)"
proof -
  let ?ls = "side_reach weights ''L'' n" and ?rs = "side_reach weights ''R'' n"
  have same: "side_reach weights side m = side_reach weights side n" "m \<in> nodes weights" if "m \<in> reach weights n" for m side
    using that side_reach_eq reach_nodes [OF n] by blast+
  show ?thesis
  proof (cases "int (max (length ?ls) (length ?rs)) > max_component")
    case True
    have "node_decided weights margin max_component m
        \<lparr>d_id = snd m, d_status = OVERSIZED, d_partner = None, d_component = c\<rparr>" if m: "m \<in> reach weights n" for m c
      using True same [OF m] by (cases m) (auto simp: node_decided_def decided_by_def Let_def)
    moreover have "component_decisions weights margin max_component (dec, comps) (component_pair weights n)
        = Inr (\<lambda>m. if m \<in> reach weights n
            then Some \<lparr>d_id = snd m, d_status = OVERSIZED, d_partner = None, d_component = Some (length comps)\<rparr> else dec m,
          comps @ [\<lparr>c_left = ?ls, c_right = ?rs, c_best = None\<rparr>])"
      using True by (simp add: component_decisions_def component_pair_def Let_def fold_upd_all reach_pairs [OF n] del: set_append fold_append)
    ultimately show ?thesis by simp
  next
    case False
    obtain best L R where res: "resolve ?ls ?rs weights margin = Inr (best, L, R)" "resolved ?ls ?rs weights margin best L R"
      using resolve_resolved [OF component_solvable [OF W n] margin] by blast
    let ?d = "\<lambda>m. case (if fst m = ''L'' then L (snd m) else if fst m = ''R'' then R (snd m) else None) of
        None \<Rightarrow> dec m | Some (status, partner) \<Rightarrow>
          Some \<lparr>d_id = snd m, d_status = status, d_partner = partner, d_component = Some (length comps)\<rparr>"
    have step: "component_decisions weights margin max_component (dec, comps) (component_pair weights n)
        = Inr (?d, comps @ [\<lparr>c_left = ?ls, c_right = ?rs, c_best = Some best\<rparr>])"
      using False res(1) by (auto simp: component_decisions_def component_pair_def Let_def fun_eq_iff split: option.splits)
    have best: "best_of ?ls ?rs weights best" using res(2) by (auto simp: resolved_def best_of_def)
    have "\<exists>d. ?d m = Some d \<and> node_decided weights margin max_component m d" if m: "m \<in> reach weights n" for m
    proof (cases "fst m = ''L''")
      case True
      then have x: "snd m \<in> set ?ls" using m n by (cases m) simp
      then obtain s p where sp: "L (snd m) = Some (s, p)" "agreed (near_optimal ?ls ?rs weights (best - margin)) fst snd (snd m) (s, p)"
        using resolvedD(1) [OF res(2)] by blast
      then have "decided_by weights margin max_component fst snd ''L''
          \<lparr>d_id = snd m, d_status = s, d_partner = p, d_component = Some (length comps)\<rparr>"
        using same [OF m] False True best by (cases m) (auto simp: decided_by_def Let_def simp del: agreed.simps)
      then show ?thesis using True sp(1) by (simp add: node_decided_def)
    next
      case nl: False
      then have r: "fst m = ''R''" using nodes_sides [OF same(2) [OF m]] by blast
      then have x: "snd m \<in> set ?rs" using m n by (cases m) simp
      then obtain s p where sp: "R (snd m) = Some (s, p)" "agreed (near_optimal ?ls ?rs weights (best - margin)) snd fst (snd m) (s, p)"
        using resolvedD(2) [OF res(2)] by blast
      then have "decided_by weights margin max_component snd fst ''R''
          \<lparr>d_id = snd m, d_status = s, d_partner = p, d_component = Some (length comps)\<rparr>"
        using same [OF m] False r best by (cases m) (auto simp: decided_by_def Let_def simp del: agreed.simps)
      then show ?thesis using r sp(1) by (simp add: node_decided_def)
    qed
    moreover have "?d m = dec m" if "m \<notin> reach weights n" for m
    proof -
      have "fst m = ''L'' \<Longrightarrow> snd m \<notin> dom L" "fst m = ''R'' \<Longrightarrow> snd m \<notin> dom R"
        using that res(2) n by (cases m; simp add: resolved_def)+
      then show ?thesis by (simp add: domIff)
    qed
    ultimately show ?thesis using step by blast
  qed
qed

lemma components_decide:
  assumes W: "weights = edge_weights edges" "valid_edges lefts rights edges" and margin: "0 \<le> margin"
    and starts: "set starts \<subseteq> nodes weights"
  shows "\<exists>dec comps. foldE (component_decisions weights margin max_component) (Map.empty, []) (map (component_pair weights) starts)
      = Inr (dec, comps)
    \<and> (\<forall>m \<in> \<Union> (reach weights ` set starts). \<exists>d. dec m = Some d \<and> node_decided weights margin max_component m d)
    \<and> (\<forall>m. m \<notin> \<Union> (reach weights ` set starts) \<longrightarrow> dec m = None)"
  using starts
proof (induction starts rule: rev_induct)
  case (snoc n ns)
  then obtain dec comps where ns: "foldE (component_decisions weights margin max_component) (Map.empty, []) (map (component_pair weights) ns)
      = Inr (dec, comps)"
    "\<forall>m \<in> \<Union> (reach weights ` set ns). \<exists>d. dec m = Some d \<and> node_decided weights margin max_component m d"
    "\<forall>m. m \<notin> \<Union> (reach weights ` set ns) \<longrightarrow> dec m = None" by auto
  have n: "n \<in> nodes weights" using snoc.prems by simp
  obtain dec' comps' where n': "component_decisions weights margin max_component (dec, comps) (component_pair weights n) = Inr (dec', comps')"
    "\<forall>m \<in> reach weights n. \<exists>d. dec' m = Some d \<and> node_decided weights margin max_component m d"
    "\<forall>m. m \<notin> reach weights n \<longrightarrow> dec' m = dec m"
    using component_decides [OF W n margin] by blast
  have "\<forall>m \<in> \<Union> (reach weights ` set (ns @ [n])). \<exists>d. dec' m = Some d \<and> node_decided weights margin max_component m d"
  proof
    fix m assume m: "m \<in> \<Union> (reach weights ` set (ns @ [n]))"
    show "\<exists>d. dec' m = Some d \<and> node_decided weights margin max_component m d"
    proof (cases "m \<in> reach weights n")
      case False
      then have "m \<in> \<Union> (reach weights ` set ns)" using m by auto
      then show ?thesis using ns(2) n'(3) False by force
    qed (use n'(2) in blast)
  qed
  moreover have "\<forall>m. m \<notin> \<Union> (reach weights ` set (ns @ [n])) \<longrightarrow> dec' m = None" using ns(3) n'(3) by simp
  ultimately show ?case using ns(1) n'(1) by (simp add: foldE_append)
qed simp

lemma assign_decided:
  "if valid_input lefts rights edges margin max_component
   then \<exists>r. assign lefts rights edges margin max_component = Inr r
     \<and> map d_id (r_left r) = sort lefts \<and> map d_id (r_right r) = sort rights
     \<and> list_all (decided_by (edge_weights edges) margin max_component fst snd ''L'') (r_left r)
     \<and> list_all (decided_by (edge_weights edges) margin max_component snd fst ''R'') (r_right r)
   else (\<exists>e. assign lefts rights edges margin max_component = Inl e)"
proof (cases "valid_input lefts rights edges margin max_component")
  case True
  define W where "W = edge_weights edges"
  have val: "validated lefts rights edges margin max_component = Inr (sort lefts, sort rights, W)"
    using validated_cases [of lefts rights edges margin max_component] True by (simp add: W_def)
  obtain starts where st: "assign_components W = map (component_pair W) starts" "set starts \<subseteq> nodes W"
    "nodes W = \<Union> (reach W ` set starts)" by (rule assign_components_spec)
  have valid: "valid_edges lefts rights edges" "0 \<le> margin" using True by (simp_all add: valid_input_def)
  obtain dec comps where dec: "foldE (component_decisions W margin max_component) (Map.empty, []) (assign_components W) = Inr (dec, comps)"
    "\<forall>m \<in> nodes W. \<exists>d. dec m = Some d \<and> node_decided W margin max_component m d"
    "\<forall>m. m \<notin> nodes W \<longrightarrow> dec m = None"
    using components_decide [OF W_def valid st(2), of max_component] unfolding st(1,3) by blast
  have ok: "d_id (assign_decision dec side x) = x"
      "side = ''L'' \<Longrightarrow> decided_by W margin max_component fst snd ''L'' (assign_decision dec side x)"
      "side = ''R'' \<Longrightarrow> decided_by W margin max_component snd fst ''R'' (assign_decision dec side x)" for side x
  proof -
    have "d_id (assign_decision dec side x) = x
      \<and> (side = ''L'' \<longrightarrow> decided_by W margin max_component fst snd ''L'' (assign_decision dec side x))
      \<and> (side = ''R'' \<longrightarrow> decided_by W margin max_component snd fst ''R'' (assign_decision dec side x))"
    proof (cases "(side, x) \<in> nodes W")
      case in_nodes: True
      then obtain d where d: "dec (side, x) = Some d" "node_decided W margin max_component (side, x) d" using dec(2) by blast
      then show ?thesis by (auto simp: assign_decision_def node_decided_def)
    next
      case False
      then have "dec (side, x) = None" using dec(3) by blast
      then show ?thesis using False by (auto simp: assign_decision_def decided_by_def)
    qed
    then show "d_id (assign_decision dec side x) = x"
      "side = ''L'' \<Longrightarrow> decided_by W margin max_component fst snd ''L'' (assign_decision dec side x)"
      "side = ''R'' \<Longrightarrow> decided_by W margin max_component snd fst ''R'' (assign_decision dec side x)" by blast+
  qed
  have "assign lefts rights edges margin max_component = Inr \<lparr>r_left = map (assign_decision dec ''L'') (sort lefts),
      r_right = map (assign_decision dec ''R'') (sort rights), r_components = comps\<rparr>"
    using val dec(1) by (simp add: assign_def)
  then show ?thesis using True ok by (simp add: W_def comp_def list_all_iff)
next
  case False
  then show ?thesis using validated_cases [of lefts rights edges margin max_component] by (auto simp: assign_def)
qed

text \<open>
  C27 The assignment decides every record once, and exactly as the data allow.  It is refused
  exactly when the input is invalid.  Otherwise each side comes back in order, one decision per
  record: \<open>NO_CANDIDATE\<close> for a record without an edge, \<open>OVERSIZED\<close> when its connected component
  is above the bound, and else \<open>MATCHED\<close> to a partner when every matching of the component within
  the margin of the heaviest one pairs them, \<open>UNMATCHED\<close> when all of them leave it alone, and
  \<open>AMBIGUOUS\<close> when they disagree.
\<close>

theorem assign_decides:
  "if valid_input lefts rights edges margin max_component
   then \<exists>r. assign lefts rights edges margin max_component = Inr r
     \<and> map d_id (r_left r) = sort lefts \<and> map d_id (r_right r) = sort rights
     \<and> list_all (decided_by (edge_weights edges) margin max_component fst snd ''L'') (r_left r)
     \<and> list_all (decided_by (edge_weights edges) margin max_component snd fst ''R'') (r_right r)
   else (\<exists>e. assign lefts rights edges margin max_component = Inl e)"
  by (rule assign_decided)

end
