(* ===== verification/Timing.thy ===== *)
theory Timing
  imports Assignment Dedup Topology
begin

text \<open>
  The timing path (\<open>correlation/timing.py\<close>): for the hops that only timing can carry, the
  pairs of observations whose gaps fall within the calibrated windows are the candidates,
  the assignment core decides among them, and a pair in too dense a neighbourhood is
  withdrawn.  Times are integers, in microseconds.

  Observations and parameters are well-typed here: the checks that a field is an integer
  have nothing to refuse.
\<close>

definition timing_SIDES :: "string list" where "timing_SIDES = [''inbound'', ''outbound'']"
definition SIGNALS :: "string list" where "SIGNALS = [''start'', ''end'', ''duration'']"

record Timed =
  t_source :: string
  t_seq :: int
  t_point :: string
  t_side :: string
  start_us :: int
  end_us :: int

record Signal =
  s_name :: string
  offset_us :: int
  window_us :: int

record JoinParams =
  signals :: "Signal list"
  margin_us :: int
  j_max_component :: int
  local_span_us :: int
  local_limit_permille :: int

record Candidate =
  k_upstream :: identity
  k_downstream :: identity
  k_weight :: int

record DerivedLink =
  v_where :: string
  v_upstream :: identity
  v_downstream :: identity
  v_weight :: int

record Undecided =
  n_where :: string
  n_observation :: identity
  n_side :: string
  n_status :: AStatus

record TimedResult =
  tr_links :: "DerivedLink list"
  tr_undecided :: "Undecided list"
  tr_duplicates_dropped :: int
  tr_components :: "(string \<times> nat) list"

definition t_identity :: "Timed \<Rightarrow> identity" where
  "t_identity x = (t_source x, t_seq x)"

section \<open>Gaps\<close>

definition gap :: "string \<Rightarrow> Timed \<Rightarrow> Timed \<Rightarrow> int" where
  "gap name a b =
     (if name = ''start'' then start_us b - start_us a
      else if name = ''end'' then end_us a - end_us b
      else (end_us a - start_us a) - (end_us b - start_us b))"

definition reference_of :: "string \<Rightarrow> Timed \<Rightarrow> int" where
  "reference_of name b =
     (if name = ''start'' then start_us b else if name = ''end'' then end_us b else end_us b - start_us b)"

definition range_of :: "Signal \<Rightarrow> Timed \<Rightarrow> int \<times> int" where
  "range_of signal a =
     (let m = offset_us signal; w = window_us signal in
      if s_name signal = ''start'' then (start_us a + m - w, start_us a + m + w)
      else if s_name signal = ''end'' then (end_us a - m - w, end_us a - m + w)
      else let duration = end_us a - start_us a in (duration - m - w, duration - m + w))"

section \<open>\<open>bisect\<close>\<close>

text \<open>The binary searches of the standard library, on a slice \<open>lo..hi\<close>.\<close>

function bisect_left_in :: "int list \<Rightarrow> int \<Rightarrow> nat \<Rightarrow> nat \<Rightarrow> nat" where
  "bisect_left_in xs x lo hi =
     (if lo < hi then
        let mid = (lo + hi) div 2 in
        if xs ! mid < x then bisect_left_in xs x (mid + 1) hi else bisect_left_in xs x lo mid
      else lo)"
  by pat_completeness auto
termination
  by (relation "measure (\<lambda>(xs, x, lo, hi). hi - lo)") auto

function bisect_right_in :: "int list \<Rightarrow> int \<Rightarrow> nat \<Rightarrow> nat \<Rightarrow> nat" where
  "bisect_right_in xs x lo hi =
     (if lo < hi then
        let mid = (lo + hi) div 2 in
        if x < xs ! mid then bisect_right_in xs x lo mid else bisect_right_in xs x (mid + 1) hi
      else lo)"
  by pat_completeness auto
termination
  by (relation "measure (\<lambda>(xs, x, lo, hi). hi - lo)") auto

declare bisect_left_in.simps [simp del] bisect_right_in.simps [simp del]

definition bisect_left :: "int list \<Rightarrow> int \<Rightarrow> nat" where
  "bisect_left xs x = bisect_left_in xs x 0 (length xs)"

definition bisect_right :: "int list \<Rightarrow> int \<Rightarrow> nat" where
  "bisect_right xs x = bisect_right_in xs x 0 (length xs)"

section \<open>Parameters\<close>

definition validate_signal :: "Signal \<Rightarrow> unit result" where
  "validate_signal s =
     bindE (checkE (s_name s \<in> set SIGNALS) (ValueError ''unknown signal'')) (\<lambda>_.
     checkE (window_us s > 0) (ValueError ''window must be > 0''))"

definition validate_params :: "JoinParams \<Rightarrow> unit result" where
  "validate_params p =
     bindE (checkE (1 \<le> length (signals p) \<and> length (signals p) \<le> 2) (ValueError ''a join takes one or two signals'')) (\<lambda>_.
     bindE (checkE (distinct (map s_name (signals p))) (ValueError ''a signal is given twice'')) (\<lambda>_.
     bindE (foldE (\<lambda>_. validate_signal) () (signals p)) (\<lambda>_.
     bindE (checkE (1 + sum_list (map window_us (signals p)) \<le> MAX_WEIGHT) (ValueError ''windows too wide'')) (\<lambda>_.
     bindE (checkE (local_span_us p \<ge> 0) (ValueError ''local_span_us must be an integer >= 0'')) (\<lambda>_.
     checkE (1 \<le> local_limit_permille p \<and> local_limit_permille p \<le> 1000)
       (ValueError ''local_limit_permille must be an integer in 1..1000''))))))"

section \<open>Candidates\<close>

definition in_windows :: "JoinParams \<Rightarrow> Timed \<Rightarrow> Timed \<Rightarrow> bool" where
  "in_windows p a b \<longleftrightarrow> (\<forall>s \<in> set (signals p). \<bar>gap (s_name s) a b - offset_us s\<bar> \<le> window_us s)"

definition candidate_weight :: "JoinParams \<Rightarrow> Timed \<Rightarrow> Timed \<Rightarrow> int" where
  "candidate_weight p a b =
     1 + sum_list (map (\<lambda>s. window_us s - \<bar>gap (s_name s) a b - offset_us s\<bar>) (signals p))"

definition slice :: "nat \<Rightarrow> nat \<Rightarrow> 'a list \<Rightarrow> 'a list" where
  "slice i j xs = drop i (take j xs)"

definition candidates_of :: "JoinParams \<Rightarrow> Signal \<Rightarrow> Timed list \<Rightarrow> int list \<Rightarrow> Timed \<Rightarrow> Candidate list" where
  "candidates_of p first downs refs a =
     (let (low, high) = range_of first a in
      map (\<lambda>b. \<lparr>k_upstream = t_identity a, k_downstream = t_identity b, k_weight = candidate_weight p a b\<rparr>)
        (filter (in_windows p a) (slice (bisect_left refs low) (bisect_right refs high) downs)))"

definition candidates :: "Timed list \<Rightarrow> Timed list \<Rightarrow> JoinParams \<Rightarrow> Candidate list result" where
  "candidates upstream downstream p =
     bindE (validate_params p) (\<lambda>_.
     let first = hd (signals p);
         downs = sort_key (\<lambda>b. (reference_of (s_name first) b, t_source b, t_seq b)) downstream;
         refs = map (reference_of (s_name first)) downs in
     Inr (sort_key (\<lambda>c. (k_upstream c, k_downstream c))
            (concat (map (candidates_of p first downs refs) upstream))))"

section \<open>Density\<close>

definition is_crowded :: "int \<Rightarrow> JoinParams \<Rightarrow> bool" where
  "is_crowded others p \<longleftrightarrow>
     others * window_us (hd (signals p)) * 1000 > local_span_us p * local_limit_permille p"

definition others_within :: "int \<Rightarrow> int list \<Rightarrow> int \<Rightarrow> int" where
  "others_within half ordered x =
     int (bisect_right ordered (x + half)) - int (bisect_left ordered (x - half)) - 1"

text \<open>A dictionary comprehension: the last value of a key stays.\<close>

definition dict_of :: "('k \<times> 'v) list \<Rightarrow> ('k \<times> 'v) list" where
  "dict_of kvs = fold (\<lambda>(k, v). dict_put k v) kvs []"

definition crowding :: "Timed list \<Rightarrow> Timed list \<Rightarrow> JoinParams \<Rightarrow> identity \<Rightarrow> identity \<Rightarrow> bool result" where
  "crowding ups downs p a b =
     (let half = local_span_us p; first = hd (signals p);
          up_at = dict_of (map (\<lambda>x. (t_identity x, start_us x)) ups);
          down_at = dict_of (map (\<lambda>x. (t_identity x, reference_of (s_name first) x)) downs);
          up_sorted = sort (map snd up_at); down_sorted = sort (map snd down_at) in
      bindE (dict_getE up_at a) (\<lambda>ta.
      bindE (dict_getE down_at b) (\<lambda>tb.
      Inr (is_crowded (max (others_within half up_sorted ta) (others_within half down_sorted tb)) p))))"

section \<open>Observations\<close>

definition t_content :: "Timed \<Rightarrow> string \<times> string \<times> int \<times> int" where
  "t_content x = (t_point x, t_side x, start_us x, end_us x)"

definition timed_validate :: "string set \<Rightarrow> Timed \<Rightarrow> unit result" where
  "timed_validate points x =
     bindE (checkE (t_point x \<in> points) (ValueError ''unknown point'')) (\<lambda>_.
     bindE (checkE (t_side x \<in> set timing_SIDES) (ValueError ''side must be inbound or outbound'')) (\<lambda>_.
     checkE (start_us x \<le> end_us x) (ValueError ''ends before it starts'')))"

definition timed_deduplicated :: "Topology \<Rightarrow> Timed list \<Rightarrow> (Timed list \<times> int) result" where
  "timed_deduplicated topology observations =
     dedup (timed_validate (p_name ` set (t_points topology))) t_identity t_content observations"

definition timed_side :: "Timed list \<Rightarrow> string \<times> string \<Rightarrow> Timed list" where
  "timed_side kept s = filter (\<lambda>x. (t_point x, t_side x) = s) kept"

section \<open>The join of a hop\<close>

text \<open>\<open>f"u{n:09d}"\<close>\<close>

definition pad9 :: "nat \<Rightarrow> string" where
  "pad9 n = (let ds = digit_chars n in replicate (9 - length ds) CHR ''0'' @ ds)"

definition ids_of :: "char \<Rightarrow> Timed list \<Rightarrow> (identity \<times> string) list" where
  "ids_of c xs = dict_of (map (\<lambda>(n, i). (i, c # pad9 n)) (enumerate 0 (sort (map t_identity xs))))"

definition back_of :: "(identity \<times> string) list \<Rightarrow> (string \<times> identity) list" where
  "back_of ids = dict_of (map (\<lambda>(i, s). (s, i)) ids)"

text \<open>\<open>up_ids | down_ids\<close>: the right dictionary wins.\<close>

definition dict_union :: "('k \<times> 'v) list \<Rightarrow> ('k \<times> 'v) list \<Rightarrow> ('k \<times> 'v) list" where
  "dict_union a b = fold (\<lambda>(k, v). dict_put k v) b a"

definition left_outcome ::
    "string \<Rightarrow> JoinParams \<Rightarrow> (string \<times> identity) list \<Rightarrow> ((identity \<times> identity) \<times> int) list
      \<Rightarrow> (identity \<Rightarrow> identity \<Rightarrow> bool result) \<Rightarrow> DerivedLink list \<times> Undecided list \<Rightarrow> ADecision
      \<Rightarrow> (DerivedLink list \<times> Undecided list) result" where
  "left_outcome where p back weights crowded st d =
     (let (links, undecided) = st in
      bindE (dict_getE back (d_id d)) (\<lambda>i.
      if d_status d \<noteq> MATCHED
      then Inr (links, undecided @ [\<lparr>n_where = where, n_observation = i, n_side = ''outbound'', n_status = d_status d\<rparr>])
      else
        bindE (case d_partner d of None \<Rightarrow> Inl KeyError | Some y \<Rightarrow> dict_getE back y) (\<lambda>k.
        bindE (if local_span_us p \<noteq> 0 then crowded i k else Inr False) (\<lambda>dense.
        if dense
        then Inr (links, undecided @ [\<lparr>n_where = where, n_observation = i, n_side = ''outbound'', n_status = DENSE\<rparr>,
                                      \<lparr>n_where = where, n_observation = k, n_side = ''inbound'', n_status = DENSE\<rparr>])
        else bindE (dict_getE weights (i, k)) (\<lambda>w.
          Inr (links @ [\<lparr>v_where = where, v_upstream = i, v_downstream = k, v_weight = w\<rparr>], undecided))))))"

definition right_outcome ::
    "string \<Rightarrow> (string \<times> identity) list \<Rightarrow> Undecided list \<Rightarrow> ADecision \<Rightarrow> Undecided list result" where
  "right_outcome where back undecided d =
     (if d_status d = MATCHED then Inr undecided
      else bindE (dict_getE back (d_id d)) (\<lambda>i.
        Inr (undecided @ [\<lparr>n_where = where, n_observation = i, n_side = ''inbound'', n_status = d_status d\<rparr>])))"

definition candidate_edge :: "(identity \<times> string) list \<Rightarrow> (identity \<times> string) list \<Rightarrow> Candidate \<Rightarrow> Edge result" where
  "candidate_edge up_ids down_ids c =
     bindE (dict_getE up_ids (k_upstream c)) (\<lambda>l.
     bindE (dict_getE down_ids (k_downstream c)) (\<lambda>r.
     Inr \<lparr>e_left = l, e_right = r, e_weight = k_weight c\<rparr>))"

type_synonym timed_acc = "DerivedLink list \<times> Undecided list \<times> (string \<times> nat) list"

definition join_hop :: "string \<Rightarrow> JoinParams \<Rightarrow> Timed list \<Rightarrow> Timed list \<Rightarrow> timed_acc \<Rightarrow> timed_acc result" where
  "join_hop where p ups downs acc =
     (let (links, undecided, comps) = acc in
      bindE (candidates ups downs p) (\<lambda>found.
      let up_ids = ids_of CHR ''u'' ups; down_ids = ids_of CHR ''d'' downs;
          back = back_of (dict_union up_ids down_ids);
          weights = dict_of (map (\<lambda>c. ((k_upstream c, k_downstream c), k_weight c)) found) in
      bindE (mapE (candidate_edge up_ids down_ids) found) (\<lambda>edges.
      bindE (assign (map snd up_ids) (map snd down_ids) edges (margin_us p) (j_max_component p)) (\<lambda>decided.
      bindE (foldE (left_outcome where p back weights (crowding ups downs p)) (links, undecided) (r_left decided))
        (\<lambda>(links, undecided).
      bindE (foldE (right_outcome where back) undecided (r_right decided)) (\<lambda>undecided.
      Inr (links, undecided,
        comps @ map (\<lambda>c. (where, length (c_left c) + length (c_right c))) (r_components decided))))))))"

definition timing_hops :: "Topology \<Rightarrow> (string \<times> HopCeiling) list" where
  "timing_hops topology =
     dict_of (map (\<lambda>h. (arrow (hc_src h) (hc_dst h), h)) (filter (\<lambda>h. hc_link h = NESTED_TIMING) (t_hops topology)))"

definition check_params :: "(string \<times> HopCeiling) list \<Rightarrow> unit \<Rightarrow> string \<times> JoinParams \<Rightarrow> unit result" where
  "check_params hops u wp =
     bindE (checkE (map_of hops (fst wp) \<noteq> None) (ValueError ''is not a timing-derived hop of the topology'')) (\<lambda>_.
     validate_params (snd wp))"

definition timed_step ::
    "(string \<times> HopCeiling) list \<Rightarrow> (string \<times> JoinParams) list \<Rightarrow> Timed list \<Rightarrow> timed_acc \<Rightarrow> string \<Rightarrow> timed_acc result" where
  "timed_step hops params kept acc where =
     bindE (dict_getE hops where) (\<lambda>hop.
     bindE (dict_getE params where) (\<lambda>p.
     join_hop where p (timed_side kept (hc_src hop, ''outbound'')) (timed_side kept (hc_dst hop, ''inbound'')) acc))"

definition timed_links :: "Topology \<Rightarrow> Timed list \<Rightarrow> (string \<times> JoinParams) list \<Rightarrow> TimedResult result" where
  "timed_links topology observations params =
     (let hops = timing_hops topology in
      bindE (foldE (check_params hops) () params) (\<lambda>_.
      bindE (timed_deduplicated topology observations) (\<lambda>(kept, n).
      bindE (foldE (timed_step hops params kept) ([], [], []) (sort (map fst params))) (\<lambda>(links, undecided, comps).
      Inr \<lparr>tr_links = sort_key (\<lambda>x. (v_where x, v_upstream x)) links,
           tr_undecided = sort_key (\<lambda>x. (n_where x, n_side x, n_observation x)) undecided,
           tr_duplicates_dropped = n, tr_components = comps\<rparr>))))"

end
