(* ===== verification/Timing_Candidates.thy ===== *)
theory Timing_Candidates
  imports Timing
begin

text \<open>
  The candidates of the timing path: the binary searches cut out exactly the downstream
  observations within the first signal's window, so the candidates are all the pairs inside
  every window, and their weights are what the assignment core accepts.
\<close>

section \<open>Binary search\<close>

lemma bisect_left_in:
  assumes "sorted xs" "lo \<le> hi" "hi \<le> length xs"
    and "\<And>i. i < lo \<Longrightarrow> xs ! i < x" "\<And>i. hi \<le> i \<Longrightarrow> i < length xs \<Longrightarrow> x \<le> xs ! i"
  shows "bisect_left_in xs x lo hi \<le> length xs
    \<and> (\<forall>i < length xs. i < bisect_left_in xs x lo hi \<longleftrightarrow> xs ! i < x)"
  using assms
proof (induction xs x lo hi rule: bisect_left_in.induct)
  case (1 xs x lo hi)
  show ?case
  proof (cases "lo < hi")
    case False
    then have "bisect_left_in xs x lo hi = lo" by (simp add: bisect_left_in.simps)
    then show ?thesis using 1(4-7) False by (metis le_antisym leD not_le_imp_less order_le_less_trans)
  next
    case True
    define mid where "mid = (lo + hi) div 2"
    have mid: "lo \<le> mid" "mid < hi" using True by (auto simp: mid_def)
    show ?thesis
    proof (cases "xs ! mid < x")
      case less: True
      have "xs ! i < x" if "i < mid + 1" for i
        using less sorted_nth_mono [OF 1(3), of i mid] that mid 1(5) by simp
      then have "bisect_left_in xs x (mid + 1) hi \<le> length xs
          \<and> (\<forall>i < length xs. i < bisect_left_in xs x (mid + 1) hi \<longleftrightarrow> xs ! i < x)"
        using 1(1) [OF True mid_def less 1(3)] 1(5,7) mid by simp
      then show ?thesis using True less by (simp add: bisect_left_in.simps [of xs x lo hi] Let_def flip: mid_def)
    next
      case ge: False
      have "x \<le> xs ! i" if "mid \<le> i" "i < length xs" for i
        using ge sorted_nth_mono [OF 1(3) that] by simp
      then have "bisect_left_in xs x lo mid \<le> length xs
          \<and> (\<forall>i < length xs. i < bisect_left_in xs x lo mid \<longleftrightarrow> xs ! i < x)"
        using 1(2) [OF True mid_def ge 1(3)] 1(5,6) mid by simp
      then show ?thesis using True ge by (simp add: bisect_left_in.simps [of xs x lo hi] Let_def flip: mid_def)
    qed
  qed
qed

lemma bisect_right_in:
  assumes "sorted xs" "lo \<le> hi" "hi \<le> length xs"
    and "\<And>i. i < lo \<Longrightarrow> xs ! i \<le> x" "\<And>i. hi \<le> i \<Longrightarrow> i < length xs \<Longrightarrow> x < xs ! i"
  shows "bisect_right_in xs x lo hi \<le> length xs
    \<and> (\<forall>i < length xs. i < bisect_right_in xs x lo hi \<longleftrightarrow> xs ! i \<le> x)"
  using assms
proof (induction xs x lo hi rule: bisect_right_in.induct)
  case (1 xs x lo hi)
  show ?case
  proof (cases "lo < hi")
    case False
    then have "bisect_right_in xs x lo hi = lo" by (simp add: bisect_right_in.simps)
    then show ?thesis using 1(4-7) False by (metis le_antisym leD not_le_imp_less order_le_less_trans)
  next
    case True
    define mid where "mid = (lo + hi) div 2"
    have mid: "lo \<le> mid" "mid < hi" using True by (auto simp: mid_def)
    show ?thesis
    proof (cases "x < xs ! mid")
      case less: True
      have "x < xs ! i" if "mid \<le> i" "i < length xs" for i
        using less sorted_nth_mono [OF 1(3) that] by simp
      then have "bisect_right_in xs x lo mid \<le> length xs
          \<and> (\<forall>i < length xs. i < bisect_right_in xs x lo mid \<longleftrightarrow> xs ! i \<le> x)"
        using 1(1) [OF True mid_def less 1(3)] 1(5,6) mid by simp
      then show ?thesis using True less by (simp add: bisect_right_in.simps [of xs x lo hi] Let_def flip: mid_def)
    next
      case ge: False
      have "xs ! i \<le> x" if "i < mid + 1" for i
        using ge sorted_nth_mono [OF 1(3), of i mid] that mid 1(5) by simp
      then have "bisect_right_in xs x (mid + 1) hi \<le> length xs
          \<and> (\<forall>i < length xs. i < bisect_right_in xs x (mid + 1) hi \<longleftrightarrow> xs ! i \<le> x)"
        using 1(2) [OF True mid_def ge 1(3)] 1(5,7) mid by simp
      then show ?thesis using True ge by (simp add: bisect_right_in.simps [of xs x lo hi] Let_def flip: mid_def)
    qed
  qed
qed

lemma bisect_left_iff:
  "sorted xs \<Longrightarrow> bisect_left xs x \<le> length xs \<and> (\<forall>i < length xs. i < bisect_left xs x \<longleftrightarrow> xs ! i < x)"
  unfolding bisect_left_def by (rule bisect_left_in) simp_all

lemma bisect_right_iff:
  "sorted xs \<Longrightarrow> bisect_right xs x \<le> length xs \<and> (\<forall>i < length xs. i < bisect_right xs x \<longleftrightarrow> xs ! i \<le> x)"
  unfolding bisect_right_def by (rule bisect_right_in) simp_all

text \<open>The slice between two searches: the elements with a key in the range.\<close>

lemma slice_bisect:
  assumes "sorted (map f xs)"
  shows "slice (bisect_left (map f xs) low) (bisect_right (map f xs) high) xs
    = filter (\<lambda>y. low \<le> f y \<and> f y \<le> high) xs"
proof -
  let ?l = "bisect_left (map f xs) low" and ?h = "bisect_right (map f xs) high"
  have l: "i < ?l \<longleftrightarrow> f (xs ! i) < low" if "i < length xs" for i using bisect_left_iff [OF assms, of low] that by simp
  have h: "i < ?h \<longleftrightarrow> f (xs ! i) \<le> high" if "i < length xs" for i using bisect_right_iff [OF assms, of high] that by simp
  have split: "xs = take ?h xs @ drop ?h xs" by simp
  have "\<not> f y \<le> high" if y: "y \<in> set (drop ?h xs)" for y
  proof -
    obtain i where "y = xs ! (?h + i)" "?h + i < length xs" using y by (auto simp: in_set_conv_nth)
    then show ?thesis using h [of "?h + i"] by simp
  qed
  then have "filter (\<lambda>y. low \<le> f y \<and> f y \<le> high) (drop ?h xs) = []" by (auto simp: filter_empty_conv)
  then have "filter (\<lambda>y. low \<le> f y \<and> f y \<le> high) xs = filter (\<lambda>y. low \<le> f y \<and> f y \<le> high) (take ?h xs)"
    by (subst split) (simp only: filter_append append_Nil2)
  also have "\<dots> = filter (\<lambda>y. low \<le> f y) (take ?h xs)"
    using h by (intro filter_cong refl) (auto simp: in_set_conv_nth)
  also have "\<dots> = filter (\<lambda>y. low \<le> f y) (take ?l (take ?h xs)) @ filter (\<lambda>y. low \<le> f y) (drop ?l (take ?h xs))"
    by (simp only: filter_append [symmetric] append_take_drop_id)
  also have "filter (\<lambda>y. low \<le> f y) (take ?l (take ?h xs)) = []"
    using l by (auto simp: filter_empty_conv in_set_conv_nth)
  also have "filter (\<lambda>y. low \<le> f y) (drop ?l (take ?h xs)) = drop ?l (take ?h xs)"
  proof -
    have "low \<le> f y" if y: "y \<in> set (drop ?l (take ?h xs))" for y
    proof -
      obtain i where "y = xs ! (?l + i)" "?l + i < length xs" using y by (auto simp: in_set_conv_nth)
      then show ?thesis using l [of "?l + i"] by simp
    qed
    then show ?thesis by (simp add: filter_id_conv)
  qed
  finally show ?thesis by (simp add: slice_def)
qed

section \<open>Candidates\<close>

lemma range_of_iff:
  "range_of s a = (low, high) \<Longrightarrow>
    low \<le> reference_of (s_name s) b \<and> reference_of (s_name s) b \<le> high \<longleftrightarrow> \<bar>gap (s_name s) a b - offset_us s\<bar> \<le> window_us s"
  by (auto simp: range_of_def reference_of_def gap_def Let_def split: if_splits)

definition params_ok :: "JoinParams \<Rightarrow> bool" where
  "params_ok p \<longleftrightarrow> length (signals p) \<in> {1, 2} \<and> distinct (map s_name (signals p))
     \<and> (\<forall>s \<in> set (signals p). s_name s \<in> set SIGNALS \<and> 0 < window_us s)
     \<and> 1 + sum_list (map window_us (signals p)) \<le> MAX_WEIGHT \<and> 0 \<le> local_span_us p
     \<and> 1 \<le> local_limit_permille p \<and> local_limit_permille p \<le> 1000"

lemma foldE_validate_signal:
  "foldE (\<lambda>_. validate_signal) () ss = Inr u \<longleftrightarrow> (\<forall>s \<in> set ss. s_name s \<in> set SIGNALS \<and> 0 < window_us s)"
  by (induction ss) (auto simp: validate_signal_def)

lemma validate_params_iff: "validate_params p = Inr u \<longleftrightarrow> params_ok p"
  by (auto simp: validate_params_def foldE_validate_signal params_ok_def)

lemma foldE_validate_signal_error: "foldE (\<lambda>_. validate_signal) u ss = Inl e \<Longrightarrow> \<exists>m. e = ValueError m"
  by (induction ss arbitrary: u) (auto simp: validate_signal_def bindE_eq_Inl)

lemma validate_params_error: "validate_params p = Inl e \<Longrightarrow> \<exists>m. e = ValueError m"
  by (auto simp: validate_params_def bindE_eq_Inl dest: foldE_validate_signal_error)

lemma in_windows_first: "params_ok p \<Longrightarrow> in_windows p a b \<Longrightarrow>
    \<bar>gap (s_name (hd (signals p))) a b - offset_us (hd (signals p))\<bar> \<le> window_us (hd (signals p))"
  by (cases "signals p") (auto simp: params_ok_def in_windows_def)

definition pair_candidate :: "JoinParams \<Rightarrow> Timed \<Rightarrow> Timed \<Rightarrow> Candidate" where
  "pair_candidate p a b = \<lparr>k_upstream = t_identity a, k_downstream = t_identity b, k_weight = candidate_weight p a b\<rparr>"

text \<open>The candidates as the specification has them: every pair, filtered by the windows.\<close>

definition all_candidates :: "Timed list \<Rightarrow> Timed list \<Rightarrow> JoinParams \<Rightarrow> Candidate list" where
  "all_candidates ups downs p = concat (map (\<lambda>a. map (pair_candidate p a) (filter (in_windows p a) downs)) ups)"

lemma mset_concat_map_cong: "(\<And>x. x \<in> set xs \<Longrightarrow> mset (f x) = mset (g x)) \<Longrightarrow> mset (concat (map f xs)) = mset (concat (map g xs))"
  by (induction xs) auto

lemma candidates_returns:
  assumes "params_ok p"
  shows "\<exists>cs. candidates ups downs p = Inr (sort_key (\<lambda>c. (k_upstream c, k_downstream c)) cs)
    \<and> mset cs = mset (all_candidates ups downs p)"
proof -
  let ?s = "hd (signals p)"
  let ?ref = "reference_of (s_name ?s)"
  let ?downs = "sort_key (\<lambda>b. (?ref b, t_source b, t_seq b)) downs"
  have srt: "sorted (map ?ref ?downs)"
  proof -
    have "sorted (map (\<lambda>b. (?ref b, t_source b, t_seq b)) ?downs)" by simp
    then have "sorted (map fst (map (\<lambda>b. (?ref b, t_source b, t_seq b)) ?downs))"
      by (rule sorted_map_mono) (auto simp: mono_on_def less_eq_prod_def)
    then show ?thesis by (simp add: comp_def)
  qed
  have "mset (candidates_of p ?s ?downs (map ?ref ?downs) a) = mset (map (pair_candidate p a) (filter (in_windows p a) downs))" for a
  proof -
    obtain low high where r: "range_of ?s a = (low, high)" by fastforce
    have "filter (in_windows p a) (filter (\<lambda>y. low \<le> ?ref y \<and> ?ref y \<le> high) ?downs) = filter (in_windows p a) ?downs"
      using in_windows_first [OF assms, of a] range_of_iff [OF r] by (auto intro!: filter_cong)
    then show ?thesis
      by (simp add: candidates_of_def r slice_bisect [OF srt] pair_candidate_def [abs_def])
  qed
  then have "mset (concat (map (candidates_of p ?s ?downs (map ?ref ?downs)) ups)) = mset (all_candidates ups downs p)"
    unfolding all_candidates_def by (intro mset_concat_map_cong)
  moreover have "validate_params p = Inr ()" using assms validate_params_iff by blast
  ultimately show ?thesis by (auto simp: candidates_def Let_def)
qed

lemma candidate_weight_bounds:
  assumes "params_ok p" "in_windows p a b"
  shows "1 \<le> candidate_weight p a b \<and> candidate_weight p a b \<le> MAX_WEIGHT"
proof -
  have "0 \<le> sum_list (map (\<lambda>s. window_us s - \<bar>gap (s_name s) a b - offset_us s\<bar>) ss)
      \<and> sum_list (map (\<lambda>s. window_us s - \<bar>gap (s_name s) a b - offset_us s\<bar>) ss) \<le> sum_list (map window_us ss)"
    if "set ss \<subseteq> set (signals p)" for ss
    using that
  proof (induction ss)
    case (Cons s ss)
    then have "\<bar>gap (s_name s) a b - offset_us s\<bar> \<le> window_us s" using assms(2) by (simp add: in_windows_def)
    moreover have "0 \<le> sum_list (map (\<lambda>s. window_us s - \<bar>gap (s_name s) a b - offset_us s\<bar>) ss)
      \<and> sum_list (map (\<lambda>s. window_us s - \<bar>gap (s_name s) a b - offset_us s\<bar>) ss) \<le> sum_list (map window_us ss)"
      using Cons by simp
    ultimately show ?case unfolding list.map sum_list.Cons by linarith
  qed simp
  from this [of "signals p"] show ?thesis using assms(1) by (simp add: candidate_weight_def params_ok_def)
qed

lemma distinct_all_candidates:
  assumes "distinct (map t_identity ups)" "distinct (map t_identity downs)"
  shows "distinct (map (\<lambda>c. (k_upstream c, k_downstream c)) (all_candidates ups downs p))"
  using assms(1)
proof (induction ups)
  case (Cons a ups)
  have "distinct (map t_identity (filter (in_windows p a) downs))" using assms(2) by (rule distinct_map_filter)
  then have "distinct (map (\<lambda>b. (t_identity a, t_identity b)) (filter (in_windows p a) downs))"
    by (auto simp: distinct_map inj_on_def)
  moreover have "set (map (\<lambda>b. (t_identity a, t_identity b)) (filter (in_windows p a) downs))
      \<inter> set (map (\<lambda>c. (k_upstream c, k_downstream c)) (all_candidates ups downs p)) = {}"
  proof (rule equals0I)
    have A: "fst k = t_identity a" if "k \<in> set (map (\<lambda>b. (t_identity a, t_identity b)) (filter (in_windows p a) downs))" for k
      using that by auto
    have B: "fst k \<in> t_identity ` set ups" if "k \<in> set (map (\<lambda>c. (k_upstream c, k_downstream c)) (all_candidates ups downs p))" for k
      using that by (auto simp: all_candidates_def pair_candidate_def)
    fix k
    assume "k \<in> set (map (\<lambda>b. (t_identity a, t_identity b)) (filter (in_windows p a) downs))
      \<inter> set (map (\<lambda>c. (k_upstream c, k_downstream c)) (all_candidates ups downs p))"
    then have "fst k = t_identity a" "fst k \<in> t_identity ` set ups" using A [of k] B [of k] unfolding Int_iff by argo+
    then show False using Cons.prems by simp
  qed
  moreover have "map (\<lambda>c. (k_upstream c, k_downstream c)) (all_candidates (a # ups) downs p)
      = map (\<lambda>b. (t_identity a, t_identity b)) (filter (in_windows p a) downs)
        @ map (\<lambda>c. (k_upstream c, k_downstream c)) (all_candidates ups downs p)"
    by (simp add: all_candidates_def pair_candidate_def comp_def)
  moreover have "distinct (map (\<lambda>c. (k_upstream c, k_downstream c)) (all_candidates ups downs p))"
    using Cons by simp
  ultimately show ?case by (simp only: distinct_append simp_thms)
qed (simp add: all_candidates_def)

text \<open>
  C26 The candidates of a join are exactly the pairs inside every window: searching the sorted
  downstream side for the first signal's range loses none and adds none.  Their weights lie
  between 1 and the assignment core's maximum, larger when closer to the usual offsets, and
  for distinct observations the list is sorted without repetition.
\<close>

theorem candidates_are_all_pairs:
  assumes "candidates ups downs p = Inr cs"
  shows "set cs = {pair_candidate p a b | a b. a \<in> set ups \<and> b \<in> set downs \<and> in_windows p a b}
    \<and> sorted (map (\<lambda>c. (k_upstream c, k_downstream c)) cs)
    \<and> (\<forall>c \<in> set cs. 1 \<le> k_weight c \<and> k_weight c \<le> MAX_WEIGHT)
    \<and> (distinct (map t_identity ups) \<and> distinct (map t_identity downs) \<longrightarrow>
        distinct (map (\<lambda>c. (k_upstream c, k_downstream c)) cs))"
proof -
  have ok: "params_ok p" using assms validate_params_iff by (auto simp: candidates_def)
  obtain xs where cs: "cs = sort_key (\<lambda>c. (k_upstream c, k_downstream c)) xs" and xs: "mset xs = mset (all_candidates ups downs p)"
    using candidates_returns [OF ok, of ups downs] assms by auto
  have all: "set (all_candidates ups downs p) = {pair_candidate p a b | a b. a \<in> set ups \<and> b \<in> set downs \<and> in_windows p a b}"
    by (auto simp: all_candidates_def)
  then have set: "set cs = {pair_candidate p a b | a b. a \<in> set ups \<and> b \<in> set downs \<and> in_windows p a b}"
    using mset_eq_setD [OF xs] by (simp add: cs)
  have "distinct (map (\<lambda>c. (k_upstream c, k_downstream c)) cs)"
    if "distinct (map t_identity ups)" "distinct (map t_identity downs)"
  proof -
    have "distinct (map (\<lambda>c. (k_upstream c, k_downstream c)) (all_candidates ups downs p))"
      using that by (rule distinct_all_candidates)
    moreover have "mset (map (\<lambda>c. (k_upstream c, k_downstream c)) cs) = mset (map (\<lambda>c. (k_upstream c, k_downstream c)) (all_candidates ups downs p))"
      using xs by (simp add: cs)
    ultimately show ?thesis using mset_eq_imp_distinct_iff by blast
  qed
  with set show ?thesis using candidate_weight_bounds [OF ok] by (auto simp: cs pair_candidate_def)
qed

end
