(* ===== verification/Timing_Examples.thy ===== *)
theory Timing_Examples
  imports Assign_Props Timing_Candidates
begin

text \<open>The theorems on the assignment core and the timing path at concrete inputs.\<close>

lemmas hungarian_eval = min_cost_assignment_def init_hungarian_def row_step_def scan_column_def shift_column_def Let_def
  numeral_2_eq_2 augment.simps

theorem min_cost_assignment_correct_witness:
  "min_cost_assignment [[4, 1], [2, 3]] = Inr (3, [1, 0]) \<and> 3 \<le> cost_of [[4, 1], [2, 3]] id"
proof -
  have v: "min_cost_assignment [[4, 1], [2, 3]] = Inr (3, [1, 0])" by (simp add: hungarian_eval upt_rec)
  have "square [[4, 1], [2, 3]]" by (simp add: square_def)
  from min_cost_assignment_correct [OF this] v
  have "permutes_below (length [[4, 1], [2, 3 :: int]]) q \<Longrightarrow> 3 \<le> cost_of [[4, 1], [2, 3]] q" for q by auto
  moreover have "permutes_below (length [[4, 1], [2, 3 :: int]]) id" by (simp add: permutes_below_def)
  ultimately show ?thesis using v by blast
qed

definition ex_call :: "int \<Rightarrow> string \<Rightarrow> int \<Rightarrow> int \<Rightarrow> Timed" where
  "ex_call n side s e = \<lparr>t_source = ''probe'', t_seq = n, t_point = ''p'', t_side = side, start_us = s, end_us = e\<rparr>"

definition ex_join :: JoinParams where
  "ex_join = \<lparr>signals = [\<lparr>s_name = ''start'', offset_us = 10, window_us = 5\<rparr>], margin_us = 1,
     j_max_component = 10, local_span_us = 0, local_limit_permille = 100\<rparr>"

definition ex_ups :: "Timed list" where
  "ex_ups = [ex_call 1 ''outbound'' 0 100, ex_call 2 ''outbound'' 50 90]"

definition ex_downs :: "Timed list" where
  "ex_downs = [ex_call 3 ''inbound'' 62 80, ex_call 4 ''inbound'' 11 90]"

lemmas ex_timing = ex_ups_def ex_downs_def ex_call_def ex_join_def

lemma ex_candidates:
  "candidates ex_ups ex_downs ex_join =
     Inr [\<lparr>k_upstream = (''probe'', 1), k_downstream = (''probe'', 4), k_weight = 5\<rparr>,
          \<lparr>k_upstream = (''probe'', 2), k_downstream = (''probe'', 3), k_weight = 4\<rparr>]"
  by code_simp

theorem candidates_are_all_pairs_witness:
  "(\<exists>c. candidates ex_ups ex_downs ex_join = Inr c \<and> length c = 2 \<and> distinct (map k_upstream c))
    \<and> \<not> in_windows ex_join (ex_call 1 ''outbound'' 0 100) (ex_call 3 ''inbound'' 62 80)"
proof -
  have "pair_candidate ex_join (ex_call 1 ''outbound'' 0 100) (ex_call 3 ''inbound'' 62 80) \<notin>
      {pair_candidate ex_join a b | a b. a \<in> set ex_ups \<and> b \<in> set ex_downs \<and> in_windows ex_join a b}"
    using candidates_are_all_pairs [OF ex_candidates, THEN conjunct1, symmetric]
    by (simp only:) (simp add: pair_candidate_def ex_call_def t_identity_def)
  then have "\<not> in_windows ex_join (ex_call 1 ''outbound'' 0 100) (ex_call 3 ''inbound'' 62 80)"
    by (force simp: ex_ups_def ex_downs_def)
  then show ?thesis using ex_candidates by simp
qed

end
