(* ===== verification/Stability.thy ===== *)
theory Stability
  imports Decimal
begin

text \<open>
  The stability gate of the M0 protocol (\<open>m0/stability.py\<close>): the spread between repetitions
  under a fixed and under a variable seed, and the check that a ratio is a count over its
  sample size.

  The standard deviation is the standard library's on decimals: the sample variance is an
  exact fraction, and its square root is the decimal of 28 digits next to it, corrected by
  one step when needed.  The group of metric names is a set; the code takes a maximum over it
  in no fixed order, the model in sorted order, and only the value of the maximum is used.
\<close>

section \<open>The standard library\<close>

text \<open>\<open>to_integral_value(rounding=ROUND_HALF_EVEN)\<close>\<close>

definition dec_to_integral :: "decimal \<Rightarrow> decimal" where
  "dec_to_integral d = (if expo d \<ge> 0 then d else dec_rescale d 0)"

text \<open>The integer square root of \<open>Decimal.sqrt\<close>, by Newton's method from above.\<close>

function newton :: "nat \<Rightarrow> nat \<Rightarrow> nat" where
  "newton c n = (let q = c div n in if n \<le> q then n else newton c ((n + q) div 2))"
  by pat_completeness auto
termination
  by (relation "measure snd") auto

declare newton.simps [simp del]

definition dec_sqrt :: "decimal \<Rightarrow> decimal result" where
  "dec_sqrt d =
     (if coeff d = 0 then Inr (Dec (neg d) 0 (expo d div 2))
      else if neg d then Inl InvalidOperation
      else
        let e = expo d div 2;
            len = ndigits (coeff d);
            c = (if expo d mod 2 = 1 then coeff d * 10 else coeff d);
            l = (if expo d mod 2 = 1 then len div 2 + 1 else (len + 1) div 2);
            shift = int prec + 1 - int l;
            c' = (if shift \<ge> 0 then c * 100 ^ nat shift else c div 100 ^ nat (- shift));
            exact = (shift \<ge> 0 \<or> c mod 100 ^ nat (- shift) = 0);
            n = newton c' (10 ^ (prec + 1)) in
        if exact \<and> n * n = c'
        then Inr (dec_fix (Dec False (if shift \<ge> 0 then n div 10 ^ nat shift else n * 10 ^ nat (- shift)) e))
        else Inr (dec_fix (Dec False (if n mod 5 = 0 then n + 1 else n) (e - shift))))"

text \<open>The neighbours of a positive decimal of at most 28 digits.\<close>

definition next_plus :: "decimal \<Rightarrow> decimal" where
  "next_plus d =
     (let k = prec - ndigits (coeff d) in dec_fix (Dec False (coeff d * 10 ^ k + 1) (expo d - int k)))"

definition next_minus :: "decimal \<Rightarrow> decimal" where
  "next_minus d =
     (let k = prec - ndigits (coeff d); c = coeff d * 10 ^ k in
      if c = 10 ^ (prec - 1) then Dec False (10 ^ prec - 1) (expo d - int k - 1)
      else Dec False (c - 1) (expo d - int k))"

text \<open>\<open>statistics._decimal_sqrt_of_frac\<close>, for a fraction that is not negative.\<close>

definition decimal_sqrt_of_frac :: "rat \<Rightarrow> decimal result" where
  "decimal_sqrt_of_frac x =
     (if x \<le> 0 then Inr (Dec False 0 (- 1))
      else
        bindE (dec_div (dec_of_int (fst (quotient_of x))) (dec_of_int (snd (quotient_of x)))) (\<lambda>q.
        bindE (dec_sqrt q) (\<lambda>root.
        if x > ((dec_val root + dec_val (next_plus root)) / 2) ^ 2 then Inr (next_plus root)
        else if x < ((dec_val root + dec_val (next_minus root)) / 2) ^ 2 then Inr (next_minus root)
        else Inr root)))"

definition sample_variance :: "rat list \<Rightarrow> rat" where
  "sample_variance xs =
     (let n = of_nat (length xs); sx = sum_list xs; sxx = sum_list (map (\<lambda>x. x * x) xs) in
      (n * sxx - sx * sx) / n / (n - 1))"

definition stdev :: "decimal list \<Rightarrow> decimal result" where
  "stdev xs =
     bindE (checkE (length xs \<ge> 2) (ValueError ''stdev requires at least two data points'')) (\<lambda>_.
     decimal_sqrt_of_frac (sample_variance (map dec_val xs)))"

section \<open>Achievable ratios\<close>

definition dec_zero :: decimal where "dec_zero = Dec False 0 0"
definition dec_one :: decimal where "dec_one = Dec False 1 0"

definition dec_in :: "decimal \<Rightarrow> decimal \<Rightarrow> decimal \<Rightarrow> bool" where
  "dec_in lo x hi \<longleftrightarrow> dec_le lo x \<and> dec_le x hi"

definition achievable :: "decimal \<Rightarrow> int \<Rightarrow> bool result" where
  "achievable v denominator =
     (if denominator = 0 then Inr True
      else
        let places = (if expo v < 0 then - expo v else 0);
            k = dec_to_integral (dec_mul v (dec_of_int denominator)) in
        if \<not> dec_in dec_zero k (dec_of_int denominator) then Inr False
        else bindE (dec_div k (dec_of_int denominator)) (\<lambda>x.
          bindE (dec_quantize x (- places)) (\<lambda>y. Inr (dec_eq y v))))"

section \<open>Repetitions\<close>

definition MIN_REPS :: nat where "MIN_REPS = 5"
definition EXTENDED_REPS :: nat where "EXTENDED_REPS = 10"
definition MIN_GT_OPS_PER_REP :: int where "MIN_GT_OPS_PER_REP = 10000"
definition MAX_SD :: decimal where "MAX_SD = Dec False 15 (- 3)"

datatype Stability = STABLE | STABLE_LOAD_SENSITIVE | UNSTABLE | EXTEND_TO_10 | INSUFFICIENT_REPS

record Repetition =
  rep_metrics :: "(string \<times> decimal) list"
  deterministic_gt_ops :: int

definition validate_repetition :: "Repetition \<Rightarrow> unit result" where
  "validate_repetition r =
     bindE (foldE (\<lambda>_ nv. checkE (dec_in dec_zero (snd nv) dec_one) (ValueError ''must be a fraction in [0, 1]''))
       () (rep_metrics r)) (\<lambda>_.
     bindE (checkE (deterministic_gt_ops r \<ge> 0) (ValueError ''deterministic_gt_ops cannot be negative'')) (\<lambda>_.
     foldE (\<lambda>_ nv. bindE (achievable (snd nv) (deterministic_gt_ops r)) (\<lambda>ok.
       checkE ok (ValueError ''is not achievable''))) () (rep_metrics r)))"

section \<open>The gate\<close>

definition names_of :: "Repetition \<Rightarrow> string set" where
  "names_of r = fst ` set (rep_metrics r)"

definition metric_names :: "Repetition list \<Rightarrow> string set result" where
  "metric_names reps =
     (case reps of [] \<Rightarrow> Inl IndexError
      | r # _ \<Rightarrow>
        bindE (checkE (names_of r \<noteq> {}) (ValueError ''a repetition's metrics must be nonempty'')) (\<lambda>_.
        bindE (foldE (\<lambda>_ s. checkE (names_of s = names_of r)
          (ValueError ''all repetitions in a group must track the same metrics'')) () reps) (\<lambda>_.
        Inr (names_of r))))"

definition metric_sd :: "Repetition list \<Rightarrow> string \<Rightarrow> decimal result" where
  "metric_sd reps name = bindE (mapE (\<lambda>r. dict_getE (rep_metrics r) name) reps) stdev"

text \<open>\<open>max(...)\<close> keeps the first of the largest.\<close>

definition dec_max :: "decimal list \<Rightarrow> decimal result" where
  "dec_max xs =
     (case xs of [] \<Rightarrow> Inl (ValueError ''max() arg is an empty sequence'')
      | y # ys \<Rightarrow> Inr (fold (\<lambda>x m. if dec_less m x then x else m) ys y))"

definition worst_sd :: "Repetition list \<Rightarrow> decimal result" where
  "worst_sd reps =
     bindE (metric_names reps) (\<lambda>names.
     bindE (mapE (metric_sd reps) (sorted_list_of_set names)) dec_max)"

definition insufficient :: "Repetition list \<Rightarrow> Repetition list \<Rightarrow> bool" where
  "insufficient fixed_seed variable_seed \<longleftrightarrow>
     (\<exists>g \<in> set [fixed_seed, variable_seed]. length g < MIN_REPS)
     \<or> (\<exists>g \<in> set [fixed_seed, variable_seed]. \<exists>r \<in> set g. deterministic_gt_ops r < MIN_GT_OPS_PER_REP)"

definition assess :: "Repetition list \<Rightarrow> Repetition list \<Rightarrow> Stability result" where
  "assess fixed_seed variable_seed =
     (if insufficient fixed_seed variable_seed then Inr INSUFFICIENT_REPS
      else
        bindE (metric_names fixed_seed) (\<lambda>fixed_names.
        bindE (metric_names variable_seed) (\<lambda>variable_names.
        bindE (checkE (fixed_names = variable_names)
          (ValueError ''fixed and variable seed groups must track the same metrics'')) (\<lambda>_.
        bindE (worst_sd fixed_seed) (\<lambda>sd.
        if dec_less MAX_SD sd
        then Inr (if length fixed_seed \<ge> EXTENDED_REPS then UNSTABLE else EXTEND_TO_10)
        else bindE (worst_sd variable_seed) (\<lambda>sd.
          Inr (if dec_less MAX_SD sd then STABLE_LOAD_SENSITIVE else STABLE)))))))"

end
