(* ===== verification/Attribution.thy ===== *)
theory Attribution
  imports Stability
begin

text \<open>
  The attribution verdict of the M0 protocol (\<open>m0/attribution.py\<close>): the validity gate, the
  decision tree, and the perturbation of each metric by its band that makes a verdict
  borderline.  All quantities are decimals, and the operations on them round as the library's
  context does.
\<close>

definition MIN_SAMPLE_SIZE :: int where "MIN_SAMPLE_SIZE = MIN_GT_OPS_PER_REP"
definition MIN_RESIDUAL_SAMPLE_SIZE :: int where "MIN_RESIDUAL_SAMPLE_SIZE = MIN_GT_OPS_PER_REP"

datatype RunStatus = NULL_RUN | VALID_BUT_INCONCLUSIVE | VALID

datatype Attribution = A | A_WITH_WEAK_RESIDUAL | NEEDS_DIFFERENT_MECHANISM | C_SCORING_REQUIRED
  | B_HYBRID | BORDERLINE | CORRELATOR_NOT_MEASURED

section \<open>Thresholds\<close>

record Thresholds =
  q_acceptable_min :: decimal
  d_min :: decimal
  d_acc_min :: decimal
  unresolved_max :: decimal
  r_min :: decimal
  e_min :: decimal
  capture_failure_max :: decimal
  truth_coverage_min :: decimal
  borderline_band :: decimal
  d_acc_band :: decimal

definition validate_thresholds :: "Thresholds \<Rightarrow> unit result" where
  "validate_thresholds th =
     bindE (foldE (\<lambda>_ v. checkE (dec_in dec_zero v dec_one) (ValueError ''must be a fraction in [0, 1]'')) ()
       [q_acceptable_min th, d_min th, d_acc_min th, unresolved_max th, e_min th, capture_failure_max th,
        truth_coverage_min th]) (\<lambda>_.
     foldE (\<lambda>_ v. checkE (dec_less dec_zero v \<and> dec_le v dec_one)
         (ValueError ''must be a positive fraction in (0, 1]'')) ()
       [r_min th, borderline_band th, d_acc_band th])"

text \<open>\<open>Thresholds(q_acceptable_min=...)\<close>: the other fields at their defaults.\<close>

definition thresholds_default :: "decimal \<Rightarrow> Thresholds" where
  "thresholds_default q = \<lparr>q_acceptable_min = q, d_min = Dec False 95 (- 2), d_acc_min = Dec False 99 (- 2),
     unresolved_max = Dec False 3 (- 2), r_min = Dec False 80 (- 2), e_min = Dec False 90 (- 2),
     capture_failure_max = Dec False 1 (- 2), truth_coverage_min = Dec False 95 (- 2),
     borderline_band = Dec False 2 (- 2), d_acc_band = Dec False 5 (- 3)\<rparr>"

definition RUN_001 :: Thresholds where
  "RUN_001 = thresholds_default (Dec False 90 (- 2))"

section \<open>Metrics\<close>

record Metrics =
  d_cov :: decimal
  d_acc :: decimal
  m_r :: "decimal option"
  m_t :: "decimal option"
  truth_coverage :: decimal
  oracle_capture_failure :: decimal
  m_n :: int
  n_residual :: "int option"

definition unresolved :: "Metrics \<Rightarrow> decimal" where
  "unresolved m = dec_sub dec_one (truth_coverage m)"

definition m_d :: "Metrics \<Rightarrow> decimal" where
  "m_d m = dec_mul (d_cov m) (d_acc m)"

definition m_f :: "Metrics \<Rightarrow> decimal" where
  "m_f m = dec_sub dec_one (m_d m)"

definition e_of :: "decimal \<Rightarrow> decimal \<Rightarrow> decimal" where
  "e_of d t = dec_add d (dec_mul (dec_sub dec_one d) t)"

definition m_e :: "Metrics \<Rightarrow> decimal option" where
  "m_e m = map_option (e_of (m_d m)) (m_t m)"

text \<open>\<open>int((d_cov * n).to_integral_value())\<close>\<close>

definition d_cov_count :: "Metrics \<Rightarrow> int" where
  "d_cov_count m = signed_at (dec_to_integral (dec_mul (d_cov m) (dec_of_int (m_n m)))) 0"

definition check_achievable :: "decimal \<Rightarrow> int \<Rightarrow> unit result" where
  "check_achievable v n = bindE (achievable v n) (\<lambda>ok. checkE ok (ValueError ''is not achievable''))"

definition validate_metrics :: "Metrics \<Rightarrow> unit result" where
  "validate_metrics m =
     bindE (foldE (\<lambda>_ v. checkE (dec_in dec_zero v dec_one) (ValueError ''must be a fraction in [0, 1]'')) ()
       [d_cov m, d_acc m, truth_coverage m, oracle_capture_failure m]) (\<lambda>_.
     bindE (foldE (\<lambda>_ v. checkE (\<forall>x \<in> set_option v. dec_in dec_zero x dec_one)
         (ValueError ''must be a fraction in [0, 1], or None if not measured'')) ()
       [m_r m, m_t m]) (\<lambda>_.
     bindE (checkE ((m_r m = None) = (m_t m = None)) (ValueError ''r and t must both be measured or both be None'')) (\<lambda>_.
     bindE (checkE (\<not> (\<exists>r \<in> set_option (m_r m). \<exists>t \<in> set_option (m_t m). dec_less r t))
       (ValueError ''T <= R always'')) (\<lambda>_.
     bindE (checkE (\<not> dec_less (unresolved m) (oracle_capture_failure m))
       (ValueError ''oracle_capture_failure cannot exceed the unresolved zone'')) (\<lambda>_.
     bindE (checkE (m_n m \<ge> MIN_SAMPLE_SIZE) (ValueError ''n is below the minimum sample size'')) (\<lambda>_.
     bindE (checkE ((m_r m = None) = (n_residual m = None)) (ValueError ''n_residual must be set iff r/t are measured'')) (\<lambda>_.
     bindE (checkE (\<forall>k \<in> set_option (n_residual m). k \<ge> MIN_RESIDUAL_SAMPLE_SIZE)
       (ValueError ''n_residual is below the minimum'')) (\<lambda>_.
     bindE (foldE (\<lambda>_ v. check_achievable v (m_n m)) () [d_cov m, truth_coverage m, oracle_capture_failure m]) (\<lambda>_.
     bindE (check_achievable (d_acc m) (d_cov_count m)) (\<lambda>_.
     case n_residual m of None \<Rightarrow> Inr ()
     | Some k \<Rightarrow> foldE (\<lambda>_ v. case v of None \<Rightarrow> Inr () | Some x \<Rightarrow> check_achievable x k) () [m_r m, m_t m]))))))))))"

section \<open>The tree\<close>

definition q_of :: "decimal \<Rightarrow> decimal \<Rightarrow> Thresholds \<Rightarrow> decimal option result" where
  "q_of r t th = (if dec_le (r_min th) r then bindE (dec_div t r) (\<lambda>q. Inr (Some q)) else Inr None)"

definition gate0 :: "Metrics \<Rightarrow> Thresholds \<Rightarrow> RunStatus" where
  "gate0 m th =
     (if dec_less (capture_failure_max th) (oracle_capture_failure m) then NULL_RUN
      else if dec_less (truth_coverage m) (truth_coverage_min th) then VALID_BUT_INCONCLUSIVE
      else VALID)"

definition classify ::
    "decimal \<Rightarrow> decimal \<Rightarrow> decimal \<Rightarrow> decimal option \<Rightarrow> decimal option \<Rightarrow> Thresholds \<Rightarrow> Attribution result" where
  "classify d dacc unres r t th =
     (if dec_eq d dec_one \<and> dec_eq dacc dec_one then Inr A
      else if dec_le (d_min th) d \<and> dec_le (d_acc_min th) dacc \<and> dec_le unres (unresolved_max th) then
        (case (r, t) of
           (Some r, Some t) \<Rightarrow>
             bindE (q_of r t th) (\<lambda>q.
             Inr (case q of None \<Rightarrow> A_WITH_WEAK_RESIDUAL
                  | Some q \<Rightarrow> if dec_le (q_acceptable_min th) q then A else A_WITH_WEAK_RESIDUAL))
         | _ \<Rightarrow> Inr CORRELATOR_NOT_MEASURED)
      else if dec_le (d_min th) d then Inr NEEDS_DIFFERENT_MECHANISM
      else
        (case (r, t) of
           (Some r, Some t) \<Rightarrow>
             if dec_less r (r_min th) then Inr NEEDS_DIFFERENT_MECHANISM
             else if dec_le (e_min th) (e_of d t) then Inr B_HYBRID
             else Inr C_SCORING_REQUIRED
         | _ \<Rightarrow> Inr CORRELATOR_NOT_MEASURED))"

section \<open>The decision\<close>

record MDecision =
  run_status :: RunStatus
  attribution :: "Attribution option"
  nominal :: "Attribution option"
  borderline_checked :: bool

text \<open>The five inputs of the tree, once measured.\<close>

record MPoint =
  x_d :: decimal
  x_d_acc :: decimal
  x_unresolved :: decimal
  x_r :: decimal
  x_t :: decimal

datatype axis = AxisD | AxisDacc | AxisUnresolved | AxisR | AxisT

definition axes :: "axis list" where
  "axes = [AxisD, AxisDacc, AxisUnresolved, AxisR, AxisT]"

text \<open>\<open>{**point, name: value + sign * band}\<close>\<close>

definition moved :: "Thresholds \<Rightarrow> MPoint \<Rightarrow> axis \<times> int \<Rightarrow> MPoint" where
  "moved th p xs =
     (let band = (if fst xs = AxisDacc then d_acc_band th else borderline_band th);
          shift = (\<lambda>v. dec_add v (dec_mul (dec_of_int (snd xs)) band)) in
      case fst xs of
        AxisD \<Rightarrow> p\<lparr>x_d := shift (x_d p)\<rparr>
      | AxisDacc \<Rightarrow> p\<lparr>x_d_acc := shift (x_d_acc p)\<rparr>
      | AxisUnresolved \<Rightarrow> p\<lparr>x_unresolved := shift (x_unresolved p)\<rparr>
      | AxisR \<Rightarrow> p\<lparr>x_r := shift (x_r p)\<rparr>
      | AxisT \<Rightarrow> p\<lparr>x_t := shift (x_t p)\<rparr>)"

definition possible :: "MPoint \<Rightarrow> bool" where
  "possible p \<longleftrightarrow> \<not> (dec_less (x_d_acc p) (x_d p) \<or> dec_less (x_r p) (x_t p))"

definition classify_point :: "Thresholds \<Rightarrow> MPoint \<Rightarrow> Attribution result" where
  "classify_point th p = classify (x_d p) (x_d_acc p) (x_unresolved p) (Some (x_r p)) (Some (x_t p)) th"

text \<open>The two nested loops: whether a possible move changes the class.\<close>

fun moves_change :: "Thresholds \<Rightarrow> MPoint \<Rightarrow> Attribution \<Rightarrow> (axis \<times> int) list \<Rightarrow> bool result" where
  "moves_change th p nom [] = Inr False"
| "moves_change th p nom (x # xs) =
     (if \<not> possible (moved th p x) then moves_change th p nom xs
      else bindE (classify_point th (moved th p x)) (\<lambda>c.
        if c \<noteq> nom then Inr True else moves_change th p nom xs))"

definition all_moves :: "(axis \<times> int) list" where
  "all_moves = concat (map (\<lambda>a. map (Pair a) [- 1, 1]) axes)"

definition decide :: "Metrics \<Rightarrow> Thresholds \<Rightarrow> MDecision result" where
  "decide m th =
     (let status = gate0 m th in
      if status \<noteq> VALID
      then Inr \<lparr>run_status = status, attribution = None, nominal = None, borderline_checked = False\<rparr>
      else
        bindE (classify (m_d m) (d_acc m) (unresolved m) (m_r m) (m_t m) th) (\<lambda>nom.
        case (m_r m, m_t m) of
          (Some r, Some t) \<Rightarrow>
            let p = \<lparr>x_d = m_d m, x_d_acc = d_acc m, x_unresolved = unresolved m, x_r = r, x_t = t\<rparr> in
            bindE (moves_change th p nom all_moves) (\<lambda>changes.
            Inr \<lparr>run_status = status, attribution = Some (if changes then BORDERLINE else nom),
                 nominal = Some nom, borderline_checked = True\<rparr>)
        | _ \<Rightarrow> Inr \<lparr>run_status = status, attribution = Some nom, nominal = Some nom, borderline_checked = False\<rparr>))"

end
