(* ===== verification/Attribution_Props.thy ===== *)
theory Attribution_Props
  imports Attribution
begin

text \<open>
  What the checks of the measurements guarantee, and what the verdict means: the tree never
  raises under validated thresholds, and a run is borderline exactly when some possible move
  of one metric by its band changes the class.
\<close>

section \<open>Achievable ratios\<close>

lemma dec_in_val: "dec_in lo x hi \<longleftrightarrow> dec_val lo \<le> dec_val x \<and> dec_val x \<le> dec_val hi"
  by (simp add: dec_in_def dec_cmp)

lemma dec_val_consts [simp]: "dec_val dec_zero = 0" "dec_val dec_one = 1"
  by (simp_all add: dec_zero_def dec_one_def dec_val_def)

lemma representable_consts [simp]: "representable dec_zero" "representable dec_one"
  by (simp_all add: dec_zero_def dec_one_def representable_iff)

lemma dec_div_ok: "coeff b \<noteq> 0 \<Longrightarrow> \<exists>q. dec_div a b = Inr q"
  by (simp add: dec_div_def Let_def split_beta)

lemma dec_quantizeD:
  "dec_quantize d e = Inr q \<Longrightarrow> expo q = e \<and> representable q"
  by (auto simp: dec_quantize_def Let_def representable_def split: if_splits)

lemma same_expo_same_coeff:
  assumes "dec_val x = dec_val y" "expo x = expo y"
  shows "coeff x = coeff y"
proof -
  have "dec_mag x = dec_mag y"
    using assms(1) dec_mag_nonneg [of x] dec_mag_nonneg [of y]
    by (auto simp: dec_val_mag simp del: dec_mag_nonneg split: if_splits)
  then show ?thesis using assms(2) by (simp add: dec_mag_def)
qed

lemma integral_expo: "0 \<le> expo (dec_to_integral d)"
  by (simp add: dec_to_integral_def)

lemma integral_val: "dec_val (dec_to_integral d) = of_int (signed_at (dec_to_integral d) 0)"
  using signed_at_val [OF integral_expo, of d] by simp

text \<open>An accepted ratio is a count over the sample size, rounded to the places it is written with.\<close>

lemma achievable_count:
  assumes "achievable v n = Inr True" "n \<noteq> 0"
  shows "\<exists>k x y. 0 \<le> k \<and> k \<le> n \<and> dec_to_integral (dec_mul v (dec_of_int n)) = x \<and> dec_val x = of_int k
    \<and> bindE (dec_div x (dec_of_int n)) (\<lambda>q. dec_quantize q (min 0 (expo v))) = Inr y \<and> dec_val y = dec_val v
    \<and> expo y = min 0 (expo v) \<and> representable y"
proof -
  let ?x = "dec_to_integral (dec_mul v (dec_of_int n))"
  have places: "- (if expo v < 0 then - expo v else 0) = min 0 (expo v)" by simp
  have inn: "dec_in dec_zero ?x (dec_of_int n)" using assms by (auto simp: achievable_def Let_def split: if_splits)
  then obtain q y where q: "dec_div ?x (dec_of_int n) = Inr q" "dec_quantize q (min 0 (expo v)) = Inr y" "dec_eq y v"
    using assms by (auto simp: achievable_def Let_def split: if_splits)
  have "0 \<le> signed_at ?x 0" "signed_at ?x 0 \<le> n" using inn by (simp_all add: dec_in_val integral_val)
  then show ?thesis using q dec_quantizeD [OF q(2)] by (intro exI [of _ "signed_at ?x 0"]) (auto simp: dec_cmp integral_val)
qed

lemma achievable_representable:
  assumes "achievable v n = Inr True" "n \<noteq> 0" "dec_in dec_zero v dec_one"
  shows "representable v"
proof -
  obtain y where y: "dec_val y = dec_val v" "expo y = min 0 (expo v)" "representable y"
    using achievable_count [OF assms(1,2)] by blast
  show ?thesis
  proof (cases "expo v < 0")
    case True
    then have "coeff y = coeff v" using y by (intro same_expo_same_coeff) simp_all
    with y(3) show ?thesis by (simp add: representable_def)
  next
    case False
    have "coeff v \<le> 1"
    proof (rule ccontr)
      assume "\<not> coeff v \<le> 1"
      then have "1 < (of_nat (coeff v) :: rat)" by simp
      moreover have "(1::rat) \<le> 10 powi expo v" using False by (intro one_le_power_int) simp_all
      ultimately have "1 < dec_mag v"
        unfolding dec_mag_def by (metis less_le_trans mult.right_neutral mult_le_cancel_left_pos of_nat_less_0_iff less_trans zero_less_one)
      then have "1 < \<bar>dec_val v\<bar>" by (simp add: dec_val_mag)
      then show False using assms(3) by (auto simp: dec_in_val)
    qed
    then show ?thesis by (simp add: representable_iff)
  qed
qed

lemma dec_mul_zero: "dec_val a * dec_val b = 0 \<Longrightarrow> dec_val (dec_mul a b) = 0"
  using dec_mul_between [of dec_zero a b dec_zero] by (auto simp: between_def)

section \<open>Measurements\<close>

lemma check_achievable_ok [simp]: "check_achievable v n = Inr u \<longleftrightarrow> achievable v n = Inr True"
  by (cases u) (auto simp: check_achievable_def)

lemma validate_metrics_ok:
  assumes "validate_metrics m = Inr ()"
  shows "dec_in dec_zero (d_cov m) dec_one" "dec_in dec_zero (d_acc m) dec_one"
    "dec_in dec_zero (truth_coverage m) dec_one" "dec_in dec_zero (oracle_capture_failure m) dec_one"
    "\<And>r t. m_r m = Some r \<Longrightarrow> m_t m = Some t \<Longrightarrow> dec_in dec_zero r dec_one \<and> dec_in dec_zero t dec_one \<and> dec_val t \<le> dec_val r"
    "(m_r m = None) = (m_t m = None)"
    "dec_val (oracle_capture_failure m) \<le> dec_val (unresolved m)"
    "m_n m \<ge> 10000" "achievable (d_cov m) (m_n m) = Inr True" "achievable (d_acc m) (d_cov_count m) = Inr True"
  using assms by (auto simp: validate_metrics_def dec_cmp MIN_SAMPLE_SIZE_def MIN_GT_OPS_PER_REP_def not_less)

lemma d_le_d_acc:
  assumes "validate_metrics m = Inr ()"
  shows "0 \<le> dec_val (m_d m) \<and> dec_val (m_d m) \<le> dec_val (d_acc m)"
proof (cases "d_cov_count m = 0")
  case True
  note v = validate_metrics_ok [OF assms]
  obtain k x y where x: "dec_to_integral (dec_mul (d_cov m) (dec_of_int (m_n m))) = x"
    and y: "bindE (dec_div x (dec_of_int (m_n m))) (\<lambda>q. dec_quantize q (min 0 (expo (d_cov m)))) = Inr y" "dec_val y = dec_val (d_cov m)"
    using achievable_count [OF v(9)] v(8) by fastforce
  have "dec_val x = 0" using True integral_val [of "dec_mul (d_cov m) (dec_of_int (m_n m))"] by (simp add: d_cov_count_def x)
  then have "coeff x = 0" by (simp add: dec_val_def split: if_splits)
  then have "dec_val y = 0"
    using y(1) v(8) by (auto simp: dec_div_def dec_of_int_def dec_quantize_def dec_rescale_def dec_val_def split: if_splits)
  then have "dec_val (m_d m) = 0" unfolding m_d_def using y(2) by (intro dec_mul_zero) simp
  then show ?thesis using v(2) by (simp add: dec_in_val)
next
  case False
  note v = validate_metrics_ok [OF assms]
  have "representable (d_acc m)" using achievable_representable [OF v(10) False v(2)] .
  moreover have "0 \<le> dec_val (d_cov m) * dec_val (d_acc m)" "dec_val (d_cov m) * dec_val (d_acc m) \<le> dec_val (d_acc m)"
    using v(1,2) by (simp_all add: dec_in_val mult_left_le_one_le)
  ultimately have "between dec_zero (dec_val (m_d m)) (d_acc m)"
    unfolding m_d_def by (intro dec_mul_between) (simp add: between_def)
  then show ?thesis by (simp add: between_def)
qed

lemma one_minus_unit:
  assumes "0 \<le> dec_val x" "dec_val x \<le> 1"
  shows "0 \<le> dec_val (dec_sub dec_one x) \<and> dec_val (dec_sub dec_one x) \<le> 1"
  using dec_sub_between [of dec_zero dec_one x dec_one] assms by (simp add: between_def)

text \<open>
  C29 Validated measurements are consistent: every ratio lies in [0, 1], the direct
  attribution \<open>D = D_cov * D_acc\<close> never exceeds \<open>D_acc\<close> even after rounding, the residual \<open>F\<close> and
  the unresolved zone are fractions, the capture failures lie inside the unresolved zone, and
  \<open>T \<le> R\<close>: the measured point is itself one of the possible points.
\<close>

theorem validated_metrics_consistent:
  assumes "validate_metrics m = Inr ()"
  shows "0 \<le> dec_val (m_d m) \<and> dec_val (m_d m) \<le> dec_val (d_acc m) \<and> dec_val (d_acc m) \<le> 1
    \<and> 0 \<le> dec_val (m_f m) \<and> dec_val (m_f m) \<le> 1
    \<and> 0 \<le> dec_val (oracle_capture_failure m) \<and> dec_val (oracle_capture_failure m) \<le> dec_val (unresolved m)
    \<and> dec_val (unresolved m) \<le> 1
    \<and> (\<forall>r t. m_r m = Some r \<longrightarrow> m_t m = Some t \<longrightarrow> dec_val t \<le> dec_val r
        \<and> possible \<lparr>x_d = m_d m, x_d_acc = d_acc m, x_unresolved = unresolved m, x_r = r, x_t = t\<rparr>)"
proof -
  note v = validate_metrics_ok [OF assms]
  have d: "0 \<le> dec_val (m_d m)" "dec_val (m_d m) \<le> dec_val (d_acc m)" "dec_val (d_acc m) \<le> 1"
    using d_le_d_acc [OF assms] v(2) by (simp_all add: dec_in_val)
  then have f: "0 \<le> dec_val (m_f m) \<and> dec_val (m_f m) \<le> 1" unfolding m_f_def by (intro one_minus_unit) simp_all
  have "dec_val (unresolved m) \<le> 1" unfolding unresolved_def using one_minus_unit v(3) by (simp add: dec_in_val)
  moreover have "possible \<lparr>x_d = m_d m, x_d_acc = d_acc m, x_unresolved = unresolved m, x_r = r, x_t = t\<rparr>"
    if "m_r m = Some r" "m_t m = Some t" for r t
    using v(5) [OF that] d by (simp add: possible_def dec_cmp)
  ultimately show ?thesis using d f v(4,5,7) by (auto simp: dec_in_val)
qed

section \<open>The verdict\<close>

lemma classify_total:
  assumes "0 < dec_val (r_min th)"
  shows "\<exists>c. classify d dacc unres r t th = Inr c \<and> c \<noteq> BORDERLINE"
proof -
  have q: "\<exists>q. q_of r t th = Inr q" for r t
  proof (cases "dec_le (r_min th) r")
    case True
    then have "0 < dec_val r" using assms by (simp add: dec_cmp)
    then have "coeff r \<noteq> 0" by (simp add: dec_val_pos_iff)
    then show ?thesis using dec_div_ok [of r t] by (auto simp: q_of_def)
  qed (simp add: q_of_def)
  show ?thesis
  proof (cases "r = None \<or> t = None")
    case True
    then show ?thesis by (auto simp: classify_def split: option.splits)
  next
    case False
    then obtain r0 t0 where rt: "r = Some r0" "t = Some t0" by auto
    obtain x where "q_of r0 t0 th = Inr x" using q by blast
    with rt show ?thesis by (auto simp: classify_def split: option.splits)
  qed
qed

lemma moves_change_spec:
  assumes "0 < dec_val (r_min th)"
  shows "moves_change th p nom xs =
    Inr (\<exists>x \<in> set xs. possible (moved th p x) \<and> classify_point th (moved th p x) \<noteq> Inr nom)"
proof (induction xs)
  case (Cons x xs)
  obtain c where "classify_point th (moved th p x) = Inr c"
    unfolding classify_point_def using classify_total [OF assms] by blast
  then show ?case using Cons by auto
qed simp

lemma all_moves_ex: "(\<exists>x \<in> set all_moves. P x) \<longleftrightarrow> (\<exists>axis. \<exists>sign \<in> {- 1, 1}. P (axis, sign))"
proof -
  have "(a, s) \<in> set all_moves \<longleftrightarrow> s \<in> {- 1, 1}" for a s by (cases a) (auto simp: all_moves_def axes_def)
  then show ?thesis by (metis surj_pair)
qed

text \<open>
  C28 Under validated thresholds the decision never raises.  A run that fails the gate gets no
  attribution; a valid run gets the class of the measured point, unless both residual metrics
  were measured and moving one of the five inputs by its band, up or down, to a point that a
  measurement could produce changes the class: then, and only then, it is \<open>BORDERLINE\<close>.
\<close>

theorem decide_meaning:
  assumes "validate_thresholds th = Inr ()"
  shows "\<exists>dec. decide m th = Inr dec \<and> run_status dec = gate0 m th
    \<and> (gate0 m th \<noteq> VALID \<longrightarrow> attribution dec = None \<and> nominal dec = None)
    \<and> (gate0 m th = VALID \<longrightarrow> (\<exists>c. classify (m_d m) (d_acc m) (unresolved m) (m_r m) (m_t m) th = Inr c
        \<and> nominal dec = Some c \<and> (attribution dec = Some c \<or> attribution dec = Some BORDERLINE)
        \<and> (attribution dec = Some BORDERLINE \<longleftrightarrow> (\<exists>r t axis sign p. m_r m = Some r \<and> m_t m = Some t
            \<and> sign \<in> {- 1, 1}
            \<and> p = moved th \<lparr>x_d = m_d m, x_d_acc = d_acc m, x_unresolved = unresolved m, x_r = r, x_t = t\<rparr> (axis, sign)
            \<and> possible p \<and> classify_point th p \<noteq> Inr c))))"
proof -
  have pos: "0 < dec_val (r_min th)" using assms by (auto simp: validate_thresholds_def dec_cmp)
  obtain c where c: "classify (m_d m) (d_acc m) (unresolved m) (m_r m) (m_t m) th = Inr c" "c \<noteq> BORDERLINE"
    using classify_total [OF pos] by blast
  show ?thesis
  proof (cases "gate0 m th = VALID")
    case True
    show ?thesis
    proof (cases "m_r m = None \<or> m_t m = None")
      case True
      then have "decide m th = Inr \<lparr>run_status = VALID, attribution = Some c, nominal = Some c, borderline_checked = False\<rparr>"
        using c(1) \<open>gate0 m th = VALID\<close> by (cases "m_r m"; cases "m_t m") (simp_all add: decide_def Let_def)
      moreover have "\<not> (m_r m = Some r \<and> m_t m = Some t)" for r t using True by auto
      ultimately show ?thesis using c \<open>gate0 m th = VALID\<close>
        by (intro exI [of _ "\<lparr>run_status = VALID, attribution = Some c, nominal = Some c, borderline_checked = False\<rparr>"]) fastforce
    next
      case False
      then obtain r t where rt: "m_r m = Some r" "m_t m = Some t" by auto
      let ?p = "\<lparr>x_d = m_d m, x_d_acc = d_acc m, x_unresolved = unresolved m, x_r = r, x_t = t\<rparr>"
      define changes where "changes \<longleftrightarrow> (\<exists>axis. \<exists>sign \<in> {- 1, 1}. possible (moved th ?p (axis, sign))
        \<and> classify_point th (moved th ?p (axis, sign)) \<noteq> Inr c)"
      have "moves_change th ?p c all_moves = Inr changes"
        unfolding moves_change_spec [OF pos] all_moves_ex changes_def ..
      then have "decide m th = Inr \<lparr>run_status = VALID, attribution = Some (if changes then BORDERLINE else c),
          nominal = Some c, borderline_checked = True\<rparr>"
        using True c(1) rt by (simp add: decide_def Let_def)
      moreover have "changes \<longleftrightarrow> (\<exists>r t axis sign p. m_r m = Some r \<and> m_t m = Some t \<and> sign \<in> {- 1, 1}
          \<and> p = moved th \<lparr>x_d = m_d m, x_d_acc = d_acc m, x_unresolved = unresolved m, x_r = r, x_t = t\<rparr> (axis, sign)
          \<and> possible p \<and> classify_point th p \<noteq> Inr c)"
        unfolding changes_def rt option.inject by blast
      ultimately show ?thesis using c True by (cases changes) (simp_all only:, simp_all)
    qed
  qed (simp add: decide_def Let_def)
qed

end
