(* ===== verification/Stability_Props.thy ===== *)
theory Stability_Props
  imports Attribution_Props
begin

text \<open>
  A ratio honestly rounded from a count is accepted, whatever the count; and the gate on the
  spread answers for every two groups that track the same metrics.
\<close>

section \<open>The division of a count\<close>

lemma ndigits_mono: "k \<le> n \<Longrightarrow> ndigits k \<le> ndigits n"
  using ndigits_le_iff [of "ndigits n" k] ndigits_upper [of n] by simp

lemma count_grid:
  fixes k n s :: nat
  assumes "0 < n" "27 \<le> s"
  defines "g \<equiv> k * 10 ^ 27 div n" and "c \<equiv> k * 10 ^ s div n"
  shows "g * 10 ^ (s - 27) \<le> c" "Suc c \<le> Suc g * 10 ^ (s - 27)"
proof -
  have s: "(10::nat) ^ s = 10 ^ 27 * 10 ^ (s - 27)" using assms(2) by (metis le_add_diff_inverse power_add)
  have "g * n \<le> k * 10 ^ 27" by (simp add: g_def)
  then have "g * n * 10 ^ (s - 27) \<le> k * 10 ^ 27 * 10 ^ (s - 27)" by (rule mult_le_mono1)
  then have "g * 10 ^ (s - 27) * n \<le> k * 10 ^ s" unfolding s by (simp only: mult_ac)
  then show "g * 10 ^ (s - 27) \<le> c" unfolding c_def using assms(1) by (simp only: less_eq_div_iff_mult_less_eq)
  have "k * 10 ^ 27 < Suc g * n" using assms(1) by (simp add: g_def dividend_less_div_times)
  then have "k * 10 ^ 27 * 10 ^ (s - 27) < Suc g * n * 10 ^ (s - 27)" by simp
  then have "k * 10 ^ s < Suc g * 10 ^ (s - 27) * n" unfolding s by (simp only: mult_ac)
  then show "Suc c \<le> Suc g * 10 ^ (s - 27)"
    unfolding c_def Suc_le_eq using assms(1) by (simp only: div_less_iff_less_mult)
qed

lemma dec_div_near:
  assumes "k \<le> n" "0 < n" "dec_div (Dec False k 0) (Dec False n 0) = Inr q"
  shows "\<bar>dec_val q - of_nat k / of_nat n\<bar> \<le> 1 / 10 ^ 27"
proof (cases "k = 0")
  case True
  then show ?thesis using assms by (auto simp: dec_div_def dec_val_def)
next
  case False
  define s where "s = nat (int (ndigits n) - int (ndigits k) + 29)"
  have s: "27 \<le> s" "int (ndigits n) - int (ndigits k) + int prec + 1 = int s"
    using ndigits_mono [OF assms(1)] by (simp_all add: s_def prec_def)
  define g where "g = k * 10 ^ 27 div n"
  define c where "c = k * 10 ^ s div n"
  note grid = count_grid [OF assms(2) s(1), of k, folded g_def c_def]
  obtain c' e' where st: "strip_to 0 c (- int s) = (c', e')" by fastforce
  let ?w = "if k * 10 ^ s mod n = 0 then Dec False c' e' else Dec False (if c mod 5 = 0 then Suc c else c) (- int s)"
  have q: "q = dec_fix ?w"
  proof -
    have "dec_div (Dec False k 0) (Dec False n 0) = Inr (dec_fix ?w)"
      using assms(2) False st by (simp only: dec_div_def Let_def decimal.sel s(2)) (simp add: c_def)
    then show ?thesis using assms(3) by simp
  qed
  define C where "C = (if k * 10 ^ s mod n \<noteq> 0 \<and> c mod 5 = 0 then Suc c else c)"
  have C: "dec_val ?w = of_nat C * 10 powi (- int s)" "C = c \<or> C = Suc c"
    using strip_to_val [OF st] by (simp_all add: dec_val_Dec C_def)
  have unit: "(of_nat (x * 10 ^ (s - 27)) :: rat) * 10 powi (- int s) = of_nat x * 10 powi (- 27)" for x
  proof -
    have "- int s + int (s - 27) = - 27" using s(1) by simp
    then show ?thesis using powi10_shift [of "- int s" "s - 27"] by simp
  qed
  have "(of_nat (g * 10 ^ (s - 27)) :: rat) * 10 powi (- int s) \<le> dec_val ?w"
    "dec_val ?w \<le> of_nat (Suc g * 10 ^ (s - 27)) * 10 powi (- int s)"
    unfolding C(1) using grid C(2) by (intro mult_right_mono; simp only: of_nat_le_iff; force)+
  moreover have "g \<le> 10 ^ 27"
  proof -
    have "g * n \<le> k * 10 ^ 27" by (simp only: g_def div_times_less_eq_dividend)
    also have "\<dots> \<le> n * 10 ^ 27" using assms(1) by (rule mult_le_mono1)
    finally have "g * n \<le> 10 ^ 27 * n" by (simp only: mult.commute)
    then show ?thesis using assms(2) by (simp only: mult_le_cancel2)
  qed
  ultimately have "between (Dec False g (- 27)) (dec_val ?w) (Dec False (Suc g) (- 27))"
    unfolding unit by (simp add: between_def representable_iff dec_val_def)
  from dec_fix_between [OF this] have b: "dec_val (Dec False g (- 27)) \<le> dec_val q" "dec_val q \<le> dec_val (Dec False (Suc g) (- 27))"
    unfolding q by (simp_all add: between_def)
  have "g * n \<le> k * 10 ^ 27" "k * 10 ^ 27 < Suc g * n" using assms(2) by (simp_all add: g_def dividend_less_div_times)
  then have "of_nat (g * n) \<le> (of_nat (k * 10 ^ 27) :: rat)" "of_nat (k * 10 ^ 27) < (of_nat (Suc g * n) :: rat)"
    by (simp_all only: of_nat_le_iff of_nat_less_iff)
  then have "of_nat g * of_nat n \<le> (of_nat k * 10 ^ 27 :: rat)" "of_nat k * 10 ^ 27 < (of_nat (Suc g) * of_nat n :: rat)"
    by (simp_all only: of_nat_mult of_nat_power of_nat_numeral)
  then have "of_nat g / 10 ^ 27 \<le> (of_nat k / of_nat n :: rat)" "of_nat k / of_nat n < (of_nat (Suc g) / 10 ^ 27 :: rat)"
    using assms(2) by (simp_all add: field_simps)
  moreover have v: "dec_val (Dec False x (- 27)) = of_nat x / 10 ^ 27" for x
    by (simp add: dec_val_def power_int_def field_simps)
  moreover have "(of_nat (Suc g) :: rat) / 10 ^ 27 = of_nat g / 10 ^ 27 + 1 / 10 ^ 27"
    by (simp only: of_nat_Suc add_divide_distrib)
  ultimately show ?thesis using b [unfolded v] by linarith
qed

section \<open>Honest ratios\<close>

text \<open>Rounding a value close to a multiple of the unit gives that multiple.\<close>

lemma round_half_even_near: "2 * \<bar>int (round_half_even x p * 10 ^ p) - int x\<bar> \<le> int (10 ^ p)"
proof -
  define T where "T = (10 :: nat) ^ p"
  define D where "D = x div T"
  define M where "M = x mod T"
  have x: "x = D * T + M" unfolding D_def M_def by (rule div_mult_mod_eq [symmetric])
  have MT: "M < T" by (simp add: M_def T_def)
  have r: "round_half_even x p = (if 2 * M > T \<or> (2 * M = T \<and> odd D) then Suc D else D)"
    by (simp only: round_half_even_def Let_def D_def M_def T_def)
  have "2 * \<bar>int (round_half_even x p * T) - int (D * T + M)\<bar> \<le> int T"
    using MT unfolding r by (auto simp: abs_if algebra_simps)
  then have "2 * \<bar>int (round_half_even x p * T) - int x\<bar> \<le> int T" by (subst x)
  then show ?thesis by (simp only: T_def)
qed

lemma round_half_even_near_rat: "2 * \<bar>of_nat (round_half_even x p) * 10 ^ p - (of_nat x :: rat)\<bar> \<le> 10 ^ p"
proof -
  have "(of_int (2 * \<bar>int (round_half_even x p * 10 ^ p) - int x\<bar>) :: rat) \<le> of_int (int (10 ^ p))"
    using round_half_even_near [of x p] by (simp only: of_int_le_iff)
  then show ?thesis by simp
qed

lemma rescale_near:
  assumes "\<not> neg q"
  shows "\<bar>dec_val (dec_rescale q e) - dec_val q\<bar> \<le> 10 powi e / 2"
proof (cases "coeff q = 0 \<or> e \<le> expo q")
  case True
  then have "dec_val (dec_rescale q e) = dec_val q"
    using assms by (auto simp: dec_rescale_def dec_val_def powi10_split [of e "expo q"])
  then show ?thesis by simp
next
  case False
  let ?k = "nat (e - expo q)" and ?x = "coeff q"
  have e: "(10::rat) powi e = 10 ^ ?k * 10 powi expo q" using False powi10_split [of "expo q" e] by simp
  have "2 * \<bar>of_nat (round_half_even ?x ?k) * 10 ^ ?k - (of_nat ?x :: rat)\<bar> * 10 powi expo q \<le> 10 ^ ?k * 10 powi expo q"
    using round_half_even_near_rat by (intro mult_right_mono) simp_all
  moreover have "dec_val (dec_rescale q e) - dec_val q
      = (of_nat (round_half_even ?x ?k) * 10 ^ ?k - of_nat ?x) * 10 powi expo q"
    using False assms by (simp add: dec_rescale_def dec_val_def e algebra_simps)
  ultimately show ?thesis by (simp add: e abs_mult)
qed

lemma rescale_unique:
  assumes "\<not> neg q" "\<bar>dec_val q - of_nat c * 10 powi e\<bar> < 10 powi e / 2"
  shows "dec_rescale q e = Dec False c e"
proof -
  let ?y = "dec_rescale q e"
  have y: "dec_val ?y = of_nat (coeff ?y) * 10 powi e" using assms(1) by (simp add: dec_val_def)
  have "\<bar>dec_val ?y - of_nat c * 10 powi e\<bar> < 10 powi e"
    using rescale_near [OF assms(1), of e] assms(2) by linarith
  then have "\<bar>of_nat (coeff ?y) - (of_nat c :: rat)\<bar> * 10 powi e < 1 * 10 powi e"
    unfolding y by (simp add: abs_mult flip: left_diff_distrib)
  then have "\<bar>of_nat (coeff ?y) - (of_nat c :: rat)\<bar> < 1" by (simp only: mult_less_cancel_right_pos powi10_pos)
  then have "\<bar>(of_int (int (coeff ?y) - int c) :: rat)\<bar> < of_int 1" by simp
  then have "\<bar>int (coeff ?y) - int c\<bar> < 1" by (metis of_int_abs of_int_less_iff)
  then have "coeff ?y = c" by simp
  then show ?thesis using assms(1) by (metis decimal.collapse expo_rescale neg_rescale)
qed

lemma rescale_zero_power [simp]: "round_half_even x 0 = x"
  by (simp add: round_half_even_def)

lemma of_nat_near:
  fixes a b :: nat
  assumes "\<bar>of_nat a - (of_nat b :: rat)\<bar> < 1"
  shows "a = b"
proof -
  have "\<bar>(of_int (int a - int b) :: rat)\<bar> < of_int 1" using assms by simp
  then have "\<bar>int a - int b\<bar> < 1" by (metis of_int_abs of_int_less_iff)
  then show ?thesis by simp
qed

text \<open>The count the code goes back to, and its distance from the ratio.\<close>

lemma recovered_count:
  assumes "c \<le> 10 ^ p" "n < 10 ^ 14" "p \<le> 13"
  shows "dec_to_integral (dec_mul (Dec False c (- int p)) (dec_of_int (int n))) = Dec False (round_half_even (c * n) p) 0"
    and "\<bar>of_nat (round_half_even (c * n) p) - of_nat c * of_nat n / 10 ^ p\<bar> \<le> (1 / 2 :: rat)"
    and "round_half_even (c * n) p \<le> n"
proof -
  have "c * n \<le> 10 ^ p * 10 ^ 14" using assms by (intro mult_le_mono) simp_all
  also have "\<dots> \<le> 10 ^ 13 * 10 ^ 14" using assms(3) by (intro mult_le_mono1 power_increasing) simp_all
  finally have "representable (Dec False (c * n) (- int p))" by (simp add: representable_iff)
  then have "dec_mul (Dec False c (- int p)) (dec_of_int (int n)) = Dec False (c * n) (- int p)"
    by (simp add: dec_mul_def dec_of_int_def dec_fix_id)
  then show "dec_to_integral (dec_mul (Dec False c (- int p)) (dec_of_int (int n))) = Dec False (round_half_even (c * n) p) 0"
    by (auto simp: dec_to_integral_def dec_rescale_def round_half_even_def)
  define r where "r = (of_nat (round_half_even (c * n) p) :: rat)"
  define P where "P = (10 ^ p :: rat)"
  have P: "0 < P" by (simp add: P_def)
  have "2 * \<bar>r * P - of_nat c * of_nat n\<bar> \<le> P" using round_half_even_near_rat [of "c * n" p] by (simp add: r_def P_def)
  moreover have "r * P - of_nat c * of_nat n = (r - of_nat c * of_nat n / P) * P" using P by (simp add: left_diff_distrib)
  ultimately have "\<bar>r - of_nat c * of_nat n / P\<bar> * P \<le> (1 / 2) * P" using P by (simp add: abs_mult)
  then have "\<bar>r - of_nat c * of_nat n / P\<bar> \<le> 1 / 2" using P by (simp only: mult_le_cancel_right_pos)
  then show "\<bar>of_nat (round_half_even (c * n) p) - of_nat c * of_nat n / 10 ^ p\<bar> \<le> (1 / 2 :: rat)"
    by (simp only: r_def P_def)
  show "round_half_even (c * n) p \<le> n"
    by (rule round_half_even_upper) (use assms(1) in \<open>simp add: mult.commute mult_le_mono\<close>)
qed

lemma small_unit:
  assumes "p \<le> 13" shows "2 * 10 ^ p * (10 ^ p + 1) < (10 ^ 27 :: rat)"
proof -
  have "(10 :: rat) ^ p \<le> 10 ^ 13" using assms by (intro power_increasing) simp_all
  then have "2 * 10 ^ p * (10 ^ p + 1) \<le> 2 * 10 ^ 13 * (10 ^ 13 + 1 :: rat)" by (intro mult_mono) simp_all
  then show ?thesis by simp
qed

text \<open>Fewer events than places: the rounding error is below half an event.\<close>

lemma small_count:
  fixes x D :: rat
  assumes "0 < n" "n < 10 ^ p" "2 * 10 ^ p * (10 ^ p + 1) < (10 ^ 27 :: rat)"
    and near: "\<bar>D - of_nat k / of_nat n\<bar> \<le> 1 / 10 ^ p / 2 + 1 / 10 ^ 27"
  shows "\<bar>D * of_nat n - of_nat k\<bar> < 1 / 2"
proof -
  define P where "P = (10 ^ p :: rat)"
  define N where "N = (of_nat n :: rat)"
  have "of_nat n + 1 \<le> (of_nat (10 ^ p) :: rat)" using assms(2) by (metis Suc_leI of_nat_Suc of_nat_le_iff add.commute)
  then have N: "0 < N" "N + 1 \<le> P" "0 < P" using assms(1) by (simp_all add: N_def P_def)
  have "D * N - of_nat k = (D - of_nat k / N) * N" using N by (simp add: left_diff_distrib)
  then have "\<bar>D * N - of_nat k\<bar> = \<bar>D - of_nat k / N\<bar> * N" using N by (simp add: abs_mult)
  also have "\<dots> \<le> (1 / P / 2 + 1 / 10 ^ 27) * N" using near N by (intro mult_right_mono) (simp_all add: N_def P_def)
  also have "\<dots> \<le> (1 / P / 2 + 1 / 10 ^ 27) * (P - 1)" using N by (intro mult_left_mono) simp_all
  also have "\<dots> < 1 / 2"
  proof -
    have "2 * P * (P - 1) < 10 ^ 27" using assms(3) N by (simp add: P_def algebra_simps)
    then show ?thesis using N by (simp add: field_simps)
  qed
  finally show ?thesis by (simp add: N_def)
qed

text \<open>More events than places: the count gone back to rounds to the same ratio.\<close>

lemma large_count:
  fixes q :: rat
  assumes "\<not> n < 10 ^ p" "2 * 10 ^ p * (10 ^ p + 1) < (10 ^ 27 :: rat)"
    and near: "\<bar>q - of_nat k / of_nat n\<bar> \<le> 1 / 10 ^ 27"
    and k: "\<bar>of_nat k - of_nat c * of_nat n / 10 ^ p\<bar> \<le> (1 / 2 :: rat)" and exact: "n = 10 ^ p \<Longrightarrow> k = c"
  shows "\<bar>q - of_nat c * (1 / 10 ^ p)\<bar> < 1 / 10 ^ p / 2"
proof -
  define P where "P = (10 ^ p :: rat)"
  define N where "N = (of_nat n :: rat)"
  have P: "1 \<le> P" "0 < P" by (simp_all add: P_def)
  have PP: "2 * P * (P + 1) < 10 ^ 27" using assms(2) by (simp add: P_def)
  have "1 / P / 2 - 1 / (2 * (P + 1)) = 1 / (2 * P * (P + 1))" using P by (simp add: field_simps)
  moreover have "1 / 10 ^ 27 < 1 / (2 * P * (P + 1))" using P PP by (intro divide_strict_left_mono) simp_all
  ultimately have e: "1 / 10 ^ 27 < 1 / P / 2 - 1 / (2 * (P + 1))" by simp
  show ?thesis
  proof (cases "n = 10 ^ p")
    case True
    have "0 < 1 / (2 * (P + 1))" using P by simp
    then have "1 / 10 ^ 27 < 1 / P / 2" using e by linarith
    then have "1 / 10 ^ 27 < 1 / 10 ^ p / (2 :: rat)" by (simp only: P_def)
    moreover have "\<bar>q - of_nat c * (1 / 10 ^ p)\<bar> \<le> 1 / 10 ^ 27" using near exact [OF True] True by simp
    ultimately show ?thesis by linarith
  next
    case False
    then have "10 ^ p + 1 \<le> n" using assms(1) by simp
    then have "of_nat (10 ^ p + 1) \<le> (of_nat n :: rat)" by (simp only: of_nat_le_iff)
    then have N: "P + 1 \<le> N" by (simp add: N_def P_def)
    then have "0 < N" using P by linarith
    note N = N this
    have "of_nat k - of_nat c * N / P = (of_nat k / N - of_nat c / P) * N" using N by (simp add: left_diff_distrib)
    then have "\<bar>of_nat k / N - of_nat c / P\<bar> * N = \<bar>of_nat k - of_nat c * N / P\<bar>"
      using N by (simp add: abs_mult)
    also have "\<dots> \<le> 1 / 2" using k by (simp add: N_def P_def)
    finally have "\<bar>of_nat k / N - of_nat c / P\<bar> \<le> 1 / 2 / N" using N by (simp add: pos_le_divide_eq)
    also have "\<dots> \<le> 1 / (2 * (P + 1))" using N P by (simp add: frac_le)
    finally have "\<bar>of_nat k / N - of_nat c / P\<bar> \<le> 1 / (2 * (P + 1))" .
    moreover have "\<bar>q - of_nat k / N\<bar> \<le> 1 / 10 ^ 27" using near by (simp only: N_def)
    ultimately have "\<bar>q - of_nat c / P\<bar> < 1 / P / 2" using e by linarith
    then show ?thesis by (simp add: P_def)
  qed
qed

lemma rescale_unit:
  assumes "dec_mag q \<le> 1" shows "coeff (dec_rescale q (- int p)) \<le> 10 ^ p"
proof -
  have "dec_mag (dec_rescale q (- int p)) \<le> of_nat (10 ^ p) * 10 powi (- int p)"
    using assms by (intro rescale_mag_le) (simp add: power_int_minus)
  then have "(of_nat (coeff (dec_rescale q (- int p))) :: rat) \<le> of_nat (10 ^ p)"
    unfolding dec_mag_def expo_rescale by (simp only: mult_le_cancel_right_pos powi10_pos)
  then show ?thesis by (simp only: of_nat_le_iff)
qed

lemma honest_ratio:
  assumes "k \<le> n" "0 < n" "n < 10 ^ 14" "p \<le> 13"
    and q: "dec_div (Dec False k 0) (Dec False n 0) = Inr q" and v: "dec_quantize q (- int p) = Inr v"
  shows "achievable v (int n) = Inr True"
proof -
  define c where "c = coeff v"
  define k' where "k' = round_half_even (c * n) p"
  let ?x = "of_nat k / (of_nat n :: rat)" and ?u = "1 / (10 ^ p :: rat)"
  have powi: "(10::rat) powi (- int p) = ?u" by (simp add: power_int_minus divide_inverse)
  have unit: "between (Dec False 0 0) (dec_val q) (Dec False 1 0)"
    using dec_div_unit [of "Dec False k 0" "Dec False n 0"] q assms(1,2) by (auto simp: dec_val_def)
  have q0: "\<not> neg q" using q assms(2) by (auto simp: dec_div_def Let_def split_beta split: if_splits)
  have vq: "v = dec_rescale q (- int p)" using v by (auto simp: dec_quantize_def Let_def split: if_splits)
  have vd: "v = Dec False c (- int p)" using q0 unfolding c_def vq by (metis decimal.collapse expo_rescale neg_rescale)
  have val: "dec_val v = of_nat c * ?u" unfolding vd dec_val_Dec powi by simp
  have c: "c \<le> 10 ^ p" unfolding c_def vq using rescale_unit unit q0 by (simp add: between_def dec_val_def dec_mag_def)
  have P: "2 * 10 ^ p * (10 ^ p + 1) < (10 ^ 27 :: rat)" using small_unit [OF assms(4)] .
  note rec = recovered_count [OF c assms(3,4), folded k'_def vd]
  have near: "\<bar>dec_val q - ?x\<bar> \<le> 1 / 10 ^ 27" using dec_div_near [OF assms(1,2) q] .
  have vnear: "\<bar>dec_val v - dec_val q\<bar> \<le> ?u / 2" using rescale_near [OF q0, of "- int p"] unfolding vq powi .
  obtain q' where q': "dec_div (Dec False k' 0) (Dec False n 0) = Inr q'" using dec_div_ok [of "Dec False n 0"] assms(2) by auto
  have q0': "\<not> neg q'" using q' assms(2) by (auto simp: dec_div_def Let_def split_beta split: if_splits)
  have "dec_quantize q' (- int p) = Inr v"
  proof (cases "n < 10 ^ p")
    case True
    have "\<bar>dec_val v - ?x\<bar> \<le> ?u / 2 + 1 / 10 ^ 27" using near vnear by linarith
    then have "\<bar>dec_val v * of_nat n - of_nat k\<bar> < 1 / 2" using small_count [OF assms(2) True P] by blast
    moreover have "dec_val v * of_nat n = of_nat c * of_nat n / 10 ^ p" by (simp add: val)
    ultimately have "\<bar>of_nat k' - (of_nat k :: rat)\<bar> < 1" using rec(2) by linarith
    then have "k' = k" by (rule of_nat_near)
    then show ?thesis using q q' v by simp
  next
    case False
    have "\<bar>dec_val q' - of_nat k' / of_nat n\<bar> \<le> 1 / 10 ^ 27" using dec_div_near [OF rec(3) assms(2) q'] .
    moreover have "n = 10 ^ p \<Longrightarrow> k' = c" by (simp add: k'_def round_half_even_def)
    ultimately have "\<bar>dec_val q' - of_nat c * ?u\<bar> < ?u / 2" using large_count [OF False P _ rec(2)] by blast
    then have "dec_rescale q' (- int p) = v" using rescale_unique [OF q0', of c "- int p"] unfolding powi vd by simp
    moreover have "\<bar>dec_val q'\<bar> \<le> of_nat (10 ^ p) * 10 powi (- int p)"
      using dec_div_unit [of "Dec False k' 0" "Dec False n 0"] q' rec(3) assms(2)
      by (auto simp: dec_val_def between_def power_int_minus)
    then have "dec_quantize q' (- int p) = Inr (dec_rescale q' (- int p))"
      by (rule dec_quantize_total) (unfold prec_def, rule power_strict_increasing, use assms(4) in simp_all)
    ultimately show ?thesis by simp
  qed
  moreover have "- (if expo v < 0 then - expo v else 0) = - int p" by (simp add: vd)
  moreover have "dec_in dec_zero (Dec False k' 0) (dec_of_int (int n))"
    using rec(3) by (simp add: dec_in_val dec_val_Dec)
  moreover have "dec_div (Dec False k' 0) (dec_of_int (int n)) = Inr q'" using q' by (simp add: dec_of_int_def)
  moreover have "int n \<noteq> 0" using assms(2) by simp
  ultimately show ?thesis by (simp only: achievable_def Let_def rec(1) if_True if_False not_True_eq_False bindE_simps) (simp add: dec_cmp)
qed


section \<open>The gate on the spread\<close>

lemma dec_sqrt_ok: "\<not> neg d \<Longrightarrow> \<exists>r. dec_sqrt d = Inr r"
  by (simp add: dec_sqrt_def Let_def)

lemma dec_div_nonneg: "dec_div a b = Inr q \<Longrightarrow> neg a = neg b \<Longrightarrow> \<not> neg q"
  by (auto simp: dec_div_def Let_def split_beta split: if_splits)

lemma stdev_ok:
  assumes "2 \<le> length xs"
  shows "\<exists>sd. stdev xs = Inr sd"
proof -
  have "\<exists>sd. decimal_sqrt_of_frac x = Inr sd" for x
  proof (cases "x \<le> 0")
    case False
    let ?a = "dec_of_int (fst (quotient_of x))" and ?b = "dec_of_int (snd (quotient_of x))"
    obtain a b where ab: "quotient_of x = (a, b)" by fastforce
    then have "0 < b" by (rule quotient_of_denom_pos)
    moreover have "0 < of_int a / (of_int b :: rat)" using False quotient_of_div [OF ab] by simp
    ultimately have pos: "0 < snd (quotient_of x)" "0 < fst (quotient_of x)" using ab by (simp_all add: zero_less_divide_iff)
    then obtain q where q: "dec_div ?a ?b = Inr q" using dec_div_ok [of ?b ?a] by (auto simp: dec_of_int_def)
    then have "\<not> neg q" using dec_div_nonneg [of ?a ?b q] pos by (simp add: dec_of_int_def)
    then obtain r where "dec_sqrt q = Inr r" using dec_sqrt_ok by blast
    then show ?thesis using False q by (simp add: decimal_sqrt_of_frac_def)
  qed (simp add: decimal_sqrt_of_frac_def)
  then show ?thesis using assms by (simp add: stdev_def checkE_def)
qed

lemma mapE_ok: "(\<And>x. x \<in> set xs \<Longrightarrow> \<exists>y. f x = Inr y) \<Longrightarrow> \<exists>ys. mapE f xs = Inr ys \<and> length ys = length xs"
  by (induction xs) force+

lemma foldE_checks: "foldE (\<lambda>_ x. checkE (P x) e) () xs = Inr u \<longleftrightarrow> (\<forall>x \<in> set xs. P x)"
  by (induction xs) (auto simp: checkE_def)

definition same_metrics :: "Repetition list \<Rightarrow> string set \<Rightarrow> bool" where
  "same_metrics reps names \<longleftrightarrow> names \<noteq> {} \<and> (\<forall>r \<in> set reps. names_of r = names)"

lemma metric_names_iff:
  assumes "reps \<noteq> []"
  shows "metric_names reps = Inr names \<longleftrightarrow> same_metrics reps names"
proof -
  obtain r rs where "reps = r # rs" using assms by (cases reps) auto
  then show ?thesis by (auto simp: metric_names_def same_metrics_def foldE_checks)
qed

lemma metric_names_error: "metric_names reps = Inl e \<Longrightarrow> reps \<noteq> [] \<Longrightarrow> \<exists>msg. e = ValueError msg"
  by (auto simp: metric_names_def bindE_eq_Inl dest!: foldE_Inl split: list.splits)

lemma worst_sd_ok:
  assumes "same_metrics reps names" "2 \<le> length reps" "finite names"
  shows "\<exists>sd. worst_sd reps = Inr sd"
proof -
  have sd: "\<exists>y. metric_sd reps name = Inr y" if "name \<in> names" for name
  proof -
    have "\<exists>y. dict_getE (rep_metrics r) name = Inr y" if "r \<in> set reps" for r
    proof -
      have "name \<in> fst ` set (rep_metrics r)" using assms(1) that \<open>name \<in> names\<close> by (auto simp: same_metrics_def names_of_def)
      then show ?thesis using map_of_eq_None_iff [of "rep_metrics r" name] by (auto simp del: map_of_eq_None_iff)
    qed
    then have "\<exists>ys. mapE (\<lambda>r. dict_getE (rep_metrics r) name) reps = Inr ys \<and> length ys = length reps" by (rule mapE_ok)
    then obtain ys where "mapE (\<lambda>r. dict_getE (rep_metrics r) name) reps = Inr ys" "length ys = length reps" by blast
    then show ?thesis using stdev_ok [of ys] assms(2) by (simp add: metric_sd_def)
  qed
  have "\<exists>ys. mapE (metric_sd reps) (sorted_list_of_set names) = Inr ys \<and> length ys = length (sorted_list_of_set names)"
    using sd assms(3) by (intro mapE_ok) simp
  then obtain ys where ys: "mapE (metric_sd reps) (sorted_list_of_set names) = Inr ys" "length ys = length (sorted_list_of_set names)" by blast
  have "sorted_list_of_set names \<noteq> []" using assms(1,3) by (simp add: same_metrics_def)
  then have "ys \<noteq> []" using ys(2) by (metis length_0_conv)
  then obtain z zs where "ys = z # zs" by (cases ys) auto
  moreover have "reps \<noteq> []" using assms(2) by auto
  then have "metric_names reps = Inr names" using assms(1) by (simp add: metric_names_iff)
  ultimately show ?thesis using ys(1) by (simp add: worst_sd_def dec_max_def)
qed


end
