(* ===== verification/M0_Examples.thy ===== *)
theory M0_Examples
  imports Stability_Props
begin

text \<open>The theorems on the M0 gates at concrete measurements.\<close>

definition ex_metrics :: Metrics where
  "ex_metrics = \<lparr>d_cov = Dec False 97 (- 2), d_acc = Dec False 99 (- 2), m_r = Some (Dec False 90 (- 2)),
     m_t = Some (Dec False 85 (- 2)), truth_coverage = Dec False 99 (- 2), oracle_capture_failure = Dec False 5 (- 3),
     m_n = 10000, n_residual = Some 20000\<rparr>"

lemmas m0_eval = achievable_def dec_in_def dec_zero_def dec_one_def dec_to_integral_def dec_fast_eval

lemma ex_achievable1: "achievable (Dec False 97 (- 2)) 10000 = Inr True"
  by (simp add: m0_eval)

lemma ex_achievable2: "achievable (Dec False 99 (- 2)) 10000 = Inr True"
  by (simp add: m0_eval)

lemma ex_achievable3: "achievable (Dec False 5 (- 3)) 10000 = Inr True"
  by (simp add: m0_eval)

lemma ex_achievable4: "achievable (Dec False 99 (- 2)) 9700 = Inr True"
  by (simp add: m0_eval)

lemma ex_achievable5: "achievable (Dec False 90 (- 2)) 20000 = Inr True"
  by (simp add: m0_eval)

lemma ex_achievable6: "achievable (Dec False 85 (- 2)) 20000 = Inr True"
  by (simp add: m0_eval)

lemmas ex_achievable = ex_achievable1 ex_achievable2 ex_achievable3 ex_achievable4 ex_achievable5 ex_achievable6

lemma ex_point:
  "m_d ex_metrics = Dec False 9603 (- 4)" "unresolved ex_metrics = Dec False 1 (- 2)" "d_cov_count ex_metrics = 9700"
  by (simp_all add: ex_metrics_def m_d_def unresolved_def d_cov_count_def m0_eval)

lemma ex_metrics_valid: "validate_metrics ex_metrics = Inr ()"
  by (simp add: validate_metrics_def checkE_def ex_point)
    (simp add: ex_metrics_def ex_achievable MIN_SAMPLE_SIZE_def MIN_RESIDUAL_SAMPLE_SIZE_def MIN_GT_OPS_PER_REP_def
      dec_in_def dec_zero_def dec_one_def dec_eval)

lemma ex_thresholds_valid: "validate_thresholds RUN_001 = Inr ()"
  by (simp add: validate_thresholds_def checkE_def RUN_001_def thresholds_default_def dec_in_def dec_zero_def dec_one_def dec_eval)

theorem validated_metrics_consistent_witness:
  "dec_val (m_d ex_metrics) \<le> dec_val (d_acc ex_metrics) \<and> m_d ex_metrics = Dec False 9603 (- 4)"
proof -
  show ?thesis using validated_metrics_consistent [OF ex_metrics_valid] ex_point(1) by blast
qed

lemma ex_gate: "gate0 ex_metrics RUN_001 = VALID"
  by (simp add: gate0_def ex_metrics_def RUN_001_def thresholds_default_def dec_eval)

lemma ex_class:
  "classify (m_d ex_metrics) (d_acc ex_metrics) (unresolved ex_metrics) (m_r ex_metrics) (m_t ex_metrics) RUN_001 = Inr A"
  unfolding ex_point by (simp add: classify_def q_of_def ex_metrics_def RUN_001_def thresholds_default_def m0_eval)

text \<open>\<open>D = 0.9603\<close> is within two points of the threshold 0.95.\<close>

lemma ex_moved:
  "classify_point RUN_001 (moved RUN_001 \<lparr>x_d = m_d ex_metrics, x_d_acc = d_acc ex_metrics, x_unresolved = unresolved ex_metrics,
      x_r = Dec False 90 (- 2), x_t = Dec False 85 (- 2)\<rparr> (AxisD, - 1)) = Inr B_HYBRID"
  "possible (moved RUN_001 \<lparr>x_d = m_d ex_metrics, x_d_acc = d_acc ex_metrics, x_unresolved = unresolved ex_metrics,
      x_r = Dec False 90 (- 2), x_t = Dec False 85 (- 2)\<rparr> (AxisD, - 1))"
  unfolding ex_point
  by (simp_all add: classify_point_def possible_def moved_def ex_metrics_def RUN_001_def thresholds_default_def)
    (simp_all add: classify_def e_of_def RUN_001_def thresholds_default_def m0_eval)

theorem decide_meaning_witness:
  "\<exists>dec. decide ex_metrics RUN_001 = Inr dec \<and> run_status dec = VALID \<and> nominal dec = Some A \<and> attribution dec = Some BORDERLINE"
proof -
  have rt: "m_r ex_metrics = Some (Dec False 90 (- 2))" "m_t ex_metrics = Some (Dec False 85 (- 2))" by (simp_all add: ex_metrics_def)
  obtain dec where dec: "decide ex_metrics RUN_001 = Inr dec" "run_status dec = VALID" "nominal dec = Some A"
    "attribution dec = Some BORDERLINE \<longleftrightarrow> (\<exists>r t axis sign p. m_r ex_metrics = Some r \<and> m_t ex_metrics = Some t \<and> sign \<in> {- 1, 1}
       \<and> p = moved RUN_001 \<lparr>x_d = m_d ex_metrics, x_d_acc = d_acc ex_metrics, x_unresolved = unresolved ex_metrics, x_r = r, x_t = t\<rparr> (axis, sign)
       \<and> possible p \<and> classify_point RUN_001 p \<noteq> Inr A)"
    using decide_meaning [OF ex_thresholds_valid, of ex_metrics, unfolded ex_gate ex_class sum.inject] by blast
  moreover have "attribution dec = Some BORDERLINE"
    unfolding dec(4) using rt ex_moved
    by (intro exI [of _ "Dec False 90 (- 2)"] exI [of _ "Dec False 85 (- 2)"] exI [of _ AxisD] exI [of _ "- 1 :: int"]) simp
  ultimately show ?thesis by blast
qed


definition ex_rep :: Repetition where
  "ex_rep = \<lparr>rep_metrics = [(''d'', Dec False 50 (- 2))], deterministic_gt_ops = 10000\<rparr>"


end
