(* ===== verification/Observe.thy ===== *)
theory Observe
  imports Stream_Props Stability
begin

text \<open>
  Observation of the evidence (\<open>observation.py\<close>): the final decisions of a replayed journal
  counted by side, source, capture day and outcome; a declared rule that turns a rule's daily
  match rate into verdicts; and typed alerts on drops, silent sources, capture failures and
  rises of undecided outcomes.

  The rules are well-typed, so the \<open>isinstance\<close> checks have nothing to refuse.  Arithmetic is
  under the library's context everywhere: the code leaves the comparisons with the margin and
  the printed bounds to the caller's context, which agrees with the library's when it is
  Python's default.  Dates that leave Python's calendar are not modelled.
\<close>

section \<open>Dates\<close>

definition US_PER_DAY :: int where "US_PER_DAY = 86400000000"

text \<open>\<open>captured_at.astimezone(UTC).date()\<close>\<close>

definition utc_day :: "int \<Rightarrow> int \<Rightarrow> date" where
  "utc_day local off = (local - off) div US_PER_DAY"

definition DAYS_BEFORE_MONTH :: "int list" where
  "DAYS_BEFORE_MONTH = [-1, 0, 31, 59, 90, 120, 151, 181, 212, 243, 273, 304, 334]"

definition DAYS_IN_MONTH :: "int list" where
  "DAYS_IN_MONTH = [-1, 31, 28, 31, 30, 31, 30, 31, 31, 30, 31, 30, 31]"

text \<open>The calendar date of an ordinal day, as \<open>datetime._ord2ymd\<close> computes it.\<close>

definition ord2ymd :: "date \<Rightarrow> int \<times> int \<times> int" where
  "ord2ymd ordinal =
     (let n = ordinal - 1;
          n400 = n div 146097; n = n mod 146097; year = n400 * 400 + 1;
          n100 = n div 36524; n = n mod 36524;
          n4 = n div 1461; n = n mod 1461;
          n1 = n div 365; n = n mod 365;
          year = year + n100 * 100 + n4 * 4 + n1 in
      if n1 = 4 \<or> n100 = 4 then (year - 1, 12, 31)
      else
        let leapyear = (n1 = 3 \<and> (n4 \<noteq> 24 \<or> n100 = 3));
            month = (n + 50) div 32;
            preceding = DAYS_BEFORE_MONTH ! nat month + (if month > 2 \<and> leapyear then 1 else 0) in
        if preceding > n
        then let month = month - 1;
                 preceding = preceding - (DAYS_IN_MONTH ! nat month + (if month = 2 \<and> leapyear then 1 else 0)) in
             (year, month, n - preceding + 1)
        else (year, month, n - preceding + 1))"

text \<open>\<open>f"{i:0{w}d}"\<close> for a number that is not negative.\<close>

definition pad_int :: "nat \<Rightarrow> int \<Rightarrow> string" where
  "pad_int w i = (let ds = digit_chars (nat i) in replicate (w - length ds) CHR ''0'' @ ds)"

definition isoformat :: "date \<Rightarrow> string" where
  "isoformat d = (case ord2ymd d of (y, m, dd) \<Rightarrow> pad_int 4 y @ ''-'' @ pad_int 2 m @ ''-'' @ pad_int 2 dd)"

section \<open>Rules and results\<close>

definition UNDECIDED_REASONS :: "string set" where
  "UNDECIDED_REASONS = {LATE, REFERENCE_AFTER_FINAL, ''BLOCK_TOO_LARGE''}"

record DriftRule =
  reference_days :: int
  min_decisions :: int
  dr_margin :: decimal
  dr_z :: decimal

record EvidenceRule =
  silent_days :: int
  max_capture_failure :: decimal

definition DEFAULT_DRIFT :: DriftRule where
  "DEFAULT_DRIFT = \<lparr>reference_days = 14, min_decisions = 200, dr_margin = Dec False 5 (- 2), dr_z = Dec False 196 (- 2)\<rparr>"

definition DEFAULT_EVIDENCE :: EvidenceRule where
  "DEFAULT_EVIDENCE = \<lparr>silent_days = 2, max_capture_failure = Dec False 1 (- 2)\<rparr>"

definition drift_rule_id :: "(string \<Rightarrow> string) \<Rightarrow> DriftRule \<Rightarrow> string" where
  "drift_rule_id H r = digest H [''drift'', str_int (reference_days r), str_int (min_decisions r),
     str_dec (dr_margin r), str_dec (dr_z r)]"

definition evidence_rule_id :: "(string \<Rightarrow> string) \<Rightarrow> EvidenceRule \<Rightarrow> string" where
  "evidence_rule_id H r = digest H [''evidence'', str_int (silent_days r), str_dec (max_capture_failure r)]"

record CaptureFailure =
  cf_side :: string
  cf_source :: string
  cf_captured_at :: "DateTime option"

record Count =
  c_side :: string
  c_source :: string
  c_day :: date
  c_outcome :: string
  c_forced :: bool
  c_count :: int

datatype Verdict = NORMAL | DROP | INSUFFICIENT | NO_REFERENCE

record DayVerdict =
  v_side :: string
  v_source :: string
  v_rule :: string
  v_day :: date
  v_verdict :: Verdict
  v_matched :: int
  v_decided :: int
  v_reference_matched :: int
  v_reference_decided :: int
  v_upper :: "decimal option"
  v_reference_lower :: "decimal option"

datatype AlertKind = MATCH_RATE_DROP | SOURCE_SILENT | CAPTURE_FAILURE | UNDECIDED_JUMP

fun kind_value :: "AlertKind \<Rightarrow> string" where
  "kind_value MATCH_RATE_DROP = ''MATCH_RATE_DROP''"
| "kind_value SOURCE_SILENT = ''SOURCE_SILENT''"
| "kind_value CAPTURE_FAILURE = ''CAPTURE_FAILURE''"
| "kind_value UNDECIDED_JUMP = ''UNDECIDED_JUMP''"

record Alert =
  a_kind :: AlertKind
  a_side :: string
  a_source :: string
  a_day :: date
  a_detail :: string
  a_rule_id :: string

record Observed =
  ob_counts :: "Count list"
  ob_verdicts :: "DayVerdict list"
  ob_alerts :: "Alert list"

section \<open>Checks\<close>

definition check_drift :: "DriftRule \<Rightarrow> unit result" where
  "check_drift d =
     bindE (checkE (reference_days d \<ge> 1) (ValueError ''reference_days must be an integer >= 1'')) (\<lambda>_.
     bindE (checkE (min_decisions d \<ge> 1) (ValueError ''min_decisions must be an integer >= 1'')) (\<lambda>_.
     bindE (checkE (dec_le dec_zero (dr_margin d)) (ValueError ''margin must be a Decimal >= 0'')) (\<lambda>_.
     checkE (dec_less dec_zero (dr_z d)) (ValueError ''z must be a Decimal > 0''))))"

definition check_evidence :: "EvidenceRule \<Rightarrow> unit result" where
  "check_evidence e =
     bindE (checkE (silent_days e \<ge> 1) (ValueError ''silent_days must be an integer >= 1'')) (\<lambda>_.
     checkE (dec_in dec_zero (max_capture_failure e) dec_one) (ValueError ''max_capture_failure must be a Decimal in [0, 1]''))"

definition capture_day :: "DateTime option \<Rightarrow> date result" where
  "capture_day captured =
     (case captured of None \<Rightarrow> Inl (ValueError ''has no captured_at: it cannot be placed in time'')
      | Some t \<Rightarrow> (case utcoffset_us t of None \<Rightarrow> Inl (ValueError ''captured_at has no timezone'')
          | Some off \<Rightarrow> Inr (utc_day (local_us t) off)))"

section \<open>The Wilson interval\<close>

definition wilson :: "int \<Rightarrow> int \<Rightarrow> decimal \<Rightarrow> (decimal \<times> decimal) result" where
  "wilson successes trials z =
     bindE (checkE (0 \<le> successes \<and> successes \<le> trials \<and> \<not> trials < 1)
       (ValueError ''need 0 <= successes <= trials and trials >= 1'')) (\<lambda>_.
     let n = dec_of_int trials in
     bindE (dec_div (dec_of_int successes) n) (\<lambda>p.
     let z2 = dec_mul z z in
     bindE (dec_div z2 (dec_mul (dec_of_int 2) n)) (\<lambda>half.
     let centre = dec_add p half in
     bindE (dec_div (dec_mul p (dec_sub dec_one p)) n) (\<lambda>var.
     bindE (dec_div z2 (dec_mul (dec_mul (dec_of_int 4) n) n)) (\<lambda>quarter.
     bindE (dec_sqrt (dec_add var quarter)) (\<lambda>root.
     let spread = dec_mul z root in
     bindE (dec_div z2 n) (\<lambda>extra.
     let denominator = dec_add dec_one extra in
     bindE (dec_div (dec_sub centre spread) denominator) (\<lambda>lower.
     bindE (dec_div (dec_add centre spread) denominator) (\<lambda>upper.
     Inr (if dec_less dec_zero lower then lower else dec_zero,
          if dec_less upper dec_one then upper else dec_one))))))))))"

definition bound :: "decimal \<Rightarrow> string result" where
  "bound v = bindE (dec_quantize v (- 4)) (\<lambda>q. Inr (str_dec q))"

section \<open>Series\<close>

type_synonym origins = "(BusinessKey \<times> string \<times> date) list"

definition add_origin :: "origins \<Rightarrow> Entry \<Rightarrow> origins result" where
  "add_origin origins entry =
     (case entry of
        EArrival a \<Rightarrow>
          let key = (arr_side a, rec_id (arr_record a)) in
          if key \<in> fst ` set origins then Inr origins
          else bindE (capture_day (captured_at a)) (\<lambda>day. Inr (dict_put key (arr_source a, day) origins))
      | _ \<Rightarrow> Inr origins)"

definition origins_of :: "Entry list \<Rightarrow> origins result" where
  "origins_of journal = foldE add_origin [] journal"

type_synonym cell_key = "string \<times> string \<times> date \<times> string \<times> bool"

text \<open>\<open>counter[key] += 1\<close>\<close>

definition tally :: "'k \<Rightarrow> ('k \<times> int) list \<Rightarrow> ('k \<times> int) list" where
  "tally k c = dict_put k ((case map_of c k of None \<Rightarrow> 0 | Some n \<Rightarrow> n) + 1) c"

definition outcome_of :: "(BusinessKey \<times> Decision) list \<Rightarrow> Decision \<Rightarrow> string result" where
  "outcome_of eff d =
     (if dreason d = AS_COUNTERPART
      then (case input_ids d of [] \<Rightarrow> Inl IndexError
            | i # _ \<Rightarrow> bindE (dict_getE eff (LEFT, i)) (\<lambda>m. Inr (dreason m)))
      else Inr (dreason d))"

definition count_decision ::
    "origins \<Rightarrow> (BusinessKey \<times> Decision) list \<Rightarrow> (cell_key \<times> int) list \<Rightarrow> BusinessKey \<times> Decision
      \<Rightarrow> (cell_key \<times> int) list result" where
  "count_decision origins eff counter kd =
     (let (key, d) = kd in
      if dstatus d \<noteq> FINAL then Inr counter
      else bindE (outcome_of eff d) (\<lambda>outcome.
        bindE (dict_getE origins key) (\<lambda>(source, day).
        Inr (tally (fst key, source, day, outcome, forced d) counter))))"

definition series :: "Entry list \<Rightarrow> StreamResult \<Rightarrow> Count list result" where
  "series journal res =
     bindE (origins_of journal) (\<lambda>origins.
     let eff = effective res None in
     bindE (foldE (count_decision origins eff) [] eff) (\<lambda>counter.
     Inr (map (\<lambda>((side, source, day, outcome, frc), n).
       \<lparr>c_side = side, c_source = source, c_day = day, c_outcome = outcome, c_forced = frc, c_count = n\<rparr>)
       (sort_key fst counter))))"

section \<open>Drift\<close>

type_synonym days = "(date \<times> int \<times> int) list"

definition add_cell :: "(Count \<Rightarrow> bool) \<Rightarrow> Count \<Rightarrow> (string \<times> days) list \<Rightarrow> (string \<times> days) list" where
  "add_cell hit c daily =
     (let by_day = (case map_of daily (c_source c) of None \<Rightarrow> [] | Some d \<Rightarrow> d);
          (h, t) = (case map_of by_day (c_day c) of None \<Rightarrow> (0, 0) | Some x \<Rightarrow> x) in
      dict_put (c_source c) (dict_put (c_day c) (h + (if hit c then c_count c else 0), t + c_count c) by_day) daily)"

definition daily :: "Count list \<Rightarrow> string \<Rightarrow> (Count \<Rightarrow> bool) \<Rightarrow> (string \<times> days) list" where
  "daily counts side hit =
     map (\<lambda>(s, by_day). (s, sort_key fst by_day))
       (fold (\<lambda>c d. if c_side c = side then add_cell hit c d else d) counts [])"

definition obs_reference :: "days \<Rightarrow> date \<Rightarrow> int \<Rightarrow> int \<times> int" where
  "obs_reference by_day day width =
     fold (\<lambda>off (hits, total).
       let (h, t) = (case map_of by_day (day - int off) of None \<Rightarrow> (0, 0) | Some x \<Rightarrow> x) in (hits + h, total + t))
       [1..<Suc (nat width)] (0, 0)"

definition day_verdict ::
    "string \<Rightarrow> string \<Rightarrow> string \<Rightarrow> DriftRule \<Rightarrow> days \<Rightarrow> date \<times> int \<times> int \<Rightarrow> DayVerdict result" where
  "day_verdict side source rl drift by_day dmt =
     (let (day, matched, decided) = dmt;
          (ref_matched, ref_decided) = obs_reference by_day day (reference_days drift);
          out = (\<lambda>v u l. \<lparr>v_side = side, v_source = source, v_rule = rl, v_day = day, v_verdict = v,
             v_matched = matched, v_decided = decided, v_reference_matched = ref_matched,
             v_reference_decided = ref_decided, v_upper = u, v_reference_lower = l\<rparr>) in
      if decided < min_decisions drift then Inr (out INSUFFICIENT None None)
      else if ref_decided < min_decisions drift then Inr (out NO_REFERENCE None None)
      else
        bindE (wilson matched decided (dr_z drift)) (\<lambda>(_, upper).
        bindE (wilson ref_matched ref_decided (dr_z drift)) (\<lambda>(lower, _).
        Inr (out (if dec_less upper (dec_sub lower (dr_margin drift)) then DROP else NORMAL) (Some upper) (Some lower)))))"

definition match_rate :: "Count list \<Rightarrow> string \<Rightarrow> string \<Rightarrow> DriftRule \<Rightarrow> DayVerdict list result" where
  "match_rate counts side rl drift =
     bindE (check_drift drift) (\<lambda>_.
     let unforced = filter (\<lambda>c. \<not> c_forced c) counts;
         d = daily unforced side (\<lambda>c. c_outcome c = rl) in
     collectE (\<lambda>source. bindE (dict_getE d source) (\<lambda>by_day.
       mapE (day_verdict side source rl drift by_day) by_day)) (sort (map fst d)))"

section \<open>Evidence\<close>

definition last_seen :: "origins \<Rightarrow> ((string \<times> string) \<times> date) list" where
  "last_seen origins =
     fold (\<lambda>((side, _), (source, day)) seen.
       dict_put (side, source) (max day (case map_of seen (side, source) of None \<Rightarrow> day | Some d \<Rightarrow> d)) seen) origins []"

definition silent :: "(string \<Rightarrow> string) \<Rightarrow> origins \<Rightarrow> EvidenceRule \<Rightarrow> Alert list" where
  "silent H origins evidence =
     (if origins = [] then []
      else
        let seen = last_seen origins; end_day = max_of (map snd seen) in
        map (\<lambda>((side, source), day).
          \<lparr>a_kind = SOURCE_SILENT, a_side = side, a_source = source, a_day = end_day,
           a_detail = ''last capture '' @ isoformat day @ '', '' @ str_int (end_day - day) @ '' days before '' @ isoformat end_day,
           a_rule_id = evidence_rule_id H evidence\<rparr>)
          (filter (\<lambda>(_, day). end_day - day > silent_days evidence) (sort_key fst seen)))"

definition capture_alert ::
    "(string \<Rightarrow> string) \<Rightarrow> ((string \<times> string \<times> date) \<times> int) list \<Rightarrow> DriftRule \<Rightarrow> EvidenceRule
      \<Rightarrow> (string \<times> string \<times> date) \<times> int \<Rightarrow> Alert list result" where
  "capture_alert H arrived drift evidence kb =
     (let ((side, source, day), bad) = kb;
          total = bad + (case map_of arrived (side, source, day) of None \<Rightarrow> 0 | Some n \<Rightarrow> n) in
      if total < min_decisions drift then Inr []
      else
        bindE (wilson bad total (dr_z drift)) (\<lambda>(lower, _).
        if dec_less (max_capture_failure evidence) lower
        then bindE (bound lower) (\<lambda>b.
          Inr [\<lparr>a_kind = CAPTURE_FAILURE, a_side = side, a_source = source, a_day = day,
                a_detail = str_int bad @ ''/'' @ str_int total @ '' failed, lower bound '' @ b @ '' > ''
                  @ str_dec (max_capture_failure evidence),
                a_rule_id = evidence_rule_id H evidence\<rparr>])
        else Inr []))"

definition capture_failures ::
    "(string \<Rightarrow> string) \<Rightarrow> origins \<Rightarrow> CaptureFailure list \<Rightarrow> DriftRule \<Rightarrow> EvidenceRule \<Rightarrow> Alert list result" where
  "capture_failures H origins failures drift evidence =
     bindE (foldE (\<lambda>c f. bindE (capture_day (cf_captured_at f)) (\<lambda>day.
       Inr (tally (cf_side f, cf_source f, day) c))) [] failures) (\<lambda>failed.
     let arrived = fold (\<lambda>((side, _), (source, day)). tally (side, source, day)) origins [] in
     collectE (capture_alert H arrived drift evidence) (sort_key fst failed))"

text \<open>\<open>s.split("+")\<close>\<close>

fun split_plus :: "string \<Rightarrow> string list" where
  "split_plus [] = [[]]"
| "split_plus (c # cs) =
     (if c = CHR ''+'' then [] # split_plus cs
      else case split_plus cs of [] \<Rightarrow> [[c]] | w # ws \<Rightarrow> (c # w) # ws)"

definition undecided_hit :: "Count \<Rightarrow> bool" where
  "undecided_hit c \<longleftrightarrow> c_forced c \<or> UNDECIDED_REASONS \<inter> set (split_plus (c_outcome c)) \<noteq> {}"

definition undecided_alert ::
    "(string \<Rightarrow> string) \<Rightarrow> string \<Rightarrow> string \<Rightarrow> DriftRule \<Rightarrow> days \<Rightarrow> date \<times> int \<times> int \<Rightarrow> Alert list result" where
  "undecided_alert H side source drift by_day dut =
     (let (day, undecided, total) = dut;
          (ref_undecided, ref_total) = obs_reference by_day day (reference_days drift) in
      if total < min_decisions drift \<or> ref_total < min_decisions drift then Inr []
      else
        bindE (wilson undecided total (dr_z drift)) (\<lambda>(lower, _).
        bindE (wilson ref_undecided ref_total (dr_z drift)) (\<lambda>(_, reference_upper).
        if dec_less (dec_add reference_upper (dr_margin drift)) lower
        then bindE (bound lower) (\<lambda>b. bindE (bound reference_upper) (\<lambda>b'.
          Inr [\<lparr>a_kind = UNDECIDED_JUMP, a_side = side, a_source = source, a_day = day,
                a_detail = str_int undecided @ ''/'' @ str_int total @ '' undecided, lower bound '' @ b
                  @ '' > reference upper '' @ b' @ '' + margin '' @ str_dec (dr_margin drift),
                a_rule_id = drift_rule_id H drift\<rparr>]))
        else Inr [])))"

definition undecided_alerts :: "(string \<Rightarrow> string) \<Rightarrow> Count list \<Rightarrow> DriftRule \<Rightarrow> Alert list result" where
  "undecided_alerts H counts drift =
     collectE (\<lambda>side.
       let d = daily counts side undecided_hit in
       collectE (\<lambda>source. bindE (dict_getE d source) (\<lambda>by_day.
         collectE (undecided_alert H side source drift by_day) by_day)) (sort (map fst d))) SIDES"

section \<open>All together\<close>

definition drop_alert :: "(string \<Rightarrow> string) \<Rightarrow> DriftRule \<Rightarrow> DayVerdict \<Rightarrow> Alert list result" where
  "drop_alert H drift v =
     (if v_verdict v \<noteq> DROP then Inr []
      else case (v_upper v, v_reference_lower v) of
        (Some u, Some l) \<Rightarrow>
          bindE (bound u) (\<lambda>b. bindE (bound l) (\<lambda>b'.
          Inr [\<lparr>a_kind = MATCH_RATE_DROP, a_side = v_side v, a_source = v_source v, a_day = v_day v,
                a_detail = v_rule v @ '' '' @ str_int (v_matched v) @ ''/'' @ str_int (v_decided v) @ '', upper bound '' @ b
                  @ '' < reference lower '' @ b' @ '' - margin '' @ str_dec (dr_margin drift),
                a_rule_id = drift_rule_id H drift\<rparr>]))
      | _ \<Rightarrow> Inl TypeError)"

definition observe ::
    "(string \<Rightarrow> string) \<Rightarrow> Entry list \<Rightarrow> StreamResult \<Rightarrow> CaptureFailure list \<Rightarrow> DriftRule \<Rightarrow> EvidenceRule
      \<Rightarrow> string list \<Rightarrow> Observed result" where
  "observe H journal res failures drift evidence rules =
     bindE (check_drift drift) (\<lambda>_.
     bindE (check_evidence evidence) (\<lambda>_.
     bindE (origins_of journal) (\<lambda>origins.
     bindE (series journal res) (\<lambda>counts.
     bindE (collectE (\<lambda>side. collectE (\<lambda>rl. match_rate counts side rl drift) rules) SIDES) (\<lambda>verdicts.
     bindE (collectE (drop_alert H drift) verdicts) (\<lambda>drops.
     bindE (capture_failures H origins failures drift evidence) (\<lambda>captures.
     bindE (undecided_alerts H counts drift) (\<lambda>jumps.
     Inr \<lparr>ob_counts = counts, ob_verdicts = verdicts,
          ob_alerts = sort_key (\<lambda>a. (a_day a, kind_value (a_kind a), a_side a, a_source a, a_detail a))
            (drops @ silent H origins evidence @ captures @ jumps)\<rparr>))))))))"

end
