(* ===== verification/Observe_Props.thy ===== *)
theory Observe_Props
  imports Observe Stability_Props
begin

text \<open>
  What the verdicts mean: every source and day with decisions gets one, its counts are the
  sums of the series' cells, its reference is the sum over the days before, and the rule
  decides among the four verdicts.
\<close>

declare split_paired_All [simp del] split_paired_Ex [simp del]

section \<open>The Wilson interval\<close>

lemma dec_div_val_nonneg:
  assumes "0 \<le> dec_val a" "0 < dec_val b" "dec_div a b = Inr q"
  shows "0 \<le> dec_val q"
proof (cases "coeff a = 0")
  case True
  then have "coeff q = 0" using assms(2,3) by (auto simp: dec_div_def dec_val_pos_iff Let_def)
  then show ?thesis by simp
next
  case False
  then have "0 < dec_mag a" by simp
  then have "\<not> neg a" using assms(1) by (auto simp: dec_val_mag simp del: dec_mag_pos_iff)
  moreover have "\<not> neg b" using assms(2) by (simp add: dec_val_pos_iff)
  ultimately have "\<not> neg q" using dec_div_nonneg [OF assms(3)] by simp
  then show ?thesis by simp
qed

lemma dec_mul_ge_one:
  assumes "1 \<le> dec_val a" "1 \<le> dec_val b"
  shows "1 \<le> dec_val (dec_mul a b)"
proof -
  have "1 * 1 \<le> dec_val a * dec_val b" using assms by (intro mult_mono) simp_all
  moreover have "dec_val (Dec (neg a \<noteq> neg b) (coeff a * coeff b) (expo a + expo b)) = dec_val a * dec_val b"
    by (simp add: dec_val_def power_int_add)
  ultimately show ?thesis unfolding dec_mul_def using dec_fix_ge [of dec_one] by simp
qed

lemma dec_mul_nonneg: "0 \<le> dec_val a * dec_val b \<Longrightarrow> 0 \<le> dec_val (dec_mul a b)"
proof -
  assume "0 \<le> dec_val a * dec_val b"
  moreover have "dec_val (Dec (neg a \<noteq> neg b) (coeff a * coeff b) (expo a + expo b)) = dec_val a * dec_val b"
    by (simp add: dec_val_def power_int_add)
  ultimately show ?thesis unfolding dec_mul_def using dec_fix_ge [of dec_zero] by simp
qed

lemma dec_add_ge:
  assumes "dec_val y \<le> dec_val a + dec_val b" "representable y"
  shows "dec_val y \<le> dec_val (dec_add a b)"
proof -
  let ?e = "min (expo a) (expo b)" and ?s = "signed_at a (min (expo a) (expo b)) + signed_at b (min (expo a) (expo b))"
  have v: "dec_val (Dec (?s < 0) (nat \<bar>?s\<bar>) ?e) = dec_val a + dec_val b"
    unfolding dec_val_signed of_int_add distrib_right by (simp add: signed_at_val)
  show ?thesis
  proof (cases "coeff a = 0 \<and> coeff b = 0")
    case True
    then show ?thesis using assms(1) by (simp add: dec_add_def Let_def)
  next
    case False
    then have "dec_add a b = dec_fix (Dec (?s < 0) (nat \<bar>?s\<bar>) ?e)"
      unfolding dec_add_def Let_def by (rule if_not_P)
    then show ?thesis using dec_fix_ge [of y, OF _ assms(2)] assms(1) v by simp
  qed
qed

lemma dec_sqrt_val_ok: "0 \<le> dec_val d \<Longrightarrow> \<exists>r. dec_sqrt d = Inr r"
  by (cases "coeff d = 0") (auto simp: dec_sqrt_def Let_def dec_val_mag dest: leD)

lemma dec_div_pos_ok: "0 < dec_val b \<Longrightarrow> \<exists>q. dec_div a b = Inr q"
  by (intro dec_div_ok) (simp add: dec_val_pos_iff)

lemma wilson_ok:
  assumes "0 \<le> s" "s \<le> n" "1 \<le> n"
  shows "\<exists>low high. wilson s n z = Inr (low, high) \<and> 0 \<le> dec_val low \<and> dec_val high \<le> 1"
proof -
  let ?n = "dec_of_int n" and ?z2 = "dec_mul z z"
  have n1: "1 \<le> dec_val ?n" and n0: "0 < dec_val ?n" using assms(3) by simp_all
  have z2: "0 \<le> dec_val ?z2" by (rule dec_mul_nonneg) simp
  obtain p where p: "dec_div (dec_of_int s) ?n = Inr p" "0 \<le> dec_val p" "dec_val p \<le> 1"
    using dec_div_unit [of "dec_of_int s" ?n] assms n0 by (auto simp: between_def dec_val_Dec)
  have d2: "0 < dec_val (dec_mul (dec_of_int 2) ?n)" "0 < dec_val (dec_mul (dec_mul (dec_of_int 4) ?n) ?n)"
    using dec_mul_ge_one [of "dec_of_int 2" ?n] dec_mul_ge_one [OF dec_mul_ge_one [of "dec_of_int 4" ?n] n1] n1 by simp_all
  obtain half quarter var extra where q: "dec_div ?z2 (dec_mul (dec_of_int 2) ?n) = Inr half"
    "dec_div ?z2 (dec_mul (dec_mul (dec_of_int 4) ?n) ?n) = Inr quarter"
    "dec_div (dec_mul p (dec_sub dec_one p)) ?n = Inr var" "dec_div ?z2 ?n = Inr extra"
    using dec_div_pos_ok d2 n0 by meson
  have "0 \<le> dec_val (dec_mul p (dec_sub dec_one p))" using p one_minus_unit [of p] by (intro dec_mul_nonneg) simp
  then have "0 \<le> dec_val var" "0 \<le> dec_val quarter" "0 \<le> dec_val extra"
    using dec_div_val_nonneg q z2 d2 n0 by blast+
  then have "0 \<le> dec_val (dec_add var quarter)" "1 \<le> dec_val (dec_add dec_one extra)"
    using dec_add_ge [of dec_zero var quarter] dec_add_ge [of dec_one dec_one extra] by simp_all
  moreover from this(1) obtain root where "dec_sqrt (dec_add var quarter) = Inr root" using dec_sqrt_val_ok by blast
  moreover obtain lower where "dec_div (dec_sub (dec_add p half) (dec_mul z root)) (dec_add dec_one extra) = Inr lower"
    using dec_div_pos_ok calculation(2) by (meson less_le_trans zero_less_one)
  moreover obtain upper where "dec_div (dec_add (dec_add p half) (dec_mul z root)) (dec_add dec_one extra) = Inr upper"
    using dec_div_pos_ok calculation(2) by (meson less_le_trans zero_less_one)
  ultimately show ?thesis using assms p q by (simp add: wilson_def checkE_def Let_def dec_cmp)
qed

section \<open>Days\<close>

text \<open>The sum of the cells that satisfy a predicate.\<close>

definition cell_total :: "(Count \<Rightarrow> bool) \<Rightarrow> Count list \<Rightarrow> int" where
  "cell_total P cs = (\<Sum>c\<leftarrow>filter P cs. c_count c)"

lemma cell_total_Nil [simp]: "cell_total P [] = 0"
  by (simp add: cell_total_def)

lemma cell_total_snoc [simp]: "cell_total P (cs @ [c]) = cell_total P cs + (if P c then c_count c else 0)"
  by (simp add: cell_total_def)

lemma cell_total_none: "(\<And>c. c \<in> set cs \<Longrightarrow> \<not> P c) \<Longrightarrow> cell_total P cs = 0"
  by (simp add: cell_total_def)

lemma cell_total_nonneg: "(\<And>c. c \<in> set cs \<Longrightarrow> 0 \<le> c_count c) \<Longrightarrow> 0 \<le> cell_total P cs"
  unfolding cell_total_def by (rule sum_list_nonneg) auto

lemma cell_total_mono:
  "(\<And>c. c \<in> set cs \<Longrightarrow> 0 \<le> c_count c) \<Longrightarrow> (\<And>c. P c \<Longrightarrow> Q c) \<Longrightarrow> cell_total P cs \<le> cell_total Q cs"
proof (induction cs)
  case (Cons c cs)
  have "0 \<le> c_count c" using Cons.prems(1) by simp
  moreover have "cell_total P cs \<le> cell_total Q cs" using Cons by simp
  ultimately show ?case using Cons.prems(2) [of c] by (auto simp: cell_total_def)
qed simp

lemma cell_total_split:
  "(\<And>c. \<not> (P c \<and> Q c)) \<Longrightarrow> cell_total P cs + cell_total Q cs = cell_total (\<lambda>c. P c \<or> Q c) cs"
  by (induction cs) (auto simp: cell_total_def)

definition placed :: "string \<Rightarrow> string \<Rightarrow> date \<Rightarrow> Count \<Rightarrow> bool" where
  "placed side s d c \<longleftrightarrow> c_side c = side \<and> c_source c = s \<and> c_day c = d"

definition cell :: "(string \<times> days) list \<Rightarrow> string \<Rightarrow> date \<Rightarrow> (int \<times> int) option" where
  "cell D s d = (case map_of D s of None \<Rightarrow> None | Some bd \<Rightarrow> map_of bd d)"

definition tables :: "(Count \<Rightarrow> bool) \<Rightarrow> string \<Rightarrow> Count list \<Rightarrow> (string \<times> days) list \<Rightarrow> bool" where
  "tables hit side cs D \<longleftrightarrow> distinct (map fst D) \<and> (\<forall>bd \<in> snd ` set D. distinct (map fst bd))
     \<and> fst ` set D = {c_source c | c. c \<in> set cs \<and> c_side c = side}
     \<and> (\<forall>s d. cell D s d = (if \<exists>c \<in> set cs. placed side s d c
          then Some (cell_total (\<lambda>c. placed side s d c \<and> hit c) cs, cell_total (placed side s d) cs) else None))"

lemma set_dict_put: "snd ` set (dict_put k v d) \<subseteq> insert v (snd ` set d)"
proof (induction d)
  case (Cons kv d)
  then show ?case by (cases kv) auto
qed simp

lemma tables_step:
  assumes T: "tables hit side cs D" and side: "c_side c = side"
  shows "tables hit side (cs @ [c]) (add_cell hit c D)"
proof -
  define bd where "bd = (case map_of D (c_source c) of None \<Rightarrow> [] | Some d \<Rightarrow> d)"
  define ht where "ht = (case map_of bd (c_day c) of None \<Rightarrow> (0, 0) | Some x \<Rightarrow> x)"
  have D: "add_cell hit c D = dict_put (c_source c)
      (dict_put (c_day c) (fst ht + (if hit c then c_count c else 0), snd ht + c_count c) bd) D"
    unfolding add_cell_def Let_def split_beta bd_def [symmetric] ht_def [symmetric] ..
  have dist: "distinct (map fst D)" "\<forall>bd \<in> snd ` set D. distinct (map fst bd)" using T by (simp_all add: tables_def)
  have bdd: "distinct (map fst bd)"
    using dist(2) by (auto simp: bd_def split: option.splits dest!: map_of_SomeD)
  have old: "map_of bd d = cell D (c_source c) d" for d by (simp add: bd_def cell_def split: option.splits)
  have ht: "ht = (cell_total (\<lambda>x. placed side (c_source c) (c_day c) x \<and> hit x) cs, cell_total (placed side (c_source c) (c_day c)) cs)"
  proof (cases "\<exists>x \<in> set cs. placed side (c_source c) (c_day c) x")
    case True
    then show ?thesis using T by (simp add: ht_def old tables_def)
  next
    case False
    then have "cell D (c_source c) (c_day c) = None" using T by (simp add: tables_def)
    then show ?thesis using False by (simp add: ht_def old cell_total_none)
  qed
  have "cell (add_cell hit c D) s d = (if \<exists>x \<in> set (cs @ [c]). placed side s d x
      then Some (cell_total (\<lambda>x. placed side s d x \<and> hit x) (cs @ [c]), cell_total (placed side s d) (cs @ [c])) else None)" for s d
  proof (cases "placed side s d c")
    case True
    then have "s = c_source c" "d = c_day c" by (simp_all add: placed_def)
    then show ?thesis using True ht by (auto simp: D cell_def)
  next
    case False
    then have "cell (add_cell hit c D) s d = cell D s d"
      using side old by (auto simp: D cell_def placed_def)
    then show ?thesis using T False by (simp add: tables_def)
  qed
  moreover have "snd ` set (add_cell hit c D) \<subseteq> insert (dict_put (c_day c)
      (fst ht + (if hit c then c_count c else 0), snd ht + c_count c) bd) (snd ` set D)"
    unfolding D by (rule set_dict_put)
  then have "\<forall>x \<in> snd ` set (add_cell hit c D). distinct (map fst x)"
    using dist(2) distinct_dict_put [OF bdd] by (metis (no_types, lifting) insertE subsetD)
  moreover have "fst ` set (add_cell hit c D) = {c_source x | x. x \<in> set (cs @ [c]) \<and> c_side x = side}"
    using T side by (auto simp: D tables_def)
  moreover have "distinct (map fst (add_cell hit c D))" unfolding D using dist(1) by simp
  ultimately show ?thesis by (simp only: tables_def simp_thms)
qed

lemma tables_fold:
  "tables hit side cs (fold (\<lambda>c d. if c_side c = side then add_cell hit c d else d) cs [])"
proof (induction cs rule: rev_induct)
  case Nil
  then show ?case by (auto simp: tables_def cell_def)
next
  case (snoc c cs)
  show ?case
  proof (cases "c_side c = side")
    case True
    then show ?thesis using tables_step [OF snoc True] by simp
  next
    case False
    have "placed side s d c \<longleftrightarrow> False" for s d using False by (simp add: placed_def)
    then show ?thesis using snoc False by (auto simp: tables_def)
  qed
qed

lemma map_of_sorted: "distinct (map fst bd) \<Longrightarrow> map_of (sort_key fst bd) = map_of bd"
proof -
  assume d: "distinct (map fst bd)"
  then have "distinct (map fst (sort_key fst bd))" by (simp add: distinct_map inj_on_def)
  then show ?thesis using d by (simp add: map_of_inject_set)
qed

text \<open>The daily table: one entry for each source of the side, one for each of its days.\<close>

lemma daily_spec:
  fixes cs side hit
  defines "D \<equiv> daily cs side hit"
  shows "distinct (map fst D)" and "fst ` set D = {c_source c | c. c \<in> set cs \<and> c_side c = side}"
    and "map_of D s = Some bd \<Longrightarrow> sorted (map fst bd) \<and> distinct (map fst bd)"
    and "map_of D s = Some bd \<Longrightarrow> map_of bd d = (if \<exists>c \<in> set cs. placed side s d c
      then Some (cell_total (\<lambda>c. placed side s d c \<and> hit c) cs, cell_total (placed side s d) cs) else None)"
proof -
  define E where "E = fold (\<lambda>c d. if c_side c = side then add_cell hit c d else d) cs []"
  have T: "tables hit side cs E" unfolding E_def by (rule tables_fold)
  have D: "D = map (\<lambda>(s, bd). (s, sort_key fst bd)) E" by (simp add: D_def daily_def E_def)
  have keys: "map fst D = map fst E" by (simp add: D split_beta comp_def)
  then show "distinct (map fst D)" using T by (simp add: tables_def)
  show "fst ` set D = {c_source c | c. c \<in> set cs \<and> c_side c = side}"
    using T keys by (metis (no_types, lifting) list.set_map tables_def)
  assume "map_of D s = Some bd"
  then obtain b where b: "map_of E s = Some b" "bd = sort_key fst b" by (auto simp: D map_of_map)
  then have dist: "distinct (map fst b)" using T map_of_SomeD [OF b(1)] by (force simp: tables_def)
  then show "sorted (map fst bd) \<and> distinct (map fst bd)" using b(2) by (simp add: distinct_map inj_on_def)
  have "map_of bd d = cell E s d" using b map_of_sorted [OF dist] by (simp add: cell_def)
  then show "map_of bd d = (if \<exists>c \<in> set cs. placed side s d c
      then Some (cell_total (\<lambda>c. placed side s d c \<and> hit c) cs, cell_total (placed side s d) cs) else None)"
    using T by (simp only: tables_def)
qed

definition before :: "string \<Rightarrow> string \<Rightarrow> date \<Rightarrow> int \<Rightarrow> Count \<Rightarrow> bool" where
  "before side s d w c \<longleftrightarrow> c_side c = side \<and> c_source c = s \<and> d - w \<le> c_day c \<and> c_day c < d"

lemma reference_spec:
  assumes "\<And>d. map_of bd d = (if \<exists>c \<in> set cs. placed side s d c
      then Some (cell_total (\<lambda>c. placed side s d c \<and> hit c) cs, cell_total (placed side s d) cs) else None)"
  shows "fold (\<lambda>off (hits, total).
       let (h, t) = (case map_of bd (day - int off) of None \<Rightarrow> (0, 0) | Some x \<Rightarrow> x) in (hits + h, total + t))
       [1..<Suc w] (0, 0)
    = (cell_total (\<lambda>c. before side s day (int w) c \<and> hit c) cs, cell_total (before side s day (int w)) cs)"
proof (induction w)
  case 0
  have "\<not> before side s day (int 0) c" for c by (simp add: before_def)
  then show ?case by (simp add: cell_total_none)
next
  case (Suc w)
  have day: "(case map_of bd d of None \<Rightarrow> (0, 0) | Some x \<Rightarrow> x)
      = (cell_total (\<lambda>c. placed side s d c \<and> hit c) cs, cell_total (placed side s d) cs)" for d
    using assms [of d] by (auto simp: cell_total_none)
  have more: "before side s day (int (Suc w)) c \<longleftrightarrow> before side s day (int w) c \<or> placed side s (day - int (Suc w)) c" for c
    by (auto simp: before_def placed_def)
  have disj: "\<not> (before side s day (int w) c \<and> placed side s (day - int (Suc w)) c)" for c
    by (auto simp: before_def placed_def)
  have "cell_total (before side s day (int (Suc w))) cs
      = cell_total (before side s day (int w)) cs + cell_total (placed side s (day - int (Suc w))) cs"
    using cell_total_split [of "before side s day (int w)" "placed side s (day - int (Suc w))" cs] disj more by presburger
  moreover have "cell_total (\<lambda>c. before side s day (int (Suc w)) c \<and> hit c) cs
      = cell_total (\<lambda>c. before side s day (int w) c \<and> hit c) cs + cell_total (\<lambda>c. placed side s (day - int (Suc w)) c \<and> hit c) cs"
    unfolding more conj_disj_distribR by (rule cell_total_split [symmetric]) (use disj in blast)
  ultimately show ?case using Suc by (simp add: day del: of_nat_Suc)
qed

section \<open>Verdicts\<close>

lemma cell_total_filter: "cell_total P (filter Q cs) = cell_total (\<lambda>c. Q c \<and> P c) cs"
  by (simp add: cell_total_def conj_commute)

definition verdict_ok :: "Count list \<Rightarrow> string \<Rightarrow> string \<Rightarrow> DriftRule \<Rightarrow> DayVerdict \<Rightarrow> bool" where
  "verdict_ok cs side rl drift v \<longleftrightarrow>
     (let day = placed side (v_source v) (v_day v); ref = before side (v_source v) (v_day v) (reference_days drift) in
      v_side v = side \<and> v_rule v = rl
      \<and> v_decided v = cell_total (\<lambda>c. \<not> c_forced c \<and> day c) cs
      \<and> v_matched v = cell_total (\<lambda>c. \<not> c_forced c \<and> day c \<and> c_outcome c = rl) cs
      \<and> v_reference_decided v = cell_total (\<lambda>c. \<not> c_forced c \<and> ref c) cs
      \<and> v_reference_matched v = cell_total (\<lambda>c. \<not> c_forced c \<and> ref c \<and> c_outcome c = rl) cs
      \<and> (v_verdict v = INSUFFICIENT \<longleftrightarrow> v_decided v < min_decisions drift)
      \<and> (v_verdict v = NO_REFERENCE \<longleftrightarrow> v_decided v \<ge> min_decisions drift \<and> v_reference_decided v < min_decisions drift)
      \<and> (v_verdict v = DROP \<or> v_verdict v = NORMAL \<longrightarrow> (\<exists>low high low' high'.
          wilson (v_matched v) (v_decided v) (dr_z drift) = Inr (low, high) \<and> v_upper v = Some high \<and> dec_val high \<le> 1
          \<and> wilson (v_reference_matched v) (v_reference_decided v) (dr_z drift) = Inr (low', high')
          \<and> v_reference_lower v = Some low' \<and> 0 \<le> dec_val low'
          \<and> (v_verdict v = DROP \<longleftrightarrow> dec_val high < dec_val (dec_sub low' (dr_margin drift))))))"

lemma day_verdict_ok:
  assumes drift: "check_drift drift = Inr ()" and pos: "\<And>c. c \<in> set cs \<Longrightarrow> 0 \<le> c_count c"
    and bd: "map_of (daily (filter (\<lambda>c. \<not> c_forced c) cs) side (\<lambda>c. c_outcome c = rl)) s = Some bd"
    and x: "x \<in> set bd"
  shows "\<exists>v. day_verdict side s rl drift bd x = Inr v \<and> v_source v = s \<and> v_day v = fst x \<and> verdict_ok cs side rl drift v"
proof -
  obtain day m d where dmt: "x = (day, m, d)" by (cases x) auto
  let ?cs = "filter (\<lambda>c. \<not> c_forced c) cs" and ?w = "reference_days drift"
  have look: "map_of bd d' = (if \<exists>c \<in> set ?cs. placed side s d' c
      then Some (cell_total (\<lambda>c. placed side s d' c \<and> c_outcome c = rl) ?cs, cell_total (placed side s d') ?cs) else None)" for d'
    using daily_spec(4) [OF bd] .
  have "map_of bd day = Some (m, d)" using x dmt daily_spec(3) [OF bd] by (simp add: map_of_is_SomeI)
  then have md: "m = cell_total (\<lambda>c. placed side s day c \<and> c_outcome c = rl) ?cs" "d = cell_total (placed side s day) ?cs"
    using look [of day] by (auto split: if_splits)
  define rm where "rm = cell_total (\<lambda>c. before side s day ?w c \<and> c_outcome c = rl) ?cs"
  define rd where "rd = cell_total (before side s day ?w) ?cs"
  have w: "1 \<le> ?w" "1 \<le> min_decisions drift" using drift by (simp_all add: check_drift_def)
  have ref: "obs_reference bd day ?w = (rm, rd)"
    using reference_spec [of bd ?cs side s "\<lambda>c. c_outcome c = rl" day "nat ?w"] look w
    by (simp add: obs_reference_def rm_def rd_def)
  have le: "0 \<le> m" "m \<le> d" "0 \<le> rm" "rm \<le> rd"
    using pos by (auto simp: md rm_def rd_def intro!: cell_total_nonneg cell_total_mono)
  have dv: "v_decided v = d \<Longrightarrow> v_matched v = m \<Longrightarrow> v_reference_decided v = rd \<Longrightarrow> v_reference_matched v = rm
      \<Longrightarrow> v_source v = s \<Longrightarrow> v_day v = day \<Longrightarrow> v_side v = side \<Longrightarrow> v_rule v = rl \<Longrightarrow>
      verdict_ok cs side rl drift v \<longleftrightarrow> (v_verdict v = INSUFFICIENT \<longleftrightarrow> d < min_decisions drift)
      \<and> (v_verdict v = NO_REFERENCE \<longleftrightarrow> d \<ge> min_decisions drift \<and> rd < min_decisions drift)
      \<and> (v_verdict v = DROP \<or> v_verdict v = NORMAL \<longrightarrow> (\<exists>low high low' high'.
          wilson m d (dr_z drift) = Inr (low, high) \<and> v_upper v = Some high \<and> dec_val high \<le> 1
          \<and> wilson rm rd (dr_z drift) = Inr (low', high') \<and> v_reference_lower v = Some low' \<and> 0 \<le> dec_val low'
          \<and> (v_verdict v = DROP \<longleftrightarrow> dec_val high < dec_val (dec_sub low' (dr_margin drift)))))" for v
    by (simp add: verdict_ok_def Let_def md rm_def rd_def cell_total_filter conj_ac)
  consider "d < min_decisions drift" | "\<not> d < min_decisions drift" "rd < min_decisions drift"
    | "\<not> d < min_decisions drift" "\<not> rd < min_decisions drift" by blast
  then show ?thesis
  proof cases
    case 3
    obtain low high where w1: "wilson m d (dr_z drift) = Inr (low, high)" "dec_val high \<le> 1"
      using wilson_ok [of m d "dr_z drift"] le 3 w by auto
    obtain low' high' where w2: "wilson rm rd (dr_z drift) = Inr (low', high')" "0 \<le> dec_val low'"
      using wilson_ok [of rm rd "dr_z drift"] le 3 w by auto
    show ?thesis unfolding dmt day_verdict_def using 3 w1 w2 by (simp add: ref dv dec_cmp)
  qed (unfold dmt day_verdict_def, simp_all add: ref dv)
qed

lemma distinct_concat_map:
  "distinct ss \<Longrightarrow> (\<And>s. s \<in> set ss \<Longrightarrow> distinct (f s) \<and> (\<forall>y \<in> set (f s). fst y = s)) \<Longrightarrow> distinct (concat (map f ss))"
proof (induction ss)
  case (Cons s ss)
  have "set (f s) \<inter> set (concat (map f ss)) = {}"
  proof (rule ccontr)
    assume "set (f s) \<inter> set (concat (map f ss)) \<noteq> {}"
    then obtain y t where y: "y \<in> set (f s)" "t \<in> set ss" "y \<in> set (f t)" by auto
    have "fst y = s" "fst y = t" using Cons.prems(2) [of s] Cons.prems(2) [of t] y by (auto simp del: split_paired_All)
    then have "s = t" by simp
    then show False using Cons.prems(1) y(2) by simp
  qed
  moreover have "distinct (concat (map f ss))" using Cons by simp
  ultimately show ?case using Cons.prems(2) [of s] by simp
qed simp

lemma mapE_pointwise:
  assumes "\<And>x. x \<in> set xs \<Longrightarrow> \<exists>y. f x = Inr y \<and> P x y"
  shows "\<exists>ys. mapE f xs = Inr ys \<and> list_all2 P xs ys"
  using assms
proof (induction xs)
  case (Cons x xs)
  have "\<exists>ys. mapE f xs = Inr ys \<and> list_all2 P xs ys" using Cons by simp
  moreover have "\<exists>y. f x = Inr y \<and> P x y" using Cons.prems [of x] by simp
  ultimately show ?case by auto
qed simp

lemma source_verdicts:
  assumes drift: "check_drift drift = Inr ()" and pos: "\<And>c. c \<in> set cs \<Longrightarrow> 0 \<le> c_count c"
    and d: "d = daily (filter (\<lambda>c. \<not> c_forced c) cs) side (\<lambda>c. c_outcome c = rl)" and ss: "set ss \<subseteq> fst ` set d"
  shows "\<exists>vs. collectE (\<lambda>source. bindE (dict_getE d source) (\<lambda>by_day.
       mapE (day_verdict side source rl drift by_day) by_day)) ss = Inr vs
    \<and> (\<forall>v \<in> set vs. verdict_ok cs side rl drift v)
    \<and> map (\<lambda>v. (v_source v, v_day v)) vs = concat (map (\<lambda>s. map (\<lambda>x. (s, fst x)) (the (map_of d s))) ss)"
  using ss
proof (induction ss)
  case (Cons s ss)
  then obtain bd where bd: "map_of d s = Some bd" by (metis map_of_eq_None_iff not_None_eq list.set_intros(1) subsetD)
  have "\<exists>us. mapE (day_verdict side s rl drift bd) bd = Inr us
      \<and> list_all2 (\<lambda>x v. v_source v = s \<and> v_day v = fst x \<and> verdict_ok cs side rl drift v) bd us"
    by (rule mapE_pointwise) (rule day_verdict_ok [OF drift pos bd [unfolded d]])
  then obtain us where us: "mapE (day_verdict side s rl drift bd) bd = Inr us"
    "list_all2 (\<lambda>x v. v_source v = s \<and> v_day v = fst x \<and> verdict_ok cs side rl drift v) bd us" by blast
  obtain vs where vs: "collectE (\<lambda>source. bindE (dict_getE d source) (\<lambda>by_day.
       mapE (day_verdict side source rl drift by_day) by_day)) ss = Inr vs"
    "\<forall>v \<in> set vs. verdict_ok cs side rl drift v"
    "map (\<lambda>v. (v_source v, v_day v)) vs = concat (map (\<lambda>s. map (\<lambda>x. (s, fst x)) (the (map_of d s))) ss)"
    using Cons by auto
  have "map (\<lambda>v. (v_source v, v_day v)) us = map (\<lambda>x. (s, fst x)) bd"
    using us(2) by (simp add: list_all2_conv_all_nth list_eq_iff_nth_eq)
  moreover have "\<forall>v \<in> set us. verdict_ok cs side rl drift v"
    using us(2) by (auto simp: list_all2_conv_all_nth in_set_conv_nth)
  ultimately show ?case using us(1) vs bd by (simp add: dict_getE_def ball_Un)
qed simp


section \<open>Series\<close>

lemma tally_spec:
  "distinct (map fst (fold tally xs [])) \<and> (\<forall>k. map_of (fold tally xs []) k =
     (if k \<in> set xs then Some (int (count_list xs k)) else None))"
proof (induction xs rule: rev_induct)
  case (snoc x xs)
  then have "map_of (fold tally xs []) x = (if x \<in> set xs then Some (int (count_list xs x)) else None)" by blast
  moreover have "count_list xs x = 0" if "x \<notin> set xs" using that by simp
  ultimately show ?case using snoc by (simp add: tally_def)
qed simp

definition cell_of :: "origins \<Rightarrow> (BusinessKey \<times> Decision) list \<Rightarrow> BusinessKey \<times> Decision \<Rightarrow> cell_key result" where
  "cell_of origins eff kd =
     bindE (outcome_of eff (snd kd)) (\<lambda>outcome.
     bindE (dict_getE origins (fst kd)) (\<lambda>sd.
     Inr (fst (fst kd), fst sd, snd sd, outcome, forced (snd kd))))"

lemma count_decisions:
  "foldE (count_decision origins eff) c kds =
     bindE (mapE (cell_of origins eff) (filter (\<lambda>kd. dstatus (snd kd) = FINAL) kds)) (\<lambda>cells. Inr (fold tally cells c))"
proof (induction kds arbitrary: c)
  case (Cons kd kds)
  show ?case
  proof (cases "dstatus (snd kd) = FINAL")
    case True
    then have "count_decision origins eff c kd = bindE (cell_of origins eff kd) (\<lambda>cell. Inr (tally cell c))"
      by (cases "outcome_of eff (snd kd)"; cases "map_of origins (fst kd)")
        (simp_all add: count_decision_def cell_of_def dict_getE_def split_beta)
    then show ?thesis using True Cons by (cases "cell_of origins eff kd"; cases "mapE (cell_of origins eff) (filter (\<lambda>kd. dstatus (snd kd) = FINAL) kds)") simp_all
  next
    case False
    then show ?thesis using Cons by (simp add: count_decision_def split_beta)
  qed
qed simp

definition key_of :: "Count \<Rightarrow> cell_key" where
  "key_of c = (c_side c, c_source c, c_day c, c_outcome c, c_forced c)"


section \<open>Silent sources\<close>

definition captures :: "origins \<Rightarrow> string \<times> string \<Rightarrow> date set" where
  "captures os ss = {day. \<exists>i. ((fst ss, i), snd ss, day) \<in> set os}"

lemma captures_snoc:
  "captures (os @ [((side, i), source, day)]) ss = (if ss = (side, source) then insert day (captures os ss) else captures os ss)"
  by (auto simp: captures_def)

lemma finite_captures [simp]: "finite (captures os ss)"
proof -
  have "captures os ss \<subseteq> (\<lambda>x. snd (snd x)) ` set os" by (force simp: captures_def)
  then show ?thesis by (rule finite_subset) simp
qed

lemma last_seen_spec:
  "distinct (map fst (last_seen os)) \<and>
   (\<forall>ss. map_of (last_seen os) ss = (if captures os ss = {} then None else Some (Max (captures os ss))))"
proof (induction os rule: rev_induct)
  case Nil
  then show ?case by (simp add: last_seen_def captures_def)
next
  case (snoc x os)
  obtain side i source day where x: "x = ((side, i), source, day)" by (metis surj_pair)
  have step: "last_seen (os @ [x]) = dict_put (side, source)
      (max day (case map_of (last_seen os) (side, source) of None \<Rightarrow> day | Some d \<Rightarrow> d)) (last_seen os)"
    by (simp add: last_seen_def x)
  show ?case using snoc unfolding step by (simp add: x captures_snoc)
qed

lemma last_seen_mem:
  "(ss, d) \<in> set (last_seen os) \<longleftrightarrow> captures os ss \<noteq> {} \<and> d = Max (captures os ss)"
  using map_of_eq_Some_iff [of "last_seen os" ss d] last_seen_spec [of os]
  by (cases "captures os ss = {}") auto

lemma last_day:
  assumes "os \<noteq> []"
  defines "E \<equiv> max_of (map snd (last_seen os))"
  shows "E \<in> (\<Union>t. captures os t)" "\<And>day. day \<in> (\<Union>t. captures os t) \<Longrightarrow> day \<le> E"
proof -
  obtain side i source day where "((side, i), source, day) \<in> set os" using assms(1) by (metis surj_pair list.set_sel(1))
  then have "captures os (side, source) \<noteq> {}" by (auto simp: captures_def)
  then have "((side, source), Max (captures os (side, source))) \<in> set (last_seen os)" by (simp add: last_seen_mem)
  then have ne: "map snd (last_seen os) \<noteq> []" by auto
  from max_of_in [OF this] obtain ss where "(ss, E) \<in> set (last_seen os)" by (auto simp: E_def)
  then have "captures os ss \<noteq> {}" "E = Max (captures os ss)" by (simp_all add: last_seen_mem)
  then have "E \<in> captures os ss" by simp
  then show "E \<in> (\<Union>t. captures os t)" by blast
  fix day assume "day \<in> (\<Union>t. captures os t)"
  then obtain t where t: "day \<in> captures os t" by blast
  then have "(t, Max (captures os t)) \<in> set (last_seen os)" using last_seen_mem by blast
  then have "Max (captures os t) \<le> E" unfolding E_def by (intro max_of_ge) force
  then show "day \<le> E" using t by (meson Max_ge finite_captures order_trans)
qed

text \<open>
  C34 The alerts on silent sources name, once each, exactly the sources of a side whose captures
  all lie more than the rule's number of days before some capture of the journal, and they
  carry the day of the last capture of all.
\<close>

theorem silent_sources:
  "distinct (map (\<lambda>a. (a_side a, a_source a)) (silent H os ev))
    \<and> (\<lambda>a. (a_side a, a_source a)) ` set (silent H os ev) = {ss. captures os ss \<noteq> {}
        \<and> (\<exists>end_day \<in> (\<Union>t. captures os t). \<forall>day \<in> captures os ss. end_day - day > silent_days ev)}
    \<and> (\<forall>a \<in> set (silent H os ev). a_kind a = SOURCE_SILENT \<and> a_day a \<in> (\<Union>t. captures os t)
        \<and> (\<forall>day \<in> (\<Union>t. captures os t). day \<le> a_day a))"
proof (cases "os = []")
  case True
  then show ?thesis by (simp add: silent_def captures_def)
next
  case False
  define E where "E = max_of (map snd (last_seen os))"
  let ?all = "\<Union>t. captures os t"
  note E = last_day [OF False, folded E_def]
  define F where "F = filter (\<lambda>x. E - snd x > silent_days ev) (sort_key fst (last_seen os))"
  have silent: "silent H os ev = map (\<lambda>x. \<lparr>a_kind = SOURCE_SILENT, a_side = fst (fst x), a_source = snd (fst x), a_day = E,
      a_detail = ''last capture '' @ isoformat (snd x) @ '', '' @ str_int (E - snd x) @ '' days before '' @ isoformat E,
      a_rule_id = evidence_rule_id H ev\<rparr>) F"
    using False by (simp add: silent_def Let_def F_def E_def case_prod_unfold)
  have keys: "map (\<lambda>a. (a_side a, a_source a)) (silent H os ev) = map fst F" by (simp add: silent)
  have "distinct (map fst (sort_key fst (last_seen os)))" using last_seen_spec [of os] by (simp add: distinct_map)
  then have "distinct (map fst F)" unfolding F_def by (rule distinct_map_filter)
  moreover have "fst ` set F = {ss. captures os ss \<noteq> {}
        \<and> (\<exists>end_day \<in> ?all. \<forall>day \<in> captures os ss. end_day - day > silent_days ev)}" (is "_ = ?r")
  proof (intro set_eqI iffI)
    fix ss assume "ss \<in> fst ` set F"
    then have c: "captures os ss \<noteq> {}" "E - Max (captures os ss) > silent_days ev" by (auto simp: F_def last_seen_mem)
    have "E - day > silent_days ev" if "day \<in> captures os ss" for day
      using c(2) Max_ge [OF finite_captures that] by linarith
    then show "ss \<in> ?r" using c(1) E(1) by blast
  next
    fix ss assume "ss \<in> ?r"
    then obtain e where e: "captures os ss \<noteq> {}" "e \<in> ?all" "\<forall>day \<in> captures os ss. e - day > silent_days ev" by blast
    have "e - Max (captures os ss) > silent_days ev" using e(1,3) Max_in [OF finite_captures e(1)] by blast
    then have "(ss, Max (captures os ss)) \<in> set F" using e(1) E(2) [OF e(2)] by (simp add: F_def last_seen_mem)
    then show "ss \<in> fst ` set F" by force
  qed
  moreover have "(\<lambda>a. (a_side a, a_source a)) ` set (silent H os ev) = fst ` set F" using keys by (metis list.set_map)
  moreover have "\<forall>a \<in> set (silent H os ev). a_kind a = SOURCE_SILENT \<and> a_day a = E" by (simp add: silent)
  ultimately show ?thesis using E keys by simp
qed

end
