(* ===== verification/Observe_Examples.thy ===== *)
theory Observe_Examples
  imports Observe_Props Stream_Examples
begin

text \<open>The theorems on the observation at concrete journals and counts.\<close>

subsection \<open>Match rates\<close>

definition ex_cell :: "date \<Rightarrow> string \<Rightarrow> bool \<Rightarrow> int \<Rightarrow> Count" where
  "ex_cell day out frc n = \<lparr>c_side = LEFT, c_source = ''bank'', c_day = day, c_outcome = out, c_forced = frc, c_count = n\<rparr>"

definition ex_counts :: "Count list" where
  "ex_counts = [ex_cell 18 ''M0'' False 240, ex_cell 18 ''NO_CANDIDATE'' False 60, ex_cell 19 ''M0'' False 10,
     ex_cell 19 ''M0'' True 500]"

lemma ex_drift: "check_drift DEFAULT_DRIFT = Inr ()"
  by (simp add: check_drift_def checkE_def DEFAULT_DRIFT_def dec_zero_def dec_eval)


subsection \<open>Series\<close>

definition ex_stamped :: Entry where
  "ex_stamped = EArrival (ex_arrival\<lparr>arr_source := ''bank'', captured_at := Some \<lparr>local_us = 20 * US_PER_DAY, utcoffset_us = Some 0\<rparr>\<rparr>)"

definition ex_result :: StreamResult where
  "ex_result = \<lparr>decisions = [ex_d1, ex_d2], duplicates = 0\<rparr>"

lemma ex_effective: "effective ex_result None = [((LEFT, ''A2''), ex_d2)]"
  by (simp add: effective_def ex_result_def ex_d1_def ex_d2_def)

lemma ex_series: "series [ex_stamped] ex_result = Inr [ex_cell 20 ''NO_CANDIDATE'' False 1]"
  by (simp add: series_def ex_effective origins_of_def add_origin_def ex_stamped_def capture_day_def utc_day_def
      US_PER_DAY_def count_decision_def outcome_of_def ex_d2_def AS_COUNTERPART_def dict_getE_def tally_def ex_cell_def)


subsection \<open>Silent sources\<close>

definition ex_origins :: origins where
  "ex_origins = [((LEFT, ''a''), ''bank'', 10), ((RIGHT, ''x''), ''ledger'', 10), ((RIGHT, ''y''), ''ledger'', 13)]"

theorem silent_sources_witness:
  "(LEFT, ''bank'') \<in> (\<lambda>a. (a_side a, a_source a)) ` set (silent id ex_origins DEFAULT_EVIDENCE)
    \<and> (RIGHT, ''ledger'') \<notin> (\<lambda>a. (a_side a, a_source a)) ` set (silent id ex_origins DEFAULT_EVIDENCE)"
proof -
  have c: "captures ex_origins (LEFT, ''bank'') = {10}" "captures ex_origins (RIGHT, ''ledger'') = {10, 13}"
    by (auto simp: captures_def ex_origins_def LEFT_def RIGHT_def)
  have all: "(\<Union>t. captures ex_origins t) = {10, 13}"
  proof (intro equalityI subsetI)
    fix d :: date assume "d \<in> {10, 13}"
    then have "d \<in> captures ex_origins (RIGHT, ''ledger'')" using c(2) by simp
    then show "d \<in> (\<Union>t. captures ex_origins t)" by blast
  qed (auto simp: captures_def ex_origins_def)
  show ?thesis
    using silent_sources [of id ex_origins DEFAULT_EVIDENCE] unfolding all by (simp add: c DEFAULT_EVIDENCE_def)
qed

end
