(* ===== verification/Flow_Timed.thy ===== *)
theory Flow_Timed
  imports Timing_Candidates Assign_Props
begin

text \<open>
  One timing-derived hop in a flow (\<open>correlation/flow_timed.py\<close>): the open observations of the
  hop, the candidate graph among them, which components are too large, and what the watermark
  lets go.

  Sorted lists kept with \<open>bisect.insort\<close> are sorted lists, and a \<open>heapq\<close> heap is the sorted
  list of its items: only its smallest item is ever read.  Dictionaries are association lists.
  \<open>pr\<close> is Python's \<open>repr\<close> of the parameters of a join, which only enters a fingerprint.
\<close>

definition METHOD :: string where "METHOD = ''nested_timing''"

datatype TReason =
    R_AMBIGUOUS | R_UNMATCHED | R_OVERSIZED | R_NO_CANDIDATE | R_DENSE | R_TOO_LONG | R_TIME_ABSENT

text \<open>\<open>Reason[status.name]\<close>\<close>

fun reason_of_status :: "AStatus \<Rightarrow> TReason result" where
  "reason_of_status AMBIGUOUS = Inr R_AMBIGUOUS"
| "reason_of_status UNMATCHED = Inr R_UNMATCHED"
| "reason_of_status OVERSIZED = Inr R_OVERSIZED"
| "reason_of_status NO_CANDIDATE_EDGE = Inr R_NO_CANDIDATE"
| "reason_of_status DENSE = Inr R_DENSE"
| "reason_of_status MATCHED = Inl KeyError"

record TVerdict =
  tv_reason :: "TReason option"
  tv_partner :: "identity option"
  tv_weight :: "int option"

definition no_link :: "TReason \<Rightarrow> TVerdict" where
  "no_link r = \<lparr>tv_reason = Some r, tv_partner = None, tv_weight = None\<rparr>"

type_synonym verdicts = "(identity \<times> TVerdict) list"

record Closing =
  cl_members :: "identity list"
  cl_verdicts :: verdicts

section \<open>Parameters\<close>

definition end_signal :: "JoinParams \<Rightarrow> Signal option" where
  "end_signal p = find (\<lambda>s. s_name s = ''end'') (signals p)"

definition horizon_of :: "JoinParams \<Rightarrow> int option \<Rightarrow> int result" where
  "horizon_of p max_duration =
     (case end_signal p of None \<Rightarrow> Inl AttributeError
      | Some e \<Rightarrow>
          let h = \<bar>offset_us e\<bar> + window_us e in
          if local_span_us p = 0 then Inr h
          else case max_duration of None \<Rightarrow> Inl TypeError | Some d \<Rightarrow> Inr (max h (local_span_us p + d)))"

definition check_join :: "JoinParams \<Rightarrow> int option \<Rightarrow> unit result" where
  "check_join p max_duration =
     bindE (validate_params p) (\<lambda>_.
     bindE (assign [] [] [] (margin_us p) (j_max_component p)) (\<lambda>_.
     bindE (checkE (end_signal p \<noteq> None) (ValueError ''a join in a flow needs an end signal'')) (\<lambda>_.
     if local_span_us p \<noteq> 0 then
       bindE (checkE (max_duration \<noteq> None) (ValueError ''the density guard needs max_duration_us'')) (\<lambda>_.
       checkE (s_name (hd (signals p)) \<noteq> ''duration'') (ValueError ''the density guard needs a first signal in time''))
     else Inr ())))"

section \<open>State\<close>

record TimedJoin =
  tj_where :: string
  tj_places :: "((string \<times> string) \<times> string) list"
  tj_params :: JoinParams
  tj_max_duration :: "int option"
  tj_horizon :: int
  tj_params_id :: string
  tj_open :: "(identity \<times> Timed) list"
  tj_by_end :: "string \<Rightarrow> (int \<times> identity) list"
  tj_edges :: "(identity \<times> (identity \<times> int) list) list"
  tj_flagged :: "identity set"
  tj_past :: "identity set"
  tj_due :: "identity set"
  tj_heap :: "(int \<times> identity) list"
  tj_refs :: "string \<Rightarrow> int list"

definition init_join ::
    "(string \<Rightarrow> string) \<Rightarrow> (JoinParams \<Rightarrow> string) \<Rightarrow> string \<Rightarrow> string \<Rightarrow> string \<Rightarrow> JoinParams \<Rightarrow> int option \<Rightarrow> TimedJoin result" where
  "init_join H pr where src dst p max_duration =
     bindE (check_join p max_duration) (\<lambda>_.
     bindE (horizon_of p max_duration) (\<lambda>h.
     Inr \<lparr>tj_where = where,
          tj_places = dict_put (dst, ''inbound'') ''inbound'' [((src, ''outbound''), ''outbound'')],
          tj_params = p, tj_max_duration = max_duration, tj_horizon = h,
          tj_params_id = take 16 (H (pr p)), tj_open = [], tj_by_end = (\<lambda>_. []), tj_edges = [],
          tj_flagged = {}, tj_past = {}, tj_due = {}, tj_heap = [], tj_refs = (\<lambda>_. [])\<rparr>))"

definition side_of :: "TimedJoin \<Rightarrow> string \<Rightarrow> string \<Rightarrow> string option" where
  "side_of j point side = map_of (tj_places j) (point, side)"

definition too_long :: "TimedJoin \<Rightarrow> int \<Rightarrow> int \<Rightarrow> bool" where
  "too_long j start end = (case tj_max_duration j of None \<Rightarrow> False | Some d \<Rightarrow> end - start > d)"

section \<open>Candidates and components\<close>

text \<open>
  \<open>bisect.bisect_left(ordered, (x,))\<close> on pairs: a tuple of one is below every pair that starts
  with it, so only the first components count.
\<close>

definition tj_candidates :: "TimedJoin \<Rightarrow> Timed \<Rightarrow> Candidate list result" where
  "tj_candidates j obs =
     (case end_signal (tj_params j) of None \<Rightarrow> Inl AttributeError
      | Some e \<Rightarrow>
          let r = (if t_side obs = ''outbound'' then end_us obs - offset_us e else end_us obs + offset_us e);
              other = (if t_side obs = ''outbound'' then ''inbound'' else ''outbound'');
              ordered = tj_by_end j other;
              low = bisect_left (map fst ordered) (r - window_us e);
              high = bisect_left (map fst ordered) (r + window_us e + 1) in
          bindE (mapE (\<lambda>x. dict_getE (tj_open j) (snd x)) (slice low high ordered)) (\<lambda>near.
          if near = [] then Inr []
          else if t_side obs = ''outbound'' then candidates [obs] near (tj_params j)
          else candidates near [obs] (tj_params j)))"

text \<open>\<open>edges[a][b] = w\<close>\<close>

definition put_edge :: "identity \<Rightarrow> identity \<Rightarrow> int \<Rightarrow> (identity \<times> (identity \<times> int) list) list
    \<Rightarrow> (identity \<times> (identity \<times> int) list) list result" where
  "put_edge a b w edges = bindE (dict_getE edges a) (\<lambda>d. Inr (dict_put a (dict_put b w d) edges))"

definition add_edges :: "Candidate list \<Rightarrow> (identity \<times> (identity \<times> int) list) list
    \<Rightarrow> (identity \<times> (identity \<times> int) list) list result" where
  "add_edges cs edges =
     foldE (\<lambda>es c. bindE (put_edge (k_upstream c) (k_downstream c) (k_weight c) es)
       (put_edge (k_downstream c) (k_upstream c) (k_weight c))) edges cs"

text \<open>The walk, its queue read by index up to the number open.\<close>

definition tj_visit :: "identity set \<Rightarrow> identity \<Rightarrow> identity list \<times> bool \<Rightarrow> identity list \<times> bool" where
  "tj_visit flagged other st =
     (let (members, touched) = st in
      if other \<in> flagged then (members, True)
      else if other \<in> set members then st else (members @ [other], touched))"

fun tj_walk_from :: "(identity \<times> (identity \<times> int) list) list \<Rightarrow> identity set \<Rightarrow> nat list \<Rightarrow> identity list \<times> bool
    \<Rightarrow> (identity list \<times> bool) result" where
  "tj_walk_from edges flagged [] st = Inr st"
| "tj_walk_from edges flagged (k # ks) st =
     (if k = length (fst st) then Inr st
      else bindE (dict_getE edges (fst st ! k)) (\<lambda>d.
        tj_walk_from edges flagged ks (fold (tj_visit flagged) (sort (map fst d)) st)))"

definition tj_walk :: "TimedJoin \<Rightarrow> identity \<Rightarrow> (identity list \<times> bool) result" where
  "tj_walk j start = tj_walk_from (tj_edges j) (tj_flagged j) [0..<length (tj_open j)] ([start], False)"

section \<open>The density guard\<close>

definition tj_reference :: "TimedJoin \<Rightarrow> Timed \<Rightarrow> int" where
  "tj_reference j obs =
     (if t_side obs = ''outbound'' then start_us obs else reference_of (s_name (hd (signals (tj_params j)))) obs)"

definition tj_crowded :: "TimedJoin \<Rightarrow> identity \<Rightarrow> bool result" where
  "tj_crowded j i =
     (let half = local_span_us (tj_params j) in
      if half = 0 then Inr False
      else bindE (dict_getE (tj_open j) i) (\<lambda>obs.
        let x = tj_reference j obs; ordered = tj_refs j (t_side obs);
            others = int (bisect_right ordered (x + half)) - int (bisect_left ordered (x - half)) in
        Inr (is_crowded (others - 1) (tj_params j))))"

section \<open>Deciding a component\<close>

definition tj_side :: "TimedJoin \<Rightarrow> identity \<Rightarrow> string result" where
  "tj_side j i = bindE (dict_getE (tj_open j) i) (\<lambda>obs. Inr (t_side obs))"

text \<open>\<open>sorted(m for m in members if self.open[m].side == side)\<close>\<close>

definition members_on :: "TimedJoin \<Rightarrow> string \<Rightarrow> identity list \<Rightarrow> identity list result" where
  "members_on j side members =
     bindE (collectE (\<lambda>m. bindE (tj_side j m) (\<lambda>s. Inr (if s = side then [m] else []))) members) (\<lambda>ms. Inr (sort ms))"

definition number_ids :: "char \<Rightarrow> identity list \<Rightarrow> (identity \<times> string) list" where
  "number_ids c ids = dict_of (map (\<lambda>(n, i). (i, c # pad9 n)) (enumerate 0 ids))"

definition tj_edge_list ::
    "TimedJoin \<Rightarrow> (identity \<times> string) list \<Rightarrow> (identity \<times> string) list \<Rightarrow> identity list \<Rightarrow> Edge list result" where
  "tj_edge_list j up_ids down_ids ups =
     collectE (\<lambda>u. bindE (dict_getE (tj_edges j) u) (\<lambda>d.
       mapE (\<lambda>(v, w). bindE (dict_getE up_ids u) (\<lambda>l. bindE (dict_getE down_ids v) (\<lambda>r.
         Inr \<lparr>e_left = l, e_right = r, e_weight = w\<rparr>))) d)) ups"

definition tj_verdict :: "TimedJoin \<Rightarrow> (string \<times> identity) list \<Rightarrow> verdicts \<Rightarrow> ADecision \<Rightarrow> verdicts result" where
  "tj_verdict j back out d =
     bindE (dict_getE back (d_id d)) (\<lambda>i.
     if d_status d \<noteq> MATCHED
     then bindE (reason_of_status (d_status d)) (\<lambda>r. Inr (dict_put i (no_link r) out))
     else
       bindE (case d_partner d of None \<Rightarrow> Inl KeyError | Some y \<Rightarrow> dict_getE back y) (\<lambda>k.
       bindE (tj_crowded j i) (\<lambda>c1.
       bindE (if c1 then Inr True else tj_crowded j k) (\<lambda>c2.
       if c2 then Inr (dict_put i (no_link R_DENSE) out)
       else bindE (dict_getE (tj_edges j) i) (\<lambda>es. bindE (dict_getE es k) (\<lambda>w.
         Inr (dict_put i \<lparr>tv_reason = None, tv_partner = Some k, tv_weight = Some w\<rparr> out)))))))"

definition tj_decide :: "TimedJoin \<Rightarrow> identity list \<Rightarrow> verdicts result" where
  "tj_decide j members =
     bindE (members_on j ''outbound'' members) (\<lambda>ups.
     bindE (members_on j ''inbound'' members) (\<lambda>downs.
     let up_ids = number_ids CHR ''u'' ups; down_ids = number_ids CHR ''d'' downs;
         back = back_of (dict_union up_ids down_ids) in
     bindE (tj_edge_list j up_ids down_ids ups) (\<lambda>edges.
     bindE (assign (map snd up_ids) (map snd down_ids) edges (margin_us (tj_params j)) (j_max_component (tj_params j))) (\<lambda>decided.
     foldE (tj_verdict j back) [] (r_left decided @ r_right decided)))))"

section \<open>Entering\<close>

text \<open>\<open>max(Counter(...).values())\<close>\<close>

definition largest_side :: "string list \<Rightarrow> int" where
  "largest_side sides = max_of (map (\<lambda>s. int (length (filter ((=) s) sides))) sides)"

definition enter_open :: "TimedJoin \<Rightarrow> Timed \<Rightarrow> TimedJoin" where
  "enter_open j obs =
     (let i = t_identity obs; s = t_side obs in
      j\<lparr>tj_open := dict_put i obs (tj_open j),
        tj_by_end := (tj_by_end j)(s := insort (end_us obs, i) (tj_by_end j s)),
        tj_heap := insort (end_us obs, i) (tj_heap j),
        tj_refs := (if local_span_us (tj_params j) \<noteq> 0 then (tj_refs j)(s := insort (tj_reference j obs) (tj_refs j s))
                    else tj_refs j),
        tj_edges := dict_put i [] (tj_edges j)\<rparr>)"

definition tj_add :: "TimedJoin \<Rightarrow> Timed \<Rightarrow> (TimedJoin \<times> verdicts) result" where
  "tj_add j0 obs =
     (let i = t_identity obs; j1 = enter_open j0 obs in
      bindE (tj_candidates j1 obs) (\<lambda>cs.
      bindE (add_edges cs (tj_edges j1)) (\<lambda>es.
      let j = j1\<lparr>tj_edges := es\<rparr> in
      bindE (tj_walk j i) (\<lambda>(members, touched).
      bindE (mapE (tj_side j) members) (\<lambda>sides.
      if touched \<or> largest_side sides > j_max_component (tj_params j)
      then Inr (j\<lparr>tj_flagged := tj_flagged j \<union> set members, tj_due := tj_due j \<union> (tj_past j \<inter> set members)\<rparr>,
                map (\<lambda>m. (m, no_link R_OVERSIZED)) members)
      else bindE (tj_decide j members) (\<lambda>vs. Inr (j, vs)))))))"

section \<open>Leaving\<close>

text \<open>\<open>del ordered[bisect.bisect_left(ordered, x)]\<close> on a sorted list\<close>

definition del_sorted :: "'a :: linorder \<Rightarrow> 'a list \<Rightarrow> 'a list result" where
  "del_sorted x xs =
     (let k = length (takeWhile (\<lambda>y. y < x) xs) in
      if k < length xs then Inr (take k xs @ drop (Suc k) xs) else Inl IndexError)"

text \<open>\<open>del edges[other][identity]\<close>\<close>

definition del_edge :: "identity \<Rightarrow> (identity \<times> (identity \<times> int) list) list \<Rightarrow> identity
    \<Rightarrow> (identity \<times> (identity \<times> int) list) list result" where
  "del_edge i edges other =
     bindE (dict_getE edges other) (\<lambda>d. bindE (dict_getE d i) (\<lambda>_. Inr (dict_put other (dict_del i d) edges)))"

definition tj_remove :: "TimedJoin \<Rightarrow> identity \<Rightarrow> TimedJoin result" where
  "tj_remove j i =
     bindE (dict_getE (tj_open j) i) (\<lambda>obs.
     bindE (del_sorted (end_us obs, i) (tj_by_end j (t_side obs))) (\<lambda>ordered.
     bindE (dict_getE (tj_edges j) i) (\<lambda>d.
     bindE (foldE (del_edge i) (dict_del i (tj_edges j)) (map fst d)) (\<lambda>es.
     Inr (j\<lparr>tj_open := dict_del i (tj_open j), tj_by_end := (tj_by_end j)(t_side obs := ordered), tj_edges := es,
            tj_flagged := tj_flagged j - {i}, tj_past := tj_past j - {i}\<rparr>)))))"

definition tj_leave :: "TimedJoin \<Rightarrow> identity \<Rightarrow> (TimedJoin \<times> Closing) result" where
  "tj_leave j i =
     bindE (tj_remove j i) (\<lambda>j'. Inr (j', \<lparr>cl_members = [i], cl_verdicts = [(i, no_link R_OVERSIZED)]\<rparr>))"

text \<open>One item off the heap: the state and the closings so far.\<close>

definition close_one :: "int \<Rightarrow> TimedJoin \<times> Closing list \<Rightarrow> identity \<Rightarrow> (TimedJoin \<times> Closing list) result" where
  "close_one watermark st i =
     (let (j, out) = st in
      if i \<notin> fst ` set (tj_open j) then Inr st
      else if i \<in> tj_flagged j then bindE (tj_leave j i) (\<lambda>(j', c). Inr (j', out @ [c]))
      else bindE (tj_walk j i) (\<lambda>(members, _).
        bindE (mapE (\<lambda>m. bindE (dict_getE (tj_open j) m) (\<lambda>obs. Inr (end_us obs))) members) (\<lambda>ends.
        if max_of ends + tj_horizon j < watermark
        then bindE (tj_decide j members) (\<lambda>vs.
          bindE (foldE tj_remove j members) (\<lambda>j'.
          Inr (j', out @ [\<lparr>cl_members = sort members, cl_verdicts = vs\<rparr>])))
        else Inr (j\<lparr>tj_past := insert i (tj_past j)\<rparr>, out))))"

text \<open>\<open>while heap and heap[0][0] + horizon < watermark\<close>: nothing enters the heap meanwhile.\<close>

fun close_heap :: "int \<Rightarrow> (int \<times> identity) list \<Rightarrow> TimedJoin \<times> Closing list \<Rightarrow> (TimedJoin \<times> Closing list) result" where
  "close_heap watermark [] st = Inr ((fst st)\<lparr>tj_heap := []\<rparr>, snd st)"
| "close_heap watermark (x # heap) st =
     (if fst x + tj_horizon (fst st) < watermark
      then bindE (close_one watermark st (snd x)) (close_heap watermark heap)
      else Inr ((fst st)\<lparr>tj_heap := x # heap\<rparr>, snd st))"

definition tj_forget :: "int \<Rightarrow> TimedJoin \<Rightarrow> TimedJoin result" where
  "tj_forget watermark j =
     (let half = local_span_us (tj_params j) in
      if half = 0 then Inr j
      else case tj_max_duration j of None \<Rightarrow> Inl TypeError
      | Some d \<Rightarrow>
          let ends = map (\<lambda>s. fst (hd (tj_by_end j s))) (filter (\<lambda>s. tj_by_end j s \<noteq> []) [''outbound'', ''inbound'']);
              oldest = min_of (ends @ [watermark]); limit = oldest - d - half in
          Inr (j\<lparr>tj_refs := (\<lambda>s. drop (bisect_left (tj_refs j s) limit) (tj_refs j s))\<rparr>))"

definition tj_closing :: "int \<Rightarrow> TimedJoin \<Rightarrow> (TimedJoin \<times> Closing list) result" where
  "tj_closing watermark j =
     bindE (close_heap watermark (tj_heap j) (j, [])) (\<lambda>(j1, out).
     bindE (foldE (\<lambda>(j, out) i. bindE (tj_leave j i) (\<lambda>(j', c). Inr (j', out @ [c]))) (j1, out)
       (sorted_list_of_set (tj_due j1 \<inter> fst ` set (tj_open j1)))) (\<lambda>(j2, out).
     bindE (tj_forget watermark (j2\<lparr>tj_due := {}\<rparr>)) (\<lambda>j3. Inr (j3, out))))"

end
