(* ===== verification/Flow_Types.thy ===== *)
theory Flow_Types
  imports Flow_Timed Exact_Props
begin

text \<open>
  The data of the flow correlation (\<open>correlation/flow.py\<close>): journal entries, settings, decisions,
  proofs, and the fingerprints that name them.

  \<open>H\<close> is SHA-256 and \<open>rp\<close> is Python's \<open>repr\<close>; both only enter fingerprints.  What is printed is
  a small model of the Python values involved, so that \<open>_canonical\<close> can be written as the code has
  it.  The capture time of an entry, which this module never reads, is left out.
\<close>

section \<open>Journal and settings\<close>

definition DEFAULT_MAX_COLLISION_MEMBERS :: int where "DEFAULT_MAX_COLLISION_MEMBERS = 32"

record Seen =
  f_observation :: Observation
  f_at :: int
  f_start_us :: "int option"
  f_end_us :: "int option"

record Advance =
  av_source :: string
  av_until :: int

datatype FlowEntry = FSeen Seen | FAdvance Advance | FOther

record FlowConfig =
  fc_sources :: "string list"
  fc_window_us :: int
  fc_lateness_us :: int
  fc_max_silence_us :: "int option"
  fc_max_collision_members :: int
  fc_timing :: "(string \<times> JoinParams) list option"
  fc_max_duration_us :: "int option"
  fc_calibration :: "(string \<times> string list) list option"

section \<open>Canonical values\<close>

datatype pyval =
    PNone
  | PBool bool
  | PInt int
  | PStr string
  | PTuple "pyval list"
  | PFrozenset "string set"
  | PEnum string
  | PFraction rat
  | PData string "(string \<times> pyval) list"

definition str_fraction :: "rat \<Rightarrow> string" where
  "str_fraction q =
     (let (n, d) = quotient_of q in if d = 1 then str_int n else str_int n @ ''/'' @ str_int d)"

fun canonical :: "pyval \<Rightarrow> pyval" where
  "canonical (PData name fs) =
     PTuple [PStr name, PTuple (map (\<lambda>(f, v). PTuple [PStr f, canonical v]) fs)]"
| "canonical (PFrozenset s) = PTuple (map PStr (sorted_list_of_set s))"
| "canonical (PTuple vs) = PTuple (map canonical vs)"
| "canonical (PEnum name) = PStr name"
| "canonical (PFraction q) = PStr (str_fraction q)"
| "canonical v = v"

definition p_opt :: "('a \<Rightarrow> pyval) \<Rightarrow> 'a option \<Rightarrow> pyval" where
  "p_opt f x = (case x of None \<Rightarrow> PNone | Some v \<Rightarrow> f v)"

definition signal_value :: "Signal \<Rightarrow> pyval" where
  "signal_value s = PData ''Signal'' [(''name'', PStr (s_name s)), (''offset_us'', PInt (offset_us s)),
     (''window_us'', PInt (window_us s))]"

definition params_value :: "JoinParams \<Rightarrow> pyval" where
  "params_value p = PData ''JoinParams'' [(''signals'', PTuple (map signal_value (signals p))),
     (''margin_us'', PInt (margin_us p)), (''max_component'', PInt (j_max_component p)),
     (''local_span_us'', PInt (local_span_us p)), (''local_limit_permille'', PInt (local_limit_permille p))]"

fun evidence_enum :: "Evidence \<Rightarrow> string" where
  "evidence_enum UNRESOLVED = ''UNRESOLVED''"
| "evidence_enum DERIVED = ''DERIVED''"
| "evidence_enum OBSERVED = ''OBSERVED''"
| "evidence_enum AUTHORED = ''AUTHORED''"

fun link_enum :: "LinkKind \<Rightarrow> string" where
  "link_enum SHARED_HEADER = ''SHARED_HEADER''"
| "link_enum MESSAGE_KEY = ''MESSAGE_KEY''"
| "link_enum SAME_CONNECTION = ''SAME_CONNECTION''"
| "link_enum SAME_SOCKET = ''SAME_SOCKET''"
| "link_enum NESTED_TIMING = ''NESTED_TIMING''"
| "link_enum PROPAGATED = ''PROPAGATED''"
| "link_enum INSIDE_PROCESS = ''INSIDE_PROCESS''"
| "link_enum LOGGED_TIMING = ''LOGGED_TIMING''"
| "link_enum NO_LINK = ''NONE''"

definition point_value :: "Point \<Rightarrow> pyval" where
  "point_value p = PData ''Point'' [(''name'', PStr (p_name p)), (''host'', PStr (p_host p)),
     (''visibility'', PStr (p_visibility p)), (''clock'', p_opt PStr (p_clock p)),
     (''timestamps'', p_opt PStr (p_timestamps p)), (''inbound'', PFrozenset (p_inbound p)),
     (''outbound'', PFrozenset (p_outbound p)),
     (''propagates'', PTuple (map (\<lambda>(i, w). PTuple [PStr i, PStr w]) (p_propagates p))),
     (''sets'', PFrozenset (p_sets p)), (''trusts_incoming'', PBool (p_trusts_incoming p))]"

definition hop_value :: "HopCeiling \<Rightarrow> pyval" where
  "hop_value h = PData ''HopCeiling'' [(''src'', PStr (hc_src h)), (''dst'', PStr (hc_dst h)),
     (''relation'', PStr (hc_relation h)), (''evidence'', PEnum (evidence_enum (hc_evidence h))),
     (''link'', PEnum (link_enum (hc_link h))), (''density'', p_opt PFraction (hc_density h)),
     (''max_fanout'', p_opt PInt (hc_max_fanout h)), (''key'', p_opt PStr (hc_key h)),
     (''observed'', p_opt (\<lambda>ks. PTuple (map PStr ks)) (hc_observed h))]"

definition crossing_value :: "CrossingCeiling \<Rightarrow> pyval" where
  "crossing_value c = PData ''CrossingCeiling'' [(''point'', PStr (cc_point c)),
     (''evidence'', PEnum (evidence_enum (cc_evidence c))), (''link'', PEnum (link_enum (cc_link c))),
     (''key'', p_opt PStr (cc_key c))]"

definition topology_value :: "Topology \<Rightarrow> pyval" where
  "topology_value t = PData ''Topology'' [(''points'', PTuple (map point_value (t_points t))),
     (''hops'', PTuple (map hop_value (t_hops t))), (''crossings'', PTuple (map crossing_value (t_crossings t)))]"

definition topology_id :: "(string \<Rightarrow> string) \<Rightarrow> (pyval \<Rightarrow> string) \<Rightarrow> Topology \<Rightarrow> string" where
  "topology_id H rp t = digest H [''topology'', rp (canonical (topology_value t))]"

definition str_opt :: "int option \<Rightarrow> string" where
  "str_opt x = (case x of None \<Rightarrow> ''None'' | Some i \<Rightarrow> str_int i)"

definition timing_of :: "FlowConfig \<Rightarrow> (string \<times> JoinParams) list" where
  "timing_of c = (case fc_timing c of None \<Rightarrow> [] | Some t \<Rightarrow> t)"

definition calibration_of :: "FlowConfig \<Rightarrow> string \<Rightarrow> string list" where
  "calibration_of c where =
     (case fc_calibration c of None \<Rightarrow> []
      | Some d \<Rightarrow> (case map_of d where of None \<Rightarrow> [] | Some fs \<Rightarrow> fs))"

definition declared_timing :: "(pyval \<Rightarrow> string) \<Rightarrow> FlowConfig \<Rightarrow> string list" where
  "declared_timing rp c =
     (if timing_of c = [] then []
      else concat (map (\<lambda>(where, p). [''timing'', where, rp (canonical (params_value p)), ''calibration''] @ calibration_of c where)
             (sort_key fst (timing_of c)))
           @ [''max_duration'', str_opt (fc_max_duration_us c)])"

definition config_id :: "(string \<Rightarrow> string) \<Rightarrow> (pyval \<Rightarrow> string) \<Rightarrow> FlowConfig \<Rightarrow> string" where
  "config_id H rp c = digest H ([''flow'', ''sources''] @ sort (fc_sources c)
     @ [''window'', str_int (fc_window_us c), ''lateness'', str_int (fc_lateness_us c),
        ''max_silence'', str_opt (fc_max_silence_us c)]
     @ (if fc_max_collision_members c = DEFAULT_MAX_COLLISION_MEMBERS then []
        else [''max_collision'', str_int (fc_max_collision_members c)])
     @ declared_timing rp c)"

section \<open>Decisions and proofs\<close>

datatype FStatus = F_PROVISIONAL | F_FINAL | F_SUPERSEDED

datatype Kind = LINKED | COLLIDED | UNLINKED | K_LATE | VALUE_AFTER_FINAL | CONFLICTED | UNDECIDED

fun flow_kind_value :: "Kind \<Rightarrow> string" where
  "flow_kind_value LINKED = ''LINKED''"
| "flow_kind_value COLLIDED = ''COLLIDED''"
| "flow_kind_value UNLINKED = ''UNLINKED''"
| "flow_kind_value K_LATE = ''LATE''"
| "flow_kind_value VALUE_AFTER_FINAL = ''VALUE_AFTER_FINAL''"
| "flow_kind_value CONFLICTED = ''CONFLICTED''"
| "flow_kind_value UNDECIDED = ''UNDECIDED''"

datatype Corroboration = CORROBORATED | SIGNAL_ABSENT | SIGNAL_UNMATCHED | SIGNAL_OTHER_PARTNER

fun corroboration_value :: "Corroboration \<Rightarrow> string" where
  "corroboration_value CORROBORATED = ''CORROBORATED''"
| "corroboration_value SIGNAL_ABSENT = ''SIGNAL_ABSENT''"
| "corroboration_value SIGNAL_UNMATCHED = ''SIGNAL_UNMATCHED''"
| "corroboration_value SIGNAL_OTHER_PARTNER = ''SIGNAL_OTHER_PARTNER''"

fun timed_reason_value :: "TReason \<Rightarrow> string" where
  "timed_reason_value R_AMBIGUOUS = ''AMBIGUOUS''"
| "timed_reason_value R_UNMATCHED = ''UNMATCHED''"
| "timed_reason_value R_OVERSIZED = ''OVERSIZED''"
| "timed_reason_value R_NO_CANDIDATE = ''NO_CANDIDATE''"
| "timed_reason_value R_DENSE = ''DENSE''"
| "timed_reason_value R_TOO_LONG = ''TOO_LONG''"
| "timed_reason_value R_TIME_ABSENT = ''TIME_ABSENT''"

type_synonym fkey = "string \<times> identity"

record FlowDecision =
  fd_id :: string
  fd_key :: fkey
  fd_version :: int
  fd_status :: FStatus
  fd_kind :: Kind
  fd_join_key :: "string option"
  fd_value :: "string option"
  fd_partners :: "identity list"
  fd_decided_at :: int
  fd_final_at :: "int option"
  fd_forced :: bool
  fd_supersedes :: "string option"
  fd_evidence :: "Evidence option"
  fd_corroboration :: "Corroboration option"
  fd_missing_on :: "identity list"
  fd_reason :: "TReason option"
  fd_weight :: "int option"

record Dossier =
  ds_id :: string
  ds_observations :: "identity list"
  ds_decisions :: "string list"
  ds_forced :: bool
  ds_topology_id :: string
  ds_config_id :: string
  ds_engine_version :: string
  ds_positions :: "int list"
  ds_closed_at :: int
  ds_cites :: "(string \<times> string) option"
  ds_where :: "string option"
  ds_method :: "string option"
  ds_params_id :: "string option"
  ds_calibration :: "string list"

record FlowResult =
  fr_decisions :: "FlowDecision list"
  fr_dossiers :: "Dossier list"
  fr_duplicates :: int

definition flow_status :: "FlowResult \<Rightarrow> FlowDecision \<Rightarrow> FStatus" where
  "flow_status res d =
     (if \<exists>x \<in> set (fr_decisions res). fd_supersedes x = Some (fd_id d) then F_SUPERSEDED else fd_status d)"

definition flow_effective :: "FlowResult \<Rightarrow> (fkey \<times> FlowDecision) list" where
  "flow_effective res = fold (\<lambda>d. dict_put (fd_key d) d) (fr_decisions res) []"

definition signal_counts :: "FlowResult \<Rightarrow> ((string \<times> Corroboration) \<times> int) list" where
  "signal_counts res =
     fold (\<lambda>(key, d) counts.
       case fd_corroboration d of
         Some c \<Rightarrow> if fd_status d = F_FINAL
           then dict_put (fst key, c) ((case map_of counts (fst key, c) of None \<Rightarrow> 0 | Some n \<Rightarrow> n) + 1) counts else counts
       | None \<Rightarrow> counts) (flow_effective res) []"

record FProposal =
  fp_kind :: Kind
  fp_key :: "string option"
  fp_value :: "string option"
  fp_partners :: "identity list"
  fp_evidence :: "Evidence option"
  fp_corroboration :: "Corroboration option"
  fp_missing_on :: "identity list"
  fp_reason :: "TReason option"
  fp_weight :: "int option"

text \<open>\<open>_Proposal(kind, key, value, partners)\<close>, the other fields at their defaults.\<close>

definition plain :: "Kind \<Rightarrow> string option \<Rightarrow> string option \<Rightarrow> identity list \<Rightarrow> FProposal" where
  "plain k key v ps = \<lparr>fp_kind = k, fp_key = key, fp_value = v, fp_partners = ps, fp_evidence = None,
     fp_corroboration = None, fp_missing_on = [], fp_reason = None, fp_weight = None\<rparr>"

definition str_identity :: "identity \<Rightarrow> string" where
  "str_identity i = fst i @ SEP @ str_int (snd i)"

definition or_empty :: "string option \<Rightarrow> string" where
  "or_empty x = (case x of None \<Rightarrow> [] | Some s \<Rightarrow> s)"

definition flow_fingerprint :: "(string \<Rightarrow> string) \<Rightarrow> FProposal \<Rightarrow> string" where
  "flow_fingerprint H p =
     (let second =
        (if fp_evidence p = Some DERIVED \<or> fp_reason p \<noteq> None
         then [''timed'', case fp_reason p of Some r \<Rightarrow> timed_reason_value r | None \<Rightarrow> [], str_opt (fp_weight p)]
         else case fp_corroboration p of
           Some c \<Rightarrow> [''corroboration'', corroboration_value c] @ map str_identity (fp_missing_on p)
         | None \<Rightarrow> []) in
      digest H ([flow_kind_value (fp_kind p), or_empty (fp_key p), or_empty (fp_value p)]
        @ map str_identity (fp_partners p) @ second))"

text \<open>\<open>_Proposal.of\<close>\<close>

definition proposal_of :: "FlowDecision \<Rightarrow> FProposal" where
  "proposal_of d = \<lparr>fp_kind = fd_kind d, fp_key = fd_join_key d, fp_value = fd_value d, fp_partners = fd_partners d,
     fp_evidence = fd_evidence d, fp_corroboration = fd_corroboration d, fp_missing_on = fd_missing_on d,
     fp_reason = fd_reason d, fp_weight = fd_weight d\<rparr>"

definition timed_proposal :: "TVerdict \<Rightarrow> FProposal" where
  "timed_proposal v =
     (case tv_reason v of
        None \<Rightarrow> (plain LINKED None None (case tv_partner v of None \<Rightarrow> [] | Some p \<Rightarrow> [p]))
          \<lparr>fp_evidence := Some DERIVED, fp_weight := tv_weight v\<rparr>
      | Some r \<Rightarrow> (plain UNDECIDED None None [])\<lparr>fp_reason := Some r\<rparr>)"

section \<open>Outcomes of one signal\<close>

type_synonym outcome = "Kind \<times> string \<times> string \<times> identity list"

definition outcome_proposal :: "outcome \<Rightarrow> FProposal" where
  "outcome_proposal x = (case x of (k, key, v, ps) \<Rightarrow> plain k (Some key) (Some v) ps)"

definition single_signal :: "outcome \<Rightarrow> Evidence \<Rightarrow> FProposal" where
  "single_signal x e =
     (if fst x = LINKED then (outcome_proposal x)\<lparr>fp_evidence := Some e\<rparr> else outcome_proposal x)"

definition outcomes :: "ExactResult \<Rightarrow> (string \<Rightarrow> identity \<Rightarrow> (string \<times> string) result) \<Rightarrow> (fkey \<times> outcome) list result" where
  "outcomes res value_at =
     (let out1 = fold (\<lambda>l out. dict_put (l_where l, l_downstream l) (LINKED, l_key l, l_value l, [l_upstream l])
            (dict_put (l_where l, l_upstream l) (LINKED, l_key l, l_value l, [l_downstream l]) out)) (x_links res) [];
          out2 = fold (\<lambda>c out.
            fold (\<lambda>i. dict_put (c_where c, i) (COLLIDED, c_key c, c_value c, c_upstream c)) (c_downstream c)
            (fold (\<lambda>i. dict_put (c_where c, i) (COLLIDED, c_key c, c_value c, c_downstream c)) (c_upstream c) out))
            (x_collisions res) out1 in
      foldE (\<lambda>out (where, i). bindE (value_at where i) (\<lambda>(key, v).
        Inr (dict_put (where, i) (UNLINKED, key, v, []) out))) out2 (x_unlinked res))"

section \<open>Checks\<close>

definition check_config :: "FlowConfig \<Rightarrow> unit result" where
  "check_config c =
     bindE (checkE (fc_sources c \<noteq> [] \<and> (\<forall>s \<in> set (fc_sources c). s \<noteq> []) \<and> distinct (fc_sources c))
       (ValueError ''sources must be a non-empty tuple of distinct names'')) (\<lambda>_.
     bindE (checkE (fc_window_us c \<ge> 0) (ValueError ''window_us must be an integer >= 0'')) (\<lambda>_.
     bindE (checkE (fc_lateness_us c \<ge> 0) (ValueError ''lateness_us must be an integer >= 0'')) (\<lambda>_.
     bindE (checkE (case fc_max_silence_us c of None \<Rightarrow> True | Some b \<Rightarrow> b \<ge> 1)
       (ValueError ''max_silence_us must be None or an integer >= 1'')) (\<lambda>_.
     bindE (checkE (fc_max_collision_members c \<ge> 2) (ValueError ''max_collision_members must be an integer >= 2'')) (\<lambda>_.
     checkE (case fc_max_duration_us c of None \<Rightarrow> True | Some d \<Rightarrow> d \<ge> 1)
       (ValueError ''max_duration_us must be None or an integer >= 1''))))))"

end
