(* ===== verification/Flow.thy ===== *)
theory Flow
  imports Flow_Types
begin

text \<open>
  The flow correlation (\<open>correlation/flow.py\<close>): the state of \<open>_Flow\<close> and what every journal entry
  does to it.  What the constructor computes once is the record \<open>FlowSetup\<close>; what changes is the
  record \<open>FlowState\<close>, passed along.

  Python sets whose elements are only tested or sorted are HOL sets; the heap of open
  observations is the sorted list of its items; the walk of \<open>_group_of\<close> takes the elements of a
  set in sorted order, which its sorted result does not show, and gets as many rounds as there
  are open observations.
\<close>

type_synonym fvalue = "string \<times> string"

record FlowSetup =
  su_topology :: Topology
  su_config :: FlowConfig
  su_points :: "string set"
  su_join_key :: "(string \<times> string) list"
  su_observed :: "(string \<times> string list) list"
  su_topology_id :: string
  su_config_id :: string
  su_version :: string

record FlowState =
  fs_timed :: "(string \<times> TimedJoin) list"
  fs_progress :: "(string \<times> int option) list"
  fs_first_at :: "int option"
  fs_seen :: "(identity \<times> Seen) list"
  fs_open :: "(identity \<times> Seen) list"
  fs_positions :: "(identity \<times> int) list"
  fs_keys_of :: "(identity \<times> fkey set) list"
  fs_holders :: "(fvalue \<times> identity set) list"
  fs_pending :: "(int \<times> identity) list"
  fs_closed_values :: "fvalue set"
  fs_crowded :: "(fvalue \<times> string set) list"
  fs_settled :: "identity set"
  fs_due :: "identity set"
  fs_current :: "(fkey \<times> FlowDecision) list"
  fs_decisions :: "FlowDecision list"
  fs_dossiers :: "Dossier list"
  fs_duplicates :: int
  fs_position :: int

section \<open>The constructor\<close>

definition join_key_of :: "Topology \<Rightarrow> (string \<times> string) list" where
  "join_key_of t =
     dict_union
       (dict_of (List.map_filter (\<lambda>h. case hc_key h of None \<Rightarrow> None
          | Some k \<Rightarrow> if k = [] then None else Some (arrow (hc_src h) (hc_dst h), k)) (t_hops t)))
       (dict_of (List.map_filter (\<lambda>c. case cc_key c of None \<Rightarrow> None
          | Some k \<Rightarrow> if k = [] then None else Some (cc_point c, k)) (t_crossings t)))"

definition observed_of :: "Topology \<Rightarrow> (string \<times> string list) list" where
  "observed_of t =
     dict_of (List.map_filter (\<lambda>h. case hc_observed h of None \<Rightarrow> None
       | Some ks \<Rightarrow> if ks = [] then None else Some (arrow (hc_src h) (hc_dst h), ks)) (t_hops t))"

definition timed_joins ::
    "(string \<Rightarrow> string) \<Rightarrow> (pyval \<Rightarrow> string) \<Rightarrow> Topology \<Rightarrow> FlowConfig \<Rightarrow> (string \<times> TimedJoin) list result" where
  "timed_joins H rp t c =
     (let hops = timing_hops t in
      foldE (\<lambda>joins (where, p).
        bindE (checkE (map_of hops where \<noteq> None) (ValueError ''is not a timing-derived hop of the topology'')) (\<lambda>_.
        bindE (dict_getE hops where) (\<lambda>hop.
        bindE (init_join H (\<lambda>p. rp (params_value p)) where (hc_src hop) (hc_dst hop) p (fc_max_duration_us c)) (\<lambda>j.
        Inr (dict_put where j joins))))) [] (sort_key fst (timing_of c)))"

definition init_flow ::
    "(string \<Rightarrow> string) \<Rightarrow> (pyval \<Rightarrow> string) \<Rightarrow> string \<Rightarrow> Topology \<Rightarrow> FlowConfig \<Rightarrow> (FlowSetup \<times> FlowState) result" where
  "init_flow H rp V t c =
     bindE (check_config c) (\<lambda>_.
     bindE (timed_joins H rp t c) (\<lambda>joins.
     Inr (\<lparr>su_topology = t, su_config = c, su_points = p_name ` set (t_points t), su_join_key = join_key_of t,
            su_observed = observed_of t, su_topology_id = topology_id H rp t, su_config_id = config_id H rp c,
            su_version = V\<rparr>,
          \<lparr>fs_timed = joins, fs_progress = dict_of (map (\<lambda>s. (s, None)) (fc_sources c)), fs_first_at = None,
            fs_seen = [], fs_open = [], fs_positions = [], fs_keys_of = [], fs_holders = [], fs_pending = [],
            fs_closed_values = {}, fs_crowded = [], fs_settled = {}, fs_due = {}, fs_current = [], fs_decisions = [],
            fs_dossiers = [], fs_duplicates = 0, fs_position = - 1\<rparr>)))"

definition su_join_keys :: "FlowSetup \<Rightarrow> string set" where
  "su_join_keys S = snd ` set (su_join_key S)"

section \<open>Emission and proofs\<close>

definition emit_flow ::
    "(string \<Rightarrow> string) \<Rightarrow> fkey \<Rightarrow> FProposal \<Rightarrow> FStatus \<Rightarrow> bool \<Rightarrow> FlowState \<Rightarrow> FlowState \<times> FlowDecision" where
  "emit_flow H key p status frc st =
     (let previous = map_of (fs_current st) key;
          version = (case previous of None \<Rightarrow> 1 | Some d \<Rightarrow> fd_version d + 1);
          (where, source, seq) = key;
          did = (if status = F_FINAL
                 then digest H [where, source, str_int seq, flow_fingerprint H p, if frc then ''FORCED'' else ''FINAL'']
                 else digest H [where, source, str_int seq, str_int version, flow_fingerprint H p]);
          d = \<lparr>fd_id = did, fd_key = key, fd_version = version, fd_status = status, fd_kind = fp_kind p,
               fd_join_key = fp_key p, fd_value = fp_value p, fd_partners = fp_partners p,
               fd_decided_at = fs_position st,
               fd_final_at = (if status = F_FINAL then Some (fs_position st) else None), fd_forced = frc,
               fd_supersedes = (case previous of None \<Rightarrow> None | Some x \<Rightarrow> Some (fd_id x)),
               fd_evidence = fp_evidence p, fd_corroboration = fp_corroboration p, fd_missing_on = fp_missing_on p,
               fd_reason = fp_reason p, fd_weight = fp_weight p\<rparr> in
      (st\<lparr>fs_current := dict_put key d (fs_current st), fs_decisions := fs_decisions st @ [d]\<rparr>, d))"

text \<open>Emit only when the content differs from the current decision.\<close>

definition emit_new :: "(string \<Rightarrow> string) \<Rightarrow> fkey \<Rightarrow> FProposal \<Rightarrow> FlowState \<Rightarrow> FlowState" where
  "emit_new H key p st =
     (case map_of (fs_current st) key of
        None \<Rightarrow> fst (emit_flow H key p F_PROVISIONAL False st)
      | Some d \<Rightarrow> if flow_fingerprint H (proposal_of d) \<noteq> flow_fingerprint H p
                  then fst (emit_flow H key p F_PROVISIONAL False st) else st)"

definition prove ::
    "(string \<Rightarrow> string) \<Rightarrow> FlowSetup \<Rightarrow> identity list \<Rightarrow> string list \<Rightarrow> bool \<Rightarrow> (string \<times> string) option
      \<Rightarrow> TimedJoin option \<Rightarrow> FlowState \<Rightarrow> FlowState result" where
  "prove H S observations decisions frc cites jn st =
     (let calibration = (case jn of None \<Rightarrow> [] | Some j \<Rightarrow> calibration_of (su_config S) (tj_where j));
          cited = (case jn of
              Some j \<Rightarrow> [''timed'', tj_where j, METHOD, tj_params_id j] @ calibration
            | None \<Rightarrow> (case cites of None \<Rightarrow> [] | Some (k, v) \<Rightarrow> [''cites'', k, v])) in
      bindE (mapE (dict_getE (fs_positions st)) observations) (\<lambda>positions.
      Inr (st\<lparr>fs_dossiers := fs_dossiers st @
        [\<lparr>ds_id = digest H ([''dossier'', su_topology_id S, su_config_id S] @ map str_identity observations @ decisions @ cited),
          ds_observations = observations, ds_decisions = decisions, ds_forced = frc,
          ds_topology_id = su_topology_id S, ds_config_id = su_config_id S, ds_engine_version = su_version S,
          ds_positions = positions, ds_closed_at = fs_position st, ds_cites = cites,
          ds_where = map_option tj_where jn, ds_method = map_option (\<lambda>_. METHOD) jn,
          ds_params_id = map_option tj_params_id jn, ds_calibration = calibration\<rparr>]\<rparr>)))"

section \<open>Watermark and groups\<close>

definition effective_progress :: "FlowState \<Rightarrow> int list result" where
  "effective_progress st =
     mapE (\<lambda>(s, p). case p of Some x \<Rightarrow> Inr x
       | None \<Rightarrow> (case fs_first_at st of Some x \<Rightarrow> Inr x | None \<Rightarrow> Inl TypeError)) (fs_progress st)"

definition flow_watermark :: "FlowSetup \<Rightarrow> FlowState \<Rightarrow> (int \<times> bool) result" where
  "flow_watermark S st =
     bindE (effective_progress st) (\<lambda>ps.
     let fastest = max_of ps;
         holding = filter (\<lambda>p. case fc_max_silence_us (su_config S) of None \<Rightarrow> True | Some b \<Rightarrow> fastest - p \<le> b) ps in
     Inr (min_of holding - fc_lateness_us (su_config S), length holding < length ps))"

definition flow_values :: "FlowSetup \<Rightarrow> Observation \<Rightarrow> fvalue list" where
  "flow_values S obs =
     map (\<lambda>k. (k, the (map_of (o_keys obs) k))) (sorted_list_of_set (su_join_keys S \<inter> fst ` set (o_keys obs)))
     @ List.map_filter (\<lambda>ids. map_option (\<lambda>v. (observed_key ids, v)) (composite_of obs ids))
         (sorted_list_of_set (snd ` set (su_observed S)))"

text \<open>The body of \<open>while todo\<close>: one observation expanded, value by value.\<close>

definition expand_value ::
    "FlowState \<Rightarrow> identity set \<times> identity list \<Rightarrow> fvalue \<Rightarrow> (identity set \<times> identity list) result" where
  "expand_value st gt v =
     (let (grp, todo) = gt in
      bindE (dict_getE (fs_holders st) v) (\<lambda>hs.
      let others = hs - grp in
      Inr (grp \<union> others, todo @ sorted_list_of_set (others - fs_settled st))))"

fun group_loop :: "nat \<Rightarrow> FlowSetup \<Rightarrow> FlowState \<Rightarrow> identity set \<Rightarrow> identity list \<Rightarrow> identity set result" where
  "group_loop n S st grp todo =
     (if todo = [] then Inr grp
      else case n of 0 \<Rightarrow> Inl OutOfFuel
      | Suc n' \<Rightarrow>
          bindE (dict_getE (fs_open st) (last todo)) (\<lambda>entry.
          bindE (foldE (expand_value st) (grp, butlast todo) (flow_values S (f_observation entry))) (\<lambda>(grp', todo').
          group_loop n' S st grp' todo')))"

definition group_of :: "FlowSetup \<Rightarrow> FlowState \<Rightarrow> identity \<Rightarrow> identity list result" where
  "group_of S st i =
     bindE (group_loop (Suc (length (fs_open st))) S st {i} [i]) (\<lambda>g. Inr (sorted_list_of_set g))"

definition latest_at :: "FlowState \<Rightarrow> identity list \<Rightarrow> int result" where
  "latest_at st grp =
     bindE (mapE (\<lambda>i. bindE (dict_getE (fs_open st) i) (\<lambda>e. Inr (f_at e))) grp) (\<lambda>ats. Inr (max_of ats))"

text \<open>\<open>while self.pending and ...\<close>: nothing enters the queue meanwhile.\<close>

fun ripe_loop ::
    "FlowSetup \<Rightarrow> int \<Rightarrow> (int \<times> identity) list \<Rightarrow> FlowState \<times> (identity \<times> identity list) list
      \<Rightarrow> (FlowState \<times> (identity \<times> identity list) list) result" where
  "ripe_loop S watermark [] sg = Inr ((fst sg)\<lparr>fs_pending := []\<rparr>, snd sg)"
| "ripe_loop S watermark (x # pending) sg =
     (let (st, groups) = sg in
      if fst x + fc_window_us (su_config S) < watermark
      then
        bindE (group_of S st (snd x)) (\<lambda>grp.
        bindE (latest_at st grp) (\<lambda>latest.
        ripe_loop S watermark pending
          (if latest + fc_window_us (su_config S) < watermark then (st, dict_put (hd grp) grp groups)
           else if snd x \<in> fs_settled st then (st\<lparr>fs_due := insert (snd x) (fs_due st)\<rparr>, groups)
           else (st, groups))))
      else Inr (st\<lparr>fs_pending := x # pending\<rparr>, groups))"

definition ripe_groups :: "FlowSetup \<Rightarrow> int \<Rightarrow> FlowState \<Rightarrow> (FlowState \<times> identity list list) result" where
  "ripe_groups S watermark st =
     bindE (ripe_loop S watermark (fs_pending st) (st, [])) (\<lambda>(st', groups). Inr (st', sort (map snd groups)))"

section \<open>Closing\<close>

definition finalise_key ::
    "(string \<Rightarrow> string) \<Rightarrow> bool \<Rightarrow> FlowState \<times> string list \<Rightarrow> fkey \<Rightarrow> (FlowState \<times> string list) result" where
  "finalise_key H frc sf key =
     (let (st, finals) = sf in
      bindE (dict_getE (fs_current st) key) (\<lambda>cur.
      let (st', d) = emit_flow H key (proposal_of cur) F_FINAL frc st in Inr (st', finals @ [fd_id d])))"

definition drop_holder :: "identity \<Rightarrow> FlowState \<Rightarrow> fvalue \<Rightarrow> FlowState result" where
  "drop_holder i st v =
     bindE (dict_getE (fs_holders st) v) (\<lambda>hs.
     Inr (st\<lparr>fs_holders := (if hs - {i} = {} then dict_del v (fs_holders st) else dict_put v (hs - {i}) (fs_holders st))\<rparr>))"

definition finalise_flow ::
    "(string \<Rightarrow> string) \<Rightarrow> FlowSetup \<Rightarrow> identity \<Rightarrow> bool \<Rightarrow> FlowState \<Rightarrow> (FlowState \<times> string list) result" where
  "finalise_flow H S i frc st =
     bindE (dict_getE (fs_keys_of st) i) (\<lambda>keys.
     bindE (foldE (finalise_key H frc) (st, []) (sorted_list_of_set keys)) (\<lambda>(st1, finals).
     bindE (dict_getE (fs_open st1) i) (\<lambda>entry.
     bindE (foldE (drop_holder i) st1 (flow_values S (f_observation entry))) (\<lambda>st2.
     Inr (st2\<lparr>fs_open := dict_del i (fs_open st2)\<rparr>, finals)))))"

definition let_go :: "(string \<Rightarrow> string) \<Rightarrow> FlowSetup \<Rightarrow> bool \<Rightarrow> FlowState \<Rightarrow> identity \<Rightarrow> FlowState result" where
  "let_go H S frc st i =
     bindE (dict_getE (fs_open st) i) (\<lambda>entry.
     bindE (case flow_values S (f_observation entry) of [] \<Rightarrow> Inl IndexError | v # _ \<Rightarrow> Inr v) (\<lambda>cites.
     bindE (finalise_flow H S i frc st) (\<lambda>(st', finals).
     prove H S [i] (sort finals) frc (Some cites) None (st'\<lparr>fs_settled := fs_settled st' - {i}\<rparr>))))"

definition close_member ::
    "(string \<Rightarrow> string) \<Rightarrow> FlowSetup \<Rightarrow> bool \<Rightarrow> FlowState \<times> string list \<times> identity list \<Rightarrow> identity
      \<Rightarrow> (FlowState \<times> string list \<times> identity list) result" where
  "close_member H S frc acc i =
     (let (st, finals, whole) = acc in
      bindE (dict_getE (fs_open st) i) (\<lambda>entry.
      let vs = flow_values S (f_observation entry);
          st1 = st\<lparr>fs_closed_values := fs_closed_values st \<union> {v \<in> set vs. fst v \<in> su_join_keys S}\<rparr>;
          forget = (\<lambda>s. s\<lparr>fs_crowded := fold dict_del vs (fs_crowded s)\<rparr>) in
      if i \<in> fs_settled st1
      then bindE (let_go H S frc st1 i) (\<lambda>st2. Inr (forget st2, finals, whole))
      else bindE (finalise_flow H S i frc st1) (\<lambda>(st2, fs). Inr (forget st2, finals @ fs, whole @ [i]))))"

definition close_group :: "(string \<Rightarrow> string) \<Rightarrow> FlowSetup \<Rightarrow> bool \<Rightarrow> FlowState \<Rightarrow> identity list \<Rightarrow> FlowState result" where
  "close_group H S frc st grp =
     bindE (foldE (close_member H S frc) (st, [], []) grp) (\<lambda>(st', finals, whole).
     if whole = [] then Inr st' else prove H S whole (sort finals) frc None None st')"

text \<open>\<open>_settle_timed\<close>: what the watermark lets go of each timed hop.\<close>

definition close_timed ::
    "(string \<Rightarrow> string) \<Rightarrow> FlowSetup \<Rightarrow> bool \<Rightarrow> TimedJoin \<Rightarrow> FlowState \<Rightarrow> Closing \<Rightarrow> FlowState result" where
  "close_timed H S frc j st c =
     bindE (foldE (\<lambda>(st, finals) m. bindE (dict_getE (cl_verdicts c) m) (\<lambda>v.
       let (st', d) = emit_flow H (tj_where j, m) (timed_proposal v) F_FINAL frc st in Inr (st', finals @ [fd_id d])))
       (st, []) (cl_members c)) (\<lambda>(st', finals).
     prove H S (cl_members c) (sort finals) frc None (Some j) st')"

definition settle_timed ::
    "(string \<Rightarrow> string) \<Rightarrow> FlowSetup \<Rightarrow> int \<Rightarrow> bool \<Rightarrow> FlowState \<Rightarrow> string \<Rightarrow> FlowState result" where
  "settle_timed H S watermark frc st where =
     bindE (dict_getE (fs_timed st) where) (\<lambda>j.
     bindE (tj_closing watermark j) (\<lambda>(j', closings).
     foldE (close_timed H S frc j') (st\<lparr>fs_timed := dict_put where j' (fs_timed st)\<rparr>) closings))"

definition settle_flow :: "(string \<Rightarrow> string) \<Rightarrow> FlowSetup \<Rightarrow> FlowState \<Rightarrow> FlowState result" where
  "settle_flow H S st =
     bindE (flow_watermark S st) (\<lambda>(watermark, frc).
     bindE (ripe_groups S watermark st) (\<lambda>(st1, groups).
     bindE (foldE (close_group H S frc) st1 groups) (\<lambda>st2.
     bindE (foldE (let_go H S frc) st2 (sorted_list_of_set (fs_due st2 \<inter> fst ` set (fs_open st2)))) (\<lambda>st3.
     foldE (settle_timed H S watermark frc) (st3\<lparr>fs_due := {}\<rparr>) (map fst (fs_timed st3))))))"

section \<open>Evaluation\<close>

definition authored_value :: "FlowSetup \<Rightarrow> FlowState \<Rightarrow> string \<Rightarrow> identity \<Rightarrow> (string \<times> string) result" where
  "authored_value S st where i =
     bindE (dict_getE (su_join_key S) where) (\<lambda>key.
     bindE (dict_getE (fs_open st) i) (\<lambda>e.
     bindE (dict_getE (o_keys (f_observation e)) key) (\<lambda>v. Inr (key, v))))"

definition observed_value :: "FlowSetup \<Rightarrow> FlowState \<Rightarrow> string \<Rightarrow> identity \<Rightarrow> (string \<times> string) result" where
  "observed_value S st where i =
     bindE (dict_getE (su_observed S) where) (\<lambda>ids.
     bindE (dict_getE (fs_open st) i) (\<lambda>e.
     case composite_of (f_observation e) ids of Some v \<Rightarrow> Inr (observed_key ids, v) | None \<Rightarrow> Inl TypeError))"

definition has_authored :: "FlowSetup \<Rightarrow> FlowState \<Rightarrow> string \<Rightarrow> identity \<Rightarrow> bool result" where
  "has_authored S st where i =
     bindE (dict_getE (su_join_key S) where) (\<lambda>key.
     bindE (dict_getE (fs_open st) i) (\<lambda>e. Inr (map_of (o_keys (f_observation e)) key \<noteq> None)))"

definition has_observed :: "FlowSetup \<Rightarrow> FlowState \<Rightarrow> string \<Rightarrow> identity \<Rightarrow> bool result" where
  "has_observed S st where i =
     bindE (dict_getE (fs_open st) i) (\<lambda>e.
     bindE (dict_getE (su_observed S) where) (\<lambda>ids. Inr (composite_of (f_observation e) ids \<noteq> None)))"

definition definitive :: "FlowState \<Rightarrow> string \<Rightarrow> outcome \<Rightarrow> outcome" where
  "definitive st where x =
     (case x of (k, key, v, ps) \<Rightarrow>
       if where \<in> (case map_of (fs_crowded st) (key, v) of None \<Rightarrow> {} | Some ws \<Rightarrow> ws) then (COLLIDED, key, v, []) else x)"

definition missing_signal ::
    "(string \<Rightarrow> identity \<Rightarrow> bool result) \<Rightarrow> string \<Rightarrow> identity list \<Rightarrow> identity list result" where
  "missing_signal other where pair =
     bindE (collectE (\<lambda>i. bindE (other where i) (\<lambda>b. Inr (if b then [] else [i]))) pair) (\<lambda>ms. Inr (sort ms))"

definition is_kind :: "Kind \<Rightarrow> outcome option \<Rightarrow> bool" where
  "is_kind k x \<longleftrightarrow> (case x of None \<Rightarrow> False | Some y \<Rightarrow> fst y = k)"

definition combined :: "FlowSetup \<Rightarrow> FlowState \<Rightarrow> fkey \<Rightarrow> outcome option \<Rightarrow> outcome option \<Rightarrow> FProposal result" where
  "combined S st bk authored observed =
     (let (where, i) = bk in
      if is_kind COLLIDED authored then Inr (outcome_proposal (the authored))
      else if is_kind COLLIDED observed then Inr (outcome_proposal (the observed))
      else if is_kind LINKED authored \<and> is_kind LINKED observed then
        (case (the authored, the observed) of ((_, key, v, ps), (_, _, _, qs)) \<Rightarrow>
          if ps = qs
          then Inr ((outcome_proposal (the authored))\<lparr>fp_evidence := Some AUTHORED, fp_corroboration := Some CORROBORATED\<rparr>)
          else Inr ((plain CONFLICTED (Some key) (Some v) (sorted_list_of_set (set ps \<union> set qs)))
                 \<lparr>fp_corroboration := Some SIGNAL_OTHER_PARTNER\<rparr>))
      else if is_kind LINKED authored \<or> is_kind LINKED observed then
        (let a_linked = is_kind LINKED authored;
             (linked, evidence) = (if a_linked then (the authored, AUTHORED) else (the observed, OBSERVED));
             (_, key, v, ps) = linked in
         bindE (missing_signal (if a_linked then has_observed S st else has_authored S st) where (i # ps)) (\<lambda>missing.
         if missing \<noteq> []
         then Inr ((outcome_proposal linked)\<lparr>fp_evidence := Some evidence, fp_corroboration := Some SIGNAL_ABSENT,
                fp_missing_on := missing\<rparr>)
         else Inr ((plain CONFLICTED (Some key) (Some v) ps)\<lparr>fp_corroboration := Some SIGNAL_UNMATCHED\<rparr>)))
      else case authored of Some x \<Rightarrow> Inr (outcome_proposal x)
      | None \<Rightarrow> (case observed of Some x \<Rightarrow> Inr (outcome_proposal x) | None \<Rightarrow> Inl TypeError))"

definition propose ::
    "FlowSetup \<Rightarrow> FlowState \<Rightarrow> (fkey \<times> outcome) list \<Rightarrow> (fkey \<times> outcome) list \<Rightarrow> fkey \<Rightarrow> (fkey \<times> FProposal) result" where
  "propose S st authored observed bk =
     (let where = fst bk in
      bindE
        (if map_of (su_observed S) where \<noteq> None \<and> map_of (su_join_key S) where \<noteq> None
         then combined S st bk (map_of authored bk) (map_of observed bk)
         else
           let evidence = (if map_of (su_join_key S) where \<noteq> None then AUTHORED else OBSERVED) in
           case map_of authored bk of Some x \<Rightarrow> Inr (single_signal x evidence)
           | None \<Rightarrow> bindE (dict_getE observed bk) (\<lambda>x. Inr (single_signal x evidence)))
        (\<lambda>p. Inr (bk, p)))"

definition mark_crowded :: "FlowSetup \<Rightarrow> FlowState \<Rightarrow> Collision \<Rightarrow> FlowState" where
  "mark_crowded S st c =
     (if int (length (c_upstream c) + length (c_downstream c)) > fc_max_collision_members (su_config S)
      then st\<lparr>fs_crowded := dict_put (c_key c, c_value c)
             (insert (c_where c) (case map_of (fs_crowded st) (c_key c, c_value c) of None \<Rightarrow> {} | Some ws \<Rightarrow> ws))
             (fs_crowded st)\<rparr>
      else st)"

definition put_proposal :: "(string \<Rightarrow> string) \<Rightarrow> FlowState \<Rightarrow> fkey \<times> FProposal \<Rightarrow> FlowState result" where
  "put_proposal H st kp =
     (let (bk, p) = kp in
      bindE (dict_getE (fs_keys_of st) (snd bk)) (\<lambda>keys.
      Inr (emit_new H bk p (st\<lparr>fs_keys_of := dict_put (snd bk) (insert bk keys) (fs_keys_of st)\<rparr>))))"

definition settle_if_decided :: "FlowSetup \<Rightarrow> FlowState \<Rightarrow> identity \<Rightarrow> FlowState result" where
  "settle_if_decided S st i =
     bindE (dict_getE (fs_open st) i) (\<lambda>entry.
     case flow_values S (f_observation entry) of
       [v] \<Rightarrow>
         (case map_of (fs_crowded st) v of None \<Rightarrow> Inr st
          | Some wheres \<Rightarrow>
              bindE (dict_getE (fs_keys_of st) i) (\<lambda>keys.
              if \<forall>bk \<in> keys. fst bk \<in> wheres
              then bindE (flow_watermark S st) (\<lambda>(watermark, _).
                Inr (st\<lparr>fs_settled := insert i (fs_settled st),
                        fs_due := (if f_at entry + fc_window_us (su_config S) < watermark
                                   then insert i (fs_due st) else fs_due st)\<rparr>))
              else Inr st))
     | _ \<Rightarrow> Inr st)"

definition evaluate_flow ::
    "(string \<Rightarrow> string) \<Rightarrow> FlowSetup \<Rightarrow> FlowState \<Rightarrow> identity list \<Rightarrow> FlowState result" where
  "evaluate_flow H S st0 grp0 =
     (let grp = filter (\<lambda>i. i \<notin> fs_settled st0) grp0 in
      bindE (mapE (\<lambda>i. bindE (dict_getE (fs_open st0) i) (\<lambda>e. Inr (f_observation e))) grp) (\<lambda>observations.
      bindE (exact_links (su_topology S) observations) (\<lambda>joined.
      let st = foldl (mark_crowded S) st0 (x_collisions joined) in
      bindE (outcomes joined (authored_value S st)) (\<lambda>authored0.
      let authored = map (\<lambda>(bk, x). (bk, definitive st (fst bk) x)) authored0 in
      bindE (observed_links (su_topology S) observations) (\<lambda>seen.
      bindE (outcomes seen (observed_value S st)) (\<lambda>observed.
      bindE (mapE (propose S st authored observed) (sorted_list_of_set (fst ` set authored \<union> fst ` set observed))) (\<lambda>proposals.
      bindE (foldE (put_proposal H) st proposals) (\<lambda>st1.
      if fs_crowded st1 = [] then Inr st1 else foldE (settle_if_decided S) st1 grp))))))))"

section \<open>The journal\<close>

definition declared :: "FlowState \<Rightarrow> string \<Rightarrow> unit result" where
  "declared st source = checkE (source \<in> fst ` set (fs_progress st)) (ValueError ''undeclared source'')"

definition advance :: "string \<Rightarrow> int \<Rightarrow> FlowState \<Rightarrow> FlowState result" where
  "advance source until st =
     bindE (dict_getE (fs_progress st) source) (\<lambda>previous.
     Inr (st\<lparr>fs_progress := dict_put source (Some (case previous of None \<Rightarrow> until | Some p \<Rightarrow> max p until)) (fs_progress st),
             fs_first_at := Some (case fs_first_at st of None \<Rightarrow> until | Some f \<Rightarrow> min f until)\<rparr>))"

definition check_times :: "Seen \<Rightarrow> unit result" where
  "check_times e =
     (case (f_start_us e, f_end_us e) of
        (None, None) \<Rightarrow> Inr ()
      | (Some start, Some stop) \<Rightarrow>
          bindE (checkE (\<not> stop < start) (ValueError ''an observation ends before it starts'')) (\<lambda>_.
          checkE (f_at e = stop) (ValueError ''at must be end_us for a timed observation''))
      | _ \<Rightarrow> Inl (ValueError ''start_us and end_us are given together, or not at all''))"

definition flow_content :: "Seen \<Rightarrow> (identity \<times> string \<times> string \<times> (string \<times> string) list) \<times> int \<times> int option \<times> int option" where
  "flow_content e = ((o_identity (f_observation e), o_content (f_observation e)), f_at e, f_start_us e, f_end_us e)"

definition enter_timed_join ::
    "(string \<Rightarrow> string) \<Rightarrow> FlowSetup \<Rightarrow> Seen \<Rightarrow> FlowState \<Rightarrow> string \<Rightarrow> FlowState result" where
  "enter_timed_join H S entry st where =
     bindE (dict_getE (fs_timed st) where) (\<lambda>j.
     let obs = f_observation entry; i = o_identity obs in
     case side_of j (o_point obs) (o_side obs) of
       None \<Rightarrow> Inr st
     | Some side \<Rightarrow>
         (case (f_start_us entry, f_end_us entry) of
            (Some start, Some stop) \<Rightarrow>
              if too_long j start stop
              then let (st', d) = emit_flow H (where, i) (timed_proposal (no_link R_TOO_LONG)) F_FINAL False st in
                   prove H S [i] [fd_id d] False None (Some j) st'
              else
                bindE (tj_add j \<lparr>t_source = o_source obs, t_seq = o_seq obs, t_point = o_point obs, t_side = side,
                         start_us = start, end_us = stop\<rparr>) (\<lambda>(j', verdicts).
                Inr (fold (\<lambda>(m, v). emit_new H (where, m) (timed_proposal v)) (sort_key fst verdicts)
                       (st\<lparr>fs_timed := dict_put where j' (fs_timed st)\<rparr>)))
          | _ \<Rightarrow>
              let (st', d) = emit_flow H (where, i) (timed_proposal (no_link R_TIME_ABSENT)) F_FINAL False st in
              prove H S [i] [fd_id d] False None (Some j) st'))"

definition enter_timed :: "(string \<Rightarrow> string) \<Rightarrow> FlowSetup \<Rightarrow> Seen \<Rightarrow> FlowState \<Rightarrow> FlowState result" where
  "enter_timed H S entry st = foldE (enter_timed_join H S entry) st (map fst (fs_timed st))"

definition reused_values :: "FlowSetup \<Rightarrow> FlowState \<Rightarrow> Observation \<Rightarrow> fvalue list" where
  "reused_values S st obs =
     sort (filter (\<lambda>v. v \<in> fs_closed_values st)
       (map (\<lambda>k. (k, the (map_of (o_keys obs) k))) (sorted_list_of_set (su_join_keys S \<inter> fst ` set (o_keys obs)))))"

definition add_holder :: "identity \<Rightarrow> fvalue \<Rightarrow> FlowState \<Rightarrow> FlowState" where
  "add_holder i v st =
     st\<lparr>fs_holders := dict_put v (insert i (case map_of (fs_holders st) v of None \<Rightarrow> {} | Some hs \<Rightarrow> hs)) (fs_holders st)\<rparr>"

definition open_entry :: "FlowSetup \<Rightarrow> Seen \<Rightarrow> FlowState \<Rightarrow> FlowState" where
  "open_entry S entry st =
     (let obs = f_observation entry; i = o_identity obs;
          st1 = st\<lparr>fs_open := dict_put i entry (fs_open st), fs_keys_of := dict_put i {} (fs_keys_of st)\<rparr>;
          st2 = fold (add_holder i) (flow_values S obs) st1 in
      st2\<lparr>fs_pending := insort (f_at entry, i) (fs_pending st2)\<rparr>)"

text \<open>The rest of \<open>_seen\<close> once the observation is known to be new.\<close>

definition seen_new :: "(string \<Rightarrow> string) \<Rightarrow> FlowSetup \<Rightarrow> Seen \<Rightarrow> FlowState \<Rightarrow> FlowState result" where
  "seen_new H S entry st0 =
     (let obs = f_observation entry; i = o_identity obs; pos = fs_position st0 + 1;
          st1 = st0\<lparr>fs_seen := dict_put i entry (fs_seen st0), fs_position := pos,
                    fs_positions := dict_put i pos (fs_positions st0)\<rparr> in
      bindE (if fs_first_at st1 = None then Inr False
             else bindE (flow_watermark S st1) (\<lambda>(w, _). Inr (f_at entry < w))) (\<lambda>late.
      bindE (advance (o_source obs) (f_at entry) st1) (\<lambda>st2.
      if late then Inr (fst (emit_flow H ([], i) (plain K_LATE None None []) F_FINAL False st2))
      else
        bindE (enter_timed H S entry st2) (\<lambda>st3.
        case reused_values S st3 obs of
          (key, v) # _ \<Rightarrow> Inr (fst (emit_flow H ([], i) (plain VALUE_AFTER_FINAL (Some key) (Some v) []) F_FINAL False st3))
        | [] \<Rightarrow>
            let st4 = open_entry S entry st3 in
            bindE (group_of S st4 i) (\<lambda>grp.
            bindE (evaluate_flow H S st4 grp) (settle_flow H S))))))"

definition feed_seen :: "(string \<Rightarrow> string) \<Rightarrow> FlowSetup \<Rightarrow> Seen \<Rightarrow> FlowState \<Rightarrow> FlowState result" where
  "feed_seen H S entry st =
     (let obs = f_observation entry in
      bindE (exact_validate (su_points S) obs) (\<lambda>_.
      bindE (declared st (o_source obs)) (\<lambda>_.
      bindE (check_times entry) (\<lambda>_.
      case map_of (fs_seen st) (o_identity obs) of
        Some before \<Rightarrow>
          if flow_content before \<noteq> flow_content entry then Inl (ValueError ''delivered with different content'')
          else Inr (st\<lparr>fs_duplicates := fs_duplicates st + 1\<rparr>)
      | None \<Rightarrow> seen_new H S entry st))))"

definition feed_flow :: "(string \<Rightarrow> string) \<Rightarrow> FlowSetup \<Rightarrow> FlowState \<Rightarrow> FlowEntry \<Rightarrow> FlowState result" where
  "feed_flow H S st entry =
     (case entry of
        FSeen e \<Rightarrow> feed_seen H S e st
      | FAdvance a \<Rightarrow>
          bindE (declared st (av_source a)) (\<lambda>_.
          bindE (advance (av_source a) (av_until a) (st\<lparr>fs_position := fs_position st + 1\<rparr>)) (settle_flow H S))
      | FOther \<Rightarrow> Inl (ValueError ''unknown journal entry''))"

definition replay_flow ::
    "(string \<Rightarrow> string) \<Rightarrow> (pyval \<Rightarrow> string) \<Rightarrow> string \<Rightarrow> Topology \<Rightarrow> FlowEntry list \<Rightarrow> FlowConfig \<Rightarrow> FlowResult result" where
  "replay_flow H rp V t journal c =
     bindE (init_flow H rp V t c) (\<lambda>(S, st).
     bindE (foldE (feed_flow H S) st journal) (\<lambda>st'.
     Inr \<lparr>fr_decisions = fs_decisions st', fr_dossiers = fs_dossiers st', fr_duplicates = fs_duplicates st'\<rparr>))"

end
