(* ===== verification/Spec2Isabelle.thy ===== *)
theory Spec2Isabelle
  imports Engine_Examples Stream_Examples Exact_Examples Timing_Examples M0_Examples Observe_Examples Flow
begin

text \<open>
  ReconcileFlow: a verification library for the deterministic reconciliation and correlation
  core, the Python package under \<open>src/src/reconcileflow\<close>.

  \<^bold>\<open>The program.\<close>  The engine (\<open>engine.py\<close>, \<open>rules.py\<close>) pairs the records of two sides: records
  are put into blocks, four rules of decreasing strictness propose candidates, each rule takes
  its candidates greedily by score, and whatever stays unmatched gets a typed reason.  The stream
  (\<open>stream.py\<close>) feeds a journal of arrivals and progress marks to the engine block by block and
  keeps, for every record, a chain of decisions that becomes final once the watermark has passed
  its component.  The observation (\<open>observation.py\<close>) counts the final decisions and raises
  alerts.  The correlation side (\<open>correlation/\<close>) declares a topology of points and hops
  (\<open>topology.py\<close>), links observations by shared identifiers (\<open>exact.py\<close>) or by time
  (\<open>timing.py\<close> over the assignment core \<open>assignment.py\<close>).  The M0 protocol (\<open>m0/\<close>) turns
  measurements into a verdict (\<open>stability.py\<close>, \<open>attribution.py\<close>).

  \<^bold>\<open>Shared ground.\<close>  \<open>Prelude\<close> has the error type, the result monad with its loops (\<open>foldE\<close>,
  \<open>mapE\<close>, \<open>collectE\<close>: stop at the first exception), and dictionaries as association lists in
  insertion order, with their lemmas in the collections \<open>errs\<close> and \<open>dicts\<close>.  \<open>Decimal\<close> is
  Python's \<open>decimal\<close> under the library's context (\<open>numeric.py\<close>: 28 digits, half-even), digit
  for digit: addition, multiplication, division, square root, quantize and printing; exponents
  are unbounded, so the context's overflow and underflow do not occur.  Values of decimals are
  compared as rationals through \<open>dec_val\<close>.  A date is its ordinal day, a \<open>datetime\<close> a local time in
  microseconds with its offset.  SHA-256 is the parameter \<open>H\<close> everywhere: nothing relies on more
  than that it is a function.

  \<^bold>\<open>Core types and rules.\<close>  \<open>Models\<close> is \<open>models.py\<close>: records, tolerances, matches, rejects, the
  canonical digest of a result.  \<open>Rules\<close> is \<open>rules.py\<close>: the generators M0 to M3 with the score.
  The locale \<open>rule_generator\<close> states what a generator promises (its candidates are exactly the
  accepted pairings, each once) and is interpreted for each of the four and for
  \<open>GENERATORS\<close>.  \<open>Scores\<close> bounds the score of each rule through the decimal rounding.

  \<^bold>\<open>Engine.\<close>  \<open>Engine\<close> is \<open>engine.py\<close>.  \<open>Engine_Blocks\<close> shows that blocks are independent,
  \<open>Selection\<close> what the greedy loop keeps, \<open>Break_Audit\<close> the audit of one block, and
  \<open>Engine_Props\<close> the properties of \<open>reconcile\<close>: its result does not depend on the order of the
  input, every match is sound, no record is used twice, no better pairing is left, every
  unmatched record or pair has exactly one reason, the counters account for every record, and the
  run always returns under well-formed tolerances.

  \<^bold>\<open>Stream.\<close>  \<open>Stream\<close> is \<open>stream.py\<close>, the state of \<open>_Replay\<close> as a record passed along.  The loop
  of \<open>_settle\<close>, which the code leaves when nothing closes, runs on the size of the pool as fuel:
  each round that closes something shrinks the pool, so it never runs out (\<open>settle_spec\<close>).
  \<open>Components\<close> shows the union-find is connectivity; the locale \<open>reconciler\<close> (\<open>Stream_Inv\<close>) is
  what the stream relies on of the engine and \<open>partitioner\<close> (\<open>Stream_Settle\<close>) of the components;
  both are interpreted on the model's own definitions.  \<open>Stream_Replay\<close> keeps the invariant over
  every entry, and \<open>Stream_Props\<close> proves which journals are accepted, that histories are chains
  of versions with at most one final decision at the end, and that a redelivery changes nothing.

  \<^bold>\<open>Observation.\<close>  \<open>Observe\<close> is \<open>observation.py\<close>, on the stream's results; \<open>Observe_Props\<close> shows
  that the series counts every final decision once, what the daily verdicts mean, and which sources
  are reported silent.

  \<^bold>\<open>Topology and exact path.\<close>  \<open>Topology\<close> is \<open>correlation/topology.py\<close> from the parsed TOML
  tables on: the readers with their refusals, the links of a hop and its ceiling, the density of
  timing.  \<open>Topology_Props\<close>, \<open>Topology_Load\<close> and \<open>Topology_Consistent\<close> show that the ceiling is the
  strongest link whose requirements hold, that a loaded topology is consistent, and when loading
  fails.  \<open>Dedup\<close> is the loop that drops redeliveries, shared by \<open>exact.py\<close> and \<open>timing.py\<close>.
  \<open>Exact\<close> is \<open>correlation/exact.py\<close>; the locale \<open>value_reader\<close> (\<open>Exact_Props\<close>) is the join on any
  one value, interpreted for single keys and for the composite of a connection, and gives the
  characterisation of links, collisions and unlinked observations.

  \<^bold>\<open>Assignment and timing.\<close>  \<open>Assignment\<close> is \<open>correlation/assignment.py\<close>.  \<open>Hungarian\<close>,
  \<open>Hungarian_Grow\<close> and \<open>Hungarian_Correct\<close> prove the shortest-path loop correct: it returns a
  permutation of least cost, and the bound on its rounds, the code's own \<open>range(n + 1)\<close>, is
  enough.  \<open>Timing\<close> is \<open>correlation/timing.py\<close>; \<open>Timing_Candidates\<close> shows that the binary searches
  lose no candidate.

  \<^bold>\<open>M0.\<close>  \<open>Stability\<close> and \<open>Attribution\<close> are \<open>m0/stability.py\<close> and \<open>m0/attribution.py\<close>; the theories
  with \<open>_Props\<close> show which ratios are accepted, that accepted measurements are consistent even
  after rounding, and what makes a verdict borderline.

  The theories with \<open>_Examples\<close> hold the concrete inputs at which the theorems are applied.

  \<^bold>\<open>Modelling choices.\<close>  Values are well-typed: the code's \<open>isinstance\<close> checks have nothing to
  refuse, except where the topology's readers meet untyped TOML, which is a datatype.  An
  exception is a value of the sum type; its text is kept where a property or a caller reads it
  and shortened otherwise.  Python's sets are HOL sets where only membership matters and lists
  where their order is observed after sorting.

  \<^bold>\<open>Not modelled.\<close>  The flow correlation (\<open>correlation/flow.py\<close>, \<open>flow_timed.py\<close>), the SQLite
  provenance store (\<open>provenance.py\<close>) and the CAMT.053 adapter over it; \<open>m0/latency.py\<close> (floating
  point); the M0 harness, tools and examples, which probe networks and orchestrate processes
  around the library.
\<close>

end
